(* ===== verification/Prelude.thy ===== *)
theory Prelude
  imports "HOL-Library.Word" "HOL-Library.AList"
begin

unbundle bit_operations_syntax

text \<open>
  What the components share: the machine integers of the Rust code, the result of a
  fallible call, a \<^verbatim>\<open>HashMap\<close> as an association list with distinct keys, the byte
  order of the wire protocol, and the fixed-size page buffers.

  Integers keep their width. The arithmetic is that of the release profile of
  \<^verbatim>\<open>Cargo.toml\<close>, which does not turn overflow checks on: \<open>+\<close>, \<open>-\<close> and \<open>*\<close> wrap around,
  as the atomic \<^verbatim>\<open>fetch_add\<close> and \<^verbatim>\<open>fetch_sub\<close> do in every profile. \<^verbatim>\<open>usize\<close> is 64 bits
  wide.
\<close>

named_theorems duvm_defs \<open>definitions that the evaluation of a concrete run unfolds\<close>

type_synonym u8 = "8 word"
type_synonym u16 = "16 word"
type_synonym u32 = "32 word"
type_synonym u64 = "64 word"
type_synonym usize = "64 word"
type_synonym i32 = "32 word"

section \<open>Results\<close>

text \<open>
  A Rust call returns \<open>Ok\<close> or \<open>Err\<close>, or it panics. A panic is not an error value: it
  unwinds through the callers, which cannot handle it the way they handle an \<open>Err\<close>. An
  \<^verbatim>\<open>anyhow::Error\<close> is named by the place that raises it, with the numbers its message shows.
\<close>

datatype error =
    MemoryFull u64 \<comment> \<open>memory backend full\<close>
  | CompressFull u64 \<comment> \<open>compress backend full\<close>
  | PageNotFound u64 \<comment> \<open>page not found in a backend, with the raw handle\<close>
  | Lz4Failed \<comment> \<open>LZ4 decompression failed\<close>
  | SizeMismatch nat \<comment> \<open>decompressed size is not the page size\<close>
  | AllBackendsFull \<comment> \<open>no tier available and no evictable pages\<close>
  | FullAfterEviction \<comment> \<open>all backends full even after eviction\<close>
  | NoBackendForTier
  | OffsetNotFound u64 \<comment> \<open>page not found for a swap offset\<close>
  | BackendNotFound u8
  | NoBackends
  | TcpFull u64 \<comment> \<open>TCP backend full\<close>
  | CircuitOpen u32 \<comment> \<open>circuit breaker open, with the number of consecutive failures\<close>
  | InvalidAddress string
  | ConnectFailed
  | NotConnected string
  | IoFailed \<comment> \<open>a read, write, flush or socket option failed\<close>
  | RemoteAllocFailed
  | RemoteFreeFailed u64
  | RemoteStoreFailed
  | RemoteLoadFailed
  | RdmaRequired \<comment> \<open>transport rdma without RDMA devices\<close>
  | RdmaUnavailable \<comment> \<open>no RDMA devices available\<close>
  | RdmaFailed string \<comment> \<open>a call of librdmacm or libibverbs failed, with its name\<close>
  | RdmaTimeout string \<comment> \<open>no event or completion came in time\<close>
  | RdmaNotInitialized
  | RdmaFull u64 \<comment> \<open>RDMA backend full\<close>
  | RdmaOutOfCapacity \<comment> \<open>RDMA server out of capacity\<close>
  | BadIp string
  | NoHandshake \<comment> \<open>the server did not send its handshake\<close>

datatype 'a res = Ok 'a | Err error | Panic

fun is_ok :: "'a res \<Rightarrow> bool" where
  "is_ok (Ok _) = True"
| "is_ok (Err _) = False"
| "is_ok Panic = False"

lemma is_ok_iff: "is_ok r \<longleftrightarrow> (\<exists>a. r = Ok a)"
  by (cases r) auto

section \<open>Hash maps\<close>

text \<open>
  A \<^verbatim>\<open>HashMap\<close> is an association list with distinct keys: \<^const>\<open>map_of\<close> is \<^verbatim>\<open>get\<close>,
  \<^const>\<open>AList.update\<close> is \<^verbatim>\<open>insert\<close>, \<^const>\<open>AList.delete\<close> is \<^verbatim>\<open>remove\<close> and
  \<^const>\<open>length\<close> is \<^verbatim>\<open>len\<close>. Rust leaves the order of iteration open; where a result can
  depend on it the model takes that order as an argument.
\<close>

type_synonym ('k, 'v) hash_map = "('k \<times> 'v) list"

definition hm_ok :: "('k, 'v) hash_map \<Rightarrow> bool" where
  "hm_ok m \<longleftrightarrow> distinct (map fst m)"

lemmas hm_get_insert [simp] = AList.update_conv'
lemmas hm_get_remove [simp] = AList.delete_conv'

lemma hm_ok_Nil [simp]: "hm_ok []"
  by (simp add: hm_ok_def)

lemma hm_ok_insert [simp]: "hm_ok m \<Longrightarrow> hm_ok (AList.update k v m)"
  by (simp add: hm_ok_def distinct_update)

lemma hm_ok_remove [simp]: "hm_ok m \<Longrightarrow> hm_ok (AList.delete k m)"
  by (simp add: hm_ok_def distinct_delete)

lemma hm_get_iff: "hm_ok m \<Longrightarrow> map_of m k = Some v \<longleftrightarrow> (k, v) \<in> set m"
  by (simp add: hm_ok_def)

lemma hm_keys: "fst ` set m = dom (map_of m)"
  by (rule dom_map_of_conv_image_fst [symmetric])

lemma hm_length_insert:
  "length (AList.update k v m) = (if k \<in> dom (map_of m) then length m else Suc (length m))"
  by (induction m) auto

lemma hm_length_remove:
  "hm_ok m \<Longrightarrow> length (AList.delete k m) = (if k \<in> dom (map_of m) then length m - 1 else length m)"
proof (induction m)
  case (Cons p m)
  show ?case
  proof (cases "fst p = k")
    case True
    with Cons.prems have "k \<notin> fst ` set m" by (auto simp: hm_ok_def)
    with True show ?thesis by (auto simp: hm_keys)
  next
    case False
    with Cons.prems have "hm_ok m" by (simp add: hm_ok_def)
    with False Cons.IH show ?thesis
      by (cases m) (auto simp: domIff split: if_splits)
  qed
qed simp

lemma hm_keys_insert_existing:
  "k \<in> dom (map_of m) \<Longrightarrow> map fst (AList.update k v m) = map fst m"
  by (induction m) auto

section \<open>Bytes\<close>

text \<open>\<^verbatim>\<open>u64::to_le_bytes\<close> and \<^verbatim>\<open>u64::from_le_bytes\<close>.\<close>

primrec le_bytes :: "nat \<Rightarrow> u64 \<Rightarrow> u8 list" where
  "le_bytes 0 x = []"
| "le_bytes (Suc n) x = ucast x # le_bytes n (drop_bit 8 x)"

definition to_le_bytes :: "u64 \<Rightarrow> u8 list" where
  "to_le_bytes x = le_bytes 8 x"

primrec from_le_bytes :: "u8 list \<Rightarrow> u64" where
  "from_le_bytes [] = 0"
| "from_le_bytes (b # bs) = ucast b OR push_bit 8 (from_le_bytes bs)"

lemma length_le_bytes: "length (le_bytes n x) = n"
  by (induction n arbitrary: x) auto

lemma length_to_le_bytes [simp]: "length (to_le_bytes x) = 8"
  by (simp add: to_le_bytes_def length_le_bytes)

lemma le_byte_step:
  fixes x :: u64
  shows "ucast (ucast x :: u8) OR push_bit 8 (take_bit m (drop_bit 8 x)) = take_bit (8 + m) x"
  by (rule bit_word_eqI) (auto simp: bit_simps)

lemma from_le_bytes_le_bytes: "from_le_bytes (le_bytes n x) = take_bit (8 * n) x"
  by (induction n arbitrary: x) (simp_all add: le_byte_step)

lemma from_to_le_bytes [simp]: "from_le_bytes (to_le_bytes x) = x"
  by (simp add: to_le_bytes_def from_le_bytes_le_bytes take_bit_word_eq_self)

section \<open>Pages\<close>

text \<open>A \<^verbatim>\<open>PageBuffer\<close> is an array of \<^verbatim>\<open>PAGE_SIZE\<close> bytes.\<close>

definition PAGE_SIZE :: nat where
  "PAGE_SIZE = 4096"

type_synonym page = "u8 list"

definition is_page :: "page \<Rightarrow> bool" where
  "is_page d \<longleftrightarrow> length d = PAGE_SIZE"

lemma is_page_replicate [simp]: "is_page (replicate 4096 b)"
  by (simp add: is_page_def PAGE_SIZE_def)

section \<open>Words as counters\<close>

lemma unat_inc: "x < y \<Longrightarrow> unat (x + 1) = Suc (unat (x :: 'a::len word))"
proof -
  assume "x < y"
  then have "Suc (unat x) < 2 ^ LENGTH('a)"
    using unsigned_less [of y, where ?'a = nat] by (simp only: word_less_nat_alt)
  then show ?thesis
    by (metis One_nat_def Suc_eq_plus1 unat_1 unat_add_lem)
qed

lemma unat_of_nat_len: "n < 2 ^ LENGTH('a) \<Longrightarrow> unat (of_nat n :: 'a::len word) = n"
  by (simp add: unat_of_nat take_bit_nat_eq_self)

lemma unat_mult_small:
  fixes x y :: "'a::len word"
  shows "unat x * unat y < 2 ^ LENGTH('a) \<Longrightarrow> unat (x * y) = unat x * unat y"
  by (simp add: unat_mult_lem)

lemma unat_add_small:
  fixes x y :: "'a::len word"
  shows "unat x + unat y < 2 ^ LENGTH('a) \<Longrightarrow> unat (x + y) = unat x + unat y"
  by (simp add: unat_add_lem)

lemma unat_of_nat_times:
  fixes p :: "'a::len word"
  assumes "k * unat p < 2 ^ LENGTH('a)"
  shows "unat (of_nat k * p) = k * unat p"
proof -
  have "of_nat k * p = of_nat (k * unat p)" by simp
  then show ?thesis using unat_of_nat_len [OF assms] by metis
qed

lemma unat_PAGE_SIZE: "unat (of_nat PAGE_SIZE :: u64) = PAGE_SIZE"
  by (simp add: PAGE_SIZE_def)

text \<open>Rounding down to a page.\<close>

lemma and_minus_4096: "(y :: u64) AND - 4096 = push_bit 12 (drop_bit 12 y)"
proof -
  have eq: "(- 4096 :: u64) = NOT (mask 12)" by (simp add: mask_eq_exp_minus_1)
  show ?thesis unfolding eq by (rule bit_word_eqI) (auto simp: bit_simps)
qed

lemma unat_page_start: "unat ((y :: u64) AND - 4096) = unat y div 4096 * 4096"
proof -
  have y: "unat y < 2 ^ 64" using unsigned_less [of y, where ?'a = nat] by simp
  then have lt: "unat y div 4096 * 4096 < 2 ^ 64" by (metis div_times_less_eq_dividend le_less_trans)
  have "unat (push_bit 12 (drop_bit 12 y)) = take_bit 64 (push_bit 12 (drop_bit 12 (unat y)))"
    using take_bit_nat_eq_self [OF y] by (simp only: unsigned_push_bit_eq unsigned_drop_bit_eq) simp
  also have "\<dots> = take_bit 64 (unat y div 4096 * 4096)" by (simp add: push_bit_eq_mult drop_bit_eq_div)
  also have "\<dots> = unat y div 4096 * 4096" using lt by (rule take_bit_nat_eq_self)
  finally show ?thesis by (simp only: and_minus_4096)
qed

lemma hm_length_remove_Some:
  "hm_ok m \<Longrightarrow> map_of m k = Some v \<Longrightarrow> length m = Suc (length (AList.delete k m))"
  using hm_length_remove [of m k] by (cases "length m") (auto simp: domIff)

text \<open>A map whose keys are below a word bound has fewer entries than the word type has values.\<close>

lemma hm_length_less:
  fixes m :: "('a::len word, 'v) hash_map" and n :: "'a word"
  assumes "hm_ok m" and "\<And>x v. map_of m x = Some v \<Longrightarrow> x < n"
  shows "length m \<le> unat n" and "unat (of_nat (length m) :: 'a word) = length m"
proof -
  have "unat x < unat n" if "(x, v) \<in> set m" for x v
    using that assms by (simp add: hm_get_iff [symmetric] flip: word_less_nat_alt)
  then have sub: "unat ` fst ` set m \<subseteq> {..<unat n}" by auto
  have "length m = card (fst ` set m)"
    using assms(1) by (metis distinct_card hm_ok_def length_map list.set_map)
  also have "\<dots> = card (unat ` fst ` set m)"
    by (rule card_image [symmetric]) (simp add: inj_on_def word_unat_eq_iff)
  also have "\<dots> \<le> unat n"
    using card_mono [OF _ sub] by simp
  finally show le: "length m \<le> unat n" .
  then have "length m < 2 ^ LENGTH('a)"
    using unsigned_less [of n, where ?'a = nat] by linarith
  then show "unat (of_nat (length m) :: 'a word) = length m" by (rule unat_of_nat_len)
qed

end
