(* ===== verification/Protocol.thy ===== *)
theory Protocol
  imports Prelude
begin

text \<open>
  The messages of the ring between the kernel module and the daemon:
  \<^verbatim>\<open>crates/duvm-common/src/protocol.rs\<close>. The structs are records with the fields in
  declaration order; \<^verbatim>\<open>repr(C)\<close> fixes their layout, which is computed here from the sizes
  and alignments of the fields.
\<close>

section \<open>Operation codes\<close>

datatype op_code = Nop | Store | Load | Invalidate | Prefetch

fun op_code_repr :: "op_code \<Rightarrow> u8" where
  "op_code_repr Nop = 0"
| "op_code_repr Store = 1"
| "op_code_repr Load = 2"
| "op_code_repr Invalidate = 3"
| "op_code_repr Prefetch = 4"

definition op_code_from_u8 :: "u8 \<Rightarrow> op_code option" where
  "op_code_from_u8 v =
     (if v = 0 then Some Nop
      else if v = 1 then Some Store
      else if v = 2 then Some Load
      else if v = 3 then Some Invalidate
      else if v = 4 then Some Prefetch
      else None)"

lemma op_code_from_repr: "op_code_from_u8 (op_code_repr c) = Some c"
  by (cases c) (simp_all add: op_code_from_u8_def)

lemma op_code_from_u8_Some: "op_code_from_u8 v = Some c \<Longrightarrow> v = op_code_repr c"
  by (auto simp: op_code_from_u8_def split: if_splits)

section \<open>Requests and completions\<close>

record ring_request =
  rq_op :: u8
  rq_flags :: u8
  rq_pad :: "u8 list" \<comment> \<open>2 bytes\<close>
  rq_seq :: u32
  rq_pfn :: u64
  rq_offset :: u64
  rq_staging_slot :: u32
  rq_reserved :: "u8 list" \<comment> \<open>28 bytes\<close>

record ring_completion =
  rc_seq :: u32
  rc_result :: i32
  rc_handle :: u64
  rc_staging_slot :: u32
  rc_reserved :: "u8 list" \<comment> \<open>40 bytes\<close>

definition zeroed_request :: ring_request where
  "zeroed_request =
     \<lparr>rq_op = 0, rq_flags = 0, rq_pad = replicate 2 0, rq_seq = 0, rq_pfn = 0, rq_offset = 0,
      rq_staging_slot = 0, rq_reserved = replicate 28 0\<rparr>"

definition zeroed_completion :: ring_completion where
  "zeroed_completion =
     \<lparr>rc_seq = 0, rc_result = 0, rc_handle = 0, rc_staging_slot = 0,
      rc_reserved = replicate 40 0\<rparr>"

section \<open>Layout\<close>

text \<open>
  The \<^verbatim>\<open>repr(C)\<close> algorithm: each field goes to the next multiple of its alignment, and the
  size of the struct is rounded up to the alignment of the struct.
\<close>

type_synonym c_field = "nat \<times> nat" \<comment> \<open>size and alignment\<close>

definition round_up_to :: "nat \<Rightarrow> nat \<Rightarrow> nat" where
  "round_up_to n a = (n + a - 1) div a * a"

fun c_offsets :: "nat \<Rightarrow> c_field list \<Rightarrow> nat list" where
  "c_offsets pos [] = []"
| "c_offsets pos ((sz, al) # fs) =
     (let at = round_up_to pos al in at # c_offsets (at + sz) fs)"

fun c_end :: "nat \<Rightarrow> c_field list \<Rightarrow> nat" where
  "c_end pos [] = pos"
| "c_end pos ((sz, al) # fs) = c_end (round_up_to pos al + sz) fs"

definition c_size :: "nat \<Rightarrow> c_field list \<Rightarrow> nat" where
  "c_size align fs = round_up_to (c_end 0 fs) align"

text \<open>The fields of the two structs, both declared \<^verbatim>\<open>repr(C, align(64))\<close>.\<close>

definition ring_request_fields :: "c_field list" where
  "ring_request_fields = [(1, 1), (1, 1), (2, 1), (4, 4), (8, 8), (8, 8), (4, 4), (28, 1)]"

definition ring_completion_fields :: "c_field list" where
  "ring_completion_fields = [(4, 4), (4, 4), (8, 8), (4, 4), (40, 1)]"

lemmas layout_defs = c_size_def round_up_to_def ring_request_fields_def ring_completion_fields_def
  Let_def

section \<open>Properties\<close>

text \<open>
  The byte of an operation code determines the code and the other way round, and a byte with
  no code is refused.
\<close>

theorem op_code_wire: "op_code_from_u8 b = Some c \<longleftrightarrow> op_code_repr c = b"
  by (cases c) (auto simp: op_code_from_u8_def)

text \<open>
  Both ring entries take one cache line of 64 bytes, and both end in padding: the fields of a
  request fill 56 of its 64 bytes and those of a completion 60, so that the bytes of an entry are
  not all initialised by its fields.
\<close>

theorem ring_entry_padding:
  "c_size 64 ring_request_fields = 64 \<and> c_end 0 ring_request_fields = 56 \<and>
   c_size 64 ring_completion_fields = 64 \<and> c_end 0 ring_completion_fields = 60"
  by (simp add: layout_defs)

end
