(* ===== verification/Ring.thy ===== *)
theory Ring
  imports Protocol
begin

unbundle bit_operations_syntax

text \<open>
  The single-producer single-consumer ring of \<^verbatim>\<open>crates/duvm-common/src/ring.rs\<close>.
  \<^verbatim>\<open>RequestRing\<close> and \<^verbatim>\<open>CompletionRing\<close> have the same fields and the same operations over
  their entry type, so the model is one record over the entry type with one definition per
  operation; the completion ring's operations are its instances. An index outside the
  entry vector panics, as it does in Rust.
\<close>

section \<open>The ring\<close>

record 'a ring =
  entries :: "'a list"
  write_idx :: usize
  read_idx :: usize
  capacity :: usize
  mask_bits :: usize

text \<open>\<^verbatim>\<open>usize::is_power_of_two\<close>.\<close>

definition is_power_of_two :: "usize \<Rightarrow> bool" where
  "is_power_of_two n \<longleftrightarrow> list_ex (\<lambda>k. n = 2 ^ k) [0..<64]"

definition ring_new :: "'a \<Rightarrow> usize \<Rightarrow> 'a ring res" where
  "ring_new zero cap =
     (if is_power_of_two cap then
        Ok \<lparr>entries = replicate (unat cap) zero, write_idx = 0, read_idx = 0,
            capacity = cap, mask_bits = cap - 1\<rparr>
      else Panic)"

definition ring_try_push :: "'a ring \<Rightarrow> 'a \<Rightarrow> bool res \<times> 'a ring" where
  "ring_try_push r x =
     (let next_write = (write_idx r + 1) AND mask_bits r in
      if next_write = read_idx r then (Ok False, r)
      else if unat (write_idx r) < length (entries r) then
        (Ok True, r\<lparr>entries := (entries r)[unat (write_idx r) := x],
                    write_idx := (write_idx r + 1) AND mask_bits r\<rparr>)
      else (Panic, r))"

definition ring_try_pop :: "'a ring \<Rightarrow> 'a option res \<times> 'a ring" where
  "ring_try_pop r =
     (if read_idx r = write_idx r then (Ok None, r)
      else if unat (read_idx r) < length (entries r) then
        (Ok (Some (entries r ! unat (read_idx r))),
         r\<lparr>read_idx := (read_idx r + 1) AND mask_bits r\<rparr>)
      else (Panic, r))"

function pop_batch_loop :: "'a ring \<Rightarrow> 'a list \<Rightarrow> usize \<Rightarrow> usize \<Rightarrow> usize res \<times> 'a list \<times> 'a ring" where
  "pop_batch_loop r buf maxn count =
     (if count < maxn then
        (case ring_try_pop r of
           (Ok (Some x), r') \<Rightarrow> pop_batch_loop r' (buf @ [x]) maxn (count + 1)
         | (Ok None, r') \<Rightarrow> (Ok count, buf, r')
         | (Err e, r') \<Rightarrow> (Err e, buf, r')
         | (Panic, r') \<Rightarrow> (Panic, buf, r'))
      else (Ok count, buf, r))"
  by pat_completeness auto
termination
  by (relation "measure (\<lambda>(r, buf, maxn, count). unat maxn - unat count)")
     (auto simp: unat_inc word_less_nat_alt)

declare pop_batch_loop.simps [simp del]

definition pop_batch :: "'a ring \<Rightarrow> 'a list \<Rightarrow> usize \<Rightarrow> usize res \<times> 'a list \<times> 'a ring" where
  "pop_batch r buf maxn = pop_batch_loop r buf maxn 0"

definition ring_len :: "'a ring \<Rightarrow> usize" where
  "ring_len r =
     (if read_idx r \<le> write_idx r then write_idx r - read_idx r
      else capacity r - read_idx r + write_idx r)"

definition ring_is_empty :: "'a ring \<Rightarrow> bool" where
  "ring_is_empty r \<longleftrightarrow> write_idx r = read_idx r"

text \<open>The two rings of the source.\<close>

type_synonym request_ring = "ring_request ring"
type_synonym completion_ring = "ring_completion ring"

definition request_ring_new :: "usize \<Rightarrow> request_ring res" where
  "request_ring_new cap = ring_new zeroed_request cap"

definition completion_ring_new :: "usize \<Rightarrow> completion_ring res" where
  "completion_ring_new cap = ring_new zeroed_completion cap"

definition completion_try_push :: "completion_ring \<Rightarrow> ring_completion \<Rightarrow> bool res \<times> completion_ring" where
  "completion_try_push r c = ring_try_push r c"

definition completion_try_pop :: "completion_ring \<Rightarrow> ring_completion option res \<times> completion_ring" where
  "completion_try_pop r = ring_try_pop r"

section \<open>Invariant and abstraction\<close>

definition ring_ok :: "'a ring \<Rightarrow> bool" where
  "ring_ok r \<longleftrightarrow> is_power_of_two (capacity r) \<and> mask_bits r = capacity r - 1 \<and>
     length (entries r) = unat (capacity r) \<and>
     write_idx r < capacity r \<and> read_idx r < capacity r"

text \<open>The number of queued entries and the queue itself, oldest first.\<close>

definition ring_count :: "'a ring \<Rightarrow> nat" where
  "ring_count r =
     (unat (write_idx r) + unat (capacity r) - unat (read_idx r)) mod unat (capacity r)"

definition ring_list :: "'a ring \<Rightarrow> 'a list" where
  "ring_list r =
     map (\<lambda>i. entries r ! ((unat (read_idx r) + i) mod unat (capacity r))) [0..<ring_count r]"

lemma length_ring_list [simp]: "length (ring_list r) = ring_count r"
  by (simp add: ring_list_def)

lemma power_of_two_cases:
  assumes "is_power_of_two n"
  obtains k where "k < 64" "n = 2 ^ k" "unat n = 2 ^ k"
proof -
  from assms obtain k where k: "k < 64" "n = 2 ^ k"
    by (auto simp: is_power_of_two_def list_ex_iff)
  then have "unat (of_nat (2 ^ k) :: usize) = 2 ^ k"
    by (intro unat_of_nat_len power_strict_increasing) simp_all
  with k have "unat n = 2 ^ k" by simp
  with k show thesis by (rule that)
qed

text \<open>The masked successor is the successor modulo the capacity.\<close>

lemma unat_masked_succ:
  assumes "is_power_of_two n" and "i < n"
  shows "unat ((i + 1) AND (n - 1)) = Suc (unat i) mod unat n"
proof -
  from assms(1) obtain k where k: "k < 64" "n = 2 ^ k" "unat n = 2 ^ k"
    by (rule power_of_two_cases)
  have "unat ((i + 1) AND mask k) = unat (i + 1) mod 2 ^ k"
    by (simp flip: take_bit_eq_mask take_bit_eq_mod unsigned_take_bit_eq)
  then show ?thesis
    using k unat_inc [OF assms(2)] by (simp add: mask_eq_decr_exp)
qed

section \<open>Circular arithmetic\<close>

lemma mod_below_twice: "x < 2 * c \<Longrightarrow> x mod c = (if x < c then x else x - c)" for x c :: nat
  by (simp add: mod_if)

lemma circ_count:
  fixes w r c :: nat
  assumes "w < c" and "r < c"
  shows "(w + c - r) mod c = (if r \<le> w then w - r else w + c - r)"
  using assms mod_below_twice [of "w + c - r" c] by auto

lemma circ_index:
  fixes w r c :: nat
  assumes "w < c" and "r < c"
  shows "(r + (w + c - r) mod c) mod c = w"
  using assms mod_below_twice [of "r + (w + c - r) mod c" c] by (auto simp: circ_count)

lemma circ_index_neq:
  fixes w r c :: nat
  assumes "w < c" and "r < c" and "i < (w + c - r) mod c"
  shows "(r + i) mod c \<noteq> w"
  using assms mod_below_twice [of "r + i" c] by (auto simp: circ_count split: if_splits)

lemma circ_push:
  fixes w r c :: nat
  assumes "w < c" and "r < c" and "Suc w mod c \<noteq> r"
  shows "(Suc w mod c + c - r) mod c = Suc ((w + c - r) mod c)"
proof -
  have "Suc w mod c < c" using assms by simp
  then show ?thesis
    using assms mod_below_twice [of "Suc w" c]
    by (simp add: circ_count) (auto split: if_splits)
qed

lemma circ_full:
  fixes w r c :: nat
  assumes "w < c" and "r < c"
  shows "Suc w mod c = r \<longleftrightarrow> (w + c - r) mod c = c - 1"
  using assms mod_below_twice [of "Suc w" c] by (auto simp: circ_count split: if_splits)

lemma circ_pop:
  fixes w r c :: nat
  assumes "w < c" and "r < c" and "r \<noteq> w"
  shows "(w + c - Suc r mod c) mod c = (w + c - r) mod c - 1" and "0 < (w + c - r) mod c"
proof -
  have "Suc r mod c < c" using assms by simp
  then show "(w + c - Suc r mod c) mod c = (w + c - r) mod c - 1"
    using assms mod_below_twice [of "Suc r" c]
    by (simp add: circ_count) (auto split: if_splits)
  show "0 < (w + c - r) mod c" using assms by (simp add: circ_count)
qed

section \<open>Operations against the queue\<close>

lemma ring_okD:
  assumes "ring_ok r"
  shows "unat (write_idx r) < unat (capacity r)" and "unat (read_idx r) < unat (capacity r)"
    and "length (entries r) = unat (capacity r)"
    and "unat ((write_idx r + 1) AND mask_bits r) = Suc (unat (write_idx r)) mod unat (capacity r)"
    and "unat ((read_idx r + 1) AND mask_bits r) = Suc (unat (read_idx r)) mod unat (capacity r)"
  using assms unat_masked_succ by (simp_all add: ring_ok_def word_less_nat_alt)

lemma ring_count_less: "ring_ok r \<Longrightarrow> ring_count r < unat (capacity r)"
proof -
  assume "ring_ok r"
  then have "0 < unat (capacity r)" using ring_okD(1) by fastforce
  then show ?thesis by (simp add: ring_count_def)
qed

lemma push_full_iff:
  assumes "ring_ok r"
  shows "(write_idx r + 1) AND mask_bits r = read_idx r \<longleftrightarrow> ring_count r = unat (capacity r) - 1"
  unfolding ring_count_def circ_full [OF ring_okD(1,2) [OF assms], symmetric]
  by (simp add: word_unat_eq_iff ring_okD(4) [OF assms])

lemma masked_succ_less:
  assumes "is_power_of_two n" and "i < n"
  shows "(i + 1) AND (n - 1) < n"
  using assms by (simp add: word_less_nat_alt unat_masked_succ)

lemma ring_push_ok: "ring_ok r \<Longrightarrow> ring_ok (snd (ring_try_push r x))"
  by (auto simp: ring_try_push_def ring_ok_def Let_def masked_succ_less)

lemma ring_pop_ok: "ring_ok r \<Longrightarrow> ring_ok (snd (ring_try_pop r))"
  by (auto simp: ring_try_pop_def ring_ok_def masked_succ_less)

lemma ring_push_full:
  assumes "ring_ok r" and "ring_count r = unat (capacity r) - 1"
  shows "ring_try_push r x = (Ok False, r)"
  using assms push_full_iff [OF assms(1)] by (simp add: ring_try_push_def)

lemma ring_push_space:
  assumes ok: "ring_ok r" and space: "ring_count r < unat (capacity r) - 1"
  obtains r' where "ring_try_push r x = (Ok True, r')" "ring_list r' = ring_list r @ [x]"
    "capacity r' = capacity r"
proof
  let ?r' = "r\<lparr>entries := (entries r)[unat (write_idx r) := x],
               write_idx := (write_idx r + 1) AND mask_bits r\<rparr>"
  note d = ring_okD [OF ok]
  from space have neq: "(write_idx r + 1) AND mask_bits r \<noteq> read_idx r"
    by (simp add: push_full_iff [OF ok])
  then show "ring_try_push r x = (Ok True, ?r')"
    using d by (simp add: ring_try_push_def)
  from neq have neq': "Suc (unat (write_idx r)) mod unat (capacity r) \<noteq> unat (read_idx r)"
    by (simp add: word_unat_eq_iff d)
  have count: "ring_count ?r' = Suc (ring_count r)"
    using circ_push [OF d(1,2) neq'] by (simp add: ring_count_def d)
  have old: "entries ?r' ! ((unat (read_idx r) + i) mod unat (capacity r))
      = entries r ! ((unat (read_idx r) + i) mod unat (capacity r))" if "i < ring_count r" for i
    using circ_index_neq [OF d(1,2) that [unfolded ring_count_def]]
    by (simp add: nth_list_update_neq not_sym)
  have new: "entries ?r' ! ((unat (read_idx r) + ring_count r) mod unat (capacity r)) = x"
    using circ_index [OF d(1,2)] d by (simp add: ring_count_def)
  show "ring_list ?r' = ring_list r @ [x]"
    unfolding ring_list_def count using old new by simp
  show "capacity ?r' = capacity r" by simp
qed

lemma ring_count_0_iff:
  assumes "ring_ok r"
  shows "ring_count r = 0 \<longleftrightarrow> read_idx r = write_idx r"
proof
  assume "ring_count r = 0"
  then show "read_idx r = write_idx r"
    using circ_pop(2) [OF ring_okD(1,2) [OF assms]]
    by (auto simp: ring_count_def word_unat_eq_iff)
qed (use ring_okD(2) [OF assms] in \<open>simp add: ring_count_def\<close>)

lemma ring_pop_empty: "ring_ok r \<Longrightarrow> ring_count r = 0 \<Longrightarrow> ring_try_pop r = (Ok None, r)"
  by (simp add: ring_count_0_iff ring_try_pop_def)

lemma ring_pop_some:
  assumes ok: "ring_ok r" and some: "0 < ring_count r"
  obtains r' where "ring_try_pop r = (Ok (Some (hd (ring_list r))), r')"
    "ring_list r' = tl (ring_list r)" "capacity r' = capacity r"
proof
  let ?r' = "r\<lparr>read_idx := (read_idx r + 1) AND mask_bits r\<rparr>"
  note d = ring_okD [OF ok]
  have neq: "read_idx r \<noteq> write_idx r"
    using some ring_count_0_iff [OF ok] by simp
  then have neq': "unat (read_idx r) \<noteq> unat (write_idx r)" by (simp add: word_unat_eq_iff)
  have "hd (ring_list r) = entries r ! unat (read_idx r)"
    using some d by (simp add: ring_list_def hd_map upt_conv_Cons)
  with neq d show "ring_try_pop r = (Ok (Some (hd (ring_list r))), ?r')"
    by (simp add: ring_try_pop_def)
  have count: "ring_count ?r' = ring_count r - 1"
    using circ_pop(1) [OF d(1,2) neq'] by (simp add: ring_count_def d)
  show "ring_list ?r' = tl (ring_list r)"
  proof (rule nth_equalityI)
    show "length (ring_list ?r') = length (tl (ring_list r))" by (simp add: count)
    fix i
    assume "i < length (ring_list ?r')"
    then have i: "Suc i < ring_count r" by (simp add: count)
    then have "i < ring_count r - Suc 0" by simp
    then have "ring_list ?r' ! i = entries r ! ((Suc (unat (read_idx r)) mod unat (capacity r) + i)
        mod unat (capacity r))"
      by (simp add: ring_list_def count d)
    also have "\<dots> = ring_list r ! Suc i"
      using i by (simp add: ring_list_def mod_simps)
    finally show "ring_list ?r' ! i = tl (ring_list r) ! i"
      using i by (simp add: nth_tl)
  qed
  show "capacity ?r' = capacity r" by simp
qed

lemma ring_len_count: "ring_ok r \<Longrightarrow> unat (ring_len r) = ring_count r"
proof -
  assume ok: "ring_ok r"
  note d = ring_okD [OF ok]
  show ?thesis
  proof (cases "read_idx r \<le> write_idx r")
    case True
    then show ?thesis
      using d by (simp add: ring_len_def ring_count_def circ_count unat_sub word_le_nat_alt)
  next
    case False
    then have less: "unat (write_idx r) < unat (read_idx r)" by (simp add: word_le_nat_alt)
    have "read_idx r \<le> capacity r" using ok by (simp add: ring_ok_def order.strict_implies_order)
    then have s: "unat (capacity r - read_idx r) = unat (capacity r) - unat (read_idx r)"
      by (rule unat_sub)
    moreover have "unat (capacity r - read_idx r + write_idx r)
        = unat (capacity r - read_idx r) + unat (write_idx r)"
      using less d unsigned_less [of "capacity r", where ?'a = nat]
      by (intro unat_plus_simple [THEN iffD1])
         (simp add: s word_le_nat_alt unat_word_ariths)
    ultimately show ?thesis
      using False d less by (simp add: ring_len_def ring_count_def circ_count)
  qed
qed

section \<open>The contract of a bounded queue\<close>

text \<open>
  What the two sides of the ring rely on: pushes are refused exactly when the queue holds
  \<open>bound\<close> entries, entries come out in the order they went in, and no operation panics.
\<close>

datatype 'a queue_op = Push 'a | Pop

datatype 'a queue_result = Pushed bool | Popped "'a option" | Crashed

fun queue_run ::
  "('q \<Rightarrow> 'a \<Rightarrow> bool res \<times> 'q) \<Rightarrow> ('q \<Rightarrow> 'a option res \<times> 'q) \<Rightarrow> 'a queue_op list \<Rightarrow> 'q
   \<Rightarrow> 'a queue_result list" where
  "queue_run push pop [] q = []"
| "queue_run push pop (Push x # ops) q =
     (case push q x of
        (Ok b, q') \<Rightarrow> Pushed b # queue_run push pop ops q'
      | (_, q') \<Rightarrow> [Crashed])"
| "queue_run push pop (Pop # ops) q =
     (case pop q of
        (Ok y, q') \<Rightarrow> Popped y # queue_run push pop ops q'
      | (_, q') \<Rightarrow> [Crashed])"

text \<open>The abstract bounded FIFO queue.\<close>

fun fifo_run :: "nat \<Rightarrow> 'a queue_op list \<Rightarrow> 'a list \<Rightarrow> 'a queue_result list" where
  "fifo_run n [] xs = []"
| "fifo_run n (Push x # ops) xs =
     (if length xs < n then Pushed True # fifo_run n ops (xs @ [x])
      else Pushed False # fifo_run n ops xs)"
| "fifo_run n (Pop # ops) [] = Popped None # fifo_run n ops []"
| "fifo_run n (Pop # ops) (x # xs) = Popped (Some x) # fifo_run n ops xs"

locale bounded_queue =
  fixes push :: "'q \<Rightarrow> 'a \<Rightarrow> bool res \<times> 'q"
    and pop :: "'q \<Rightarrow> 'a option res \<times> 'q"
    and queue :: "'q \<Rightarrow> 'a list"
    and bound :: "'q \<Rightarrow> nat"
    and invar :: "'q \<Rightarrow> bool"
  assumes queue_bound: "invar q \<Longrightarrow> length (queue q) \<le> bound q"
    and push_full: "invar q \<Longrightarrow> length (queue q) = bound q \<Longrightarrow> push q x = (Ok False, q)"
    and push_space: "invar q \<Longrightarrow> length (queue q) < bound q \<Longrightarrow>
      \<exists>q'. push q x = (Ok True, q') \<and> queue q' = queue q @ [x] \<and> bound q' = bound q \<and> invar q'"
    and pop_empty: "invar q \<Longrightarrow> queue q = [] \<Longrightarrow> pop q = (Ok None, q)"
    and pop_some: "invar q \<Longrightarrow> queue q = x # xs \<Longrightarrow>
      \<exists>q'. pop q = (Ok (Some x), q') \<and> queue q' = xs \<and> bound q' = bound q \<and> invar q'"
begin

lemma run_refines_fifo:
  "invar q \<Longrightarrow> queue_run push pop ops q = fifo_run (bound q) ops (queue q)"
proof (induction ops arbitrary: q)
  case (Cons c ops)
  show ?case
  proof (cases c)
    case (Push x)
    show ?thesis
    proof (cases "length (queue q) < bound q")
      case True
      then show ?thesis
        using push_space [OF Cons.prems True, of x] Cons.IH Push by auto
    next
      case False
      then have "length (queue q) = bound q" using queue_bound [OF Cons.prems] by simp
      then show ?thesis
        using push_full [OF Cons.prems] Cons Push by simp
    qed
  next
    case Pop
    show ?thesis
    proof (cases "queue q")
      case Nil
      then show ?thesis using pop_empty [OF Cons.prems] Cons Pop by simp
    next
      case (Cons y ys)
      then show ?thesis using pop_some [OF Cons.prems Cons] Cons.IH Pop by auto
    qed
  qed
qed simp

end

interpretation rq: bounded_queue ring_try_push ring_try_pop ring_list
  "\<lambda>r. unat (capacity r) - 1" ring_ok
proof (unfold_locales, goal_cases)
  case (1 r)
  then show ?case using ring_count_less by fastforce
next
  case (2 r x)
  then show ?case by (simp add: ring_push_full)
next
  case (3 r x)
  then show ?case
    using ring_push_ok [of r x] by (auto elim!: ring_push_space [of r x])
next
  case (4 r)
  then have "ring_count r = 0" by (metis length_ring_list list.size(3))
  with 4 show ?case by (simp add: ring_pop_empty)
next
  case (5 r x xs)
  then have "0 < ring_count r" by (metis length_ring_list length_greater_0_conv list.discI)
  with 5 show ?case
    using ring_pop_ok [of r] by (auto elim!: ring_pop_some [of r])
qed

lemma ring_new_ok: "ring_new z cap = Ok r \<Longrightarrow> ring_ok r \<and> ring_list r = [] \<and> capacity r = cap"
proof -
  assume new: "ring_new z cap = Ok r"
  then have pow: "is_power_of_two cap" by (auto simp: ring_new_def split: if_splits)
  then obtain k where "unat cap = 2 ^ k" by (rule power_of_two_cases)
  then have "0 < cap" by (simp add: word_less_nat_alt)
  with new pow show ?thesis
    by (auto simp: ring_new_def ring_ok_def ring_list_def ring_count_def)
qed

lemma pop_batch_loop_spec:
  assumes "ring_ok r" and "count \<le> maxn"
  shows "\<exists>n r'. pop_batch_loop r buf maxn count
           = (Ok n, buf @ take (unat maxn - unat count) (ring_list r), r') \<and>
         unat n = unat count + min (unat maxn - unat count) (ring_count r) \<and>
         ring_list r' = drop (unat maxn - unat count) (ring_list r) \<and> ring_ok r'"
  using assms
proof (induction r buf maxn count rule: pop_batch_loop.induct)
  case (1 r buf maxn count)
  show ?case
  proof (cases "count < maxn")
    case False
    with 1 show ?thesis by (simp add: pop_batch_loop.simps)
  next
    case True
    then have c: "unat (count + 1) = Suc (unat count)" "unat count < unat maxn"
      by (simp_all add: unat_inc word_less_nat_alt)
    show ?thesis
    proof (cases "ring_list r")
      case Nil
      then have "ring_count r = 0" by (metis length_ring_list list.size(3))
      with Nil True 1 show ?thesis
        by (simp add: pop_batch_loop.simps rq.pop_empty)
    next
      case (Cons x xs)
      then obtain r' where r': "ring_try_pop r = (Ok (Some x), r')" "ring_list r' = xs" "ring_ok r'"
        using rq.pop_some [OF 1(2) Cons] by blast
      have cnt: "ring_count r = Suc (ring_count r')" by (metis Cons length_Cons length_ring_list r'(2))
      have "count + 1 \<le> maxn" using c by (simp add: word_le_nat_alt)
      from 1(1) [OF True r'(1) [symmetric] refl refl r'(3) this]
      obtain n r'' where ih: "pop_batch_loop r' (buf @ [x]) maxn (count + 1) =
          (Ok n, (buf @ [x]) @ take (unat maxn - unat (count + 1)) (ring_list r'), r'')"
        "unat n = unat (count + 1) + min (unat maxn - unat (count + 1)) (ring_count r')"
        "ring_list r'' = drop (unat maxn - unat (count + 1)) (ring_list r')" "ring_ok r''"
        by blast
      obtain m where m: "unat maxn = Suc (unat count + m)"
        using less_imp_Suc_add [OF c(2)] by blast
      show ?thesis
        using True r' ih c cnt Cons
        by (simp add: pop_batch_loop.simps [of r] m)
    qed
  qed
qed


section \<open>Properties\<close>

text \<open>
  C6: every sequence of pushes and pops on a freshly created ring gives the answers of a
  first-in first-out queue that holds one entry less than the ring's capacity: a push is
  refused exactly when the queue is full, a pop returns the oldest entry, nothing panics.
\<close>

theorem ring_refines_fifo:
  assumes "ring_new z cap = Ok r"
  shows "queue_run ring_try_push ring_try_pop ops r = fifo_run (unat cap - 1) ops []"
  using ring_new_ok [OF assms] rq.run_refines_fifo [of r ops] by simp

theorem ring_refines_fifo_witness:
  "queue_run ring_try_push ring_try_pop [Push 7, Push 8, Pop, Push 9, Pop, Pop, Pop]
     \<lparr>entries = replicate 2 0, write_idx = 0, read_idx = 0, capacity = 2, mask_bits = 1\<rparr>
   = [Pushed True, Pushed False, Popped (Some (7 :: nat)), Pushed True, Popped (Some 9),
      Popped None, Popped None]"
proof -
  have "ring_new (0 :: nat) 2 =
      Ok \<lparr>entries = replicate 2 0, write_idx = 0, read_idx = 0, capacity = 2, mask_bits = 1\<rparr>"
    by (simp add: ring_new_def is_power_of_two_def upt_rec)
  show ?thesis
    by (subst ring_refines_fifo [OF \<open>ring_new 0 2 = _\<close>]) simp
qed

text \<open>
  \<^verbatim>\<open>pop_batch\<close> moves the oldest entries, at most \<^verbatim>\<open>max\<close> of them, from the ring to the
  end of the buffer in their order, leaves the others queued, and returns how many it moved.
\<close>

theorem pop_batch_spec:
  assumes "ring_ok r"
  shows "\<exists>n r'. pop_batch r buf maxn = (Ok n, buf @ take (unat maxn) (ring_list r), r') \<and>
           unat n = min (unat maxn) (length (ring_list r)) \<and>
           ring_list r' = drop (unat maxn) (ring_list r) \<and> ring_ok r'"
  using pop_batch_loop_spec [OF assms, of 0 maxn buf] by (simp add: pop_batch_def)

theorem pop_batch_spec_witness:
  "ring_ok \<lparr>entries = [1 :: int, 2, 3, 4], write_idx = 1, read_idx = 2, capacity = 4, mask_bits = 3\<rparr> \<and>
   (\<exists>n r'. pop_batch \<lparr>entries = [1 :: int, 2, 3, 4], write_idx = 1, read_idx = 2, capacity = 4, mask_bits = 3\<rparr> [] 2
      = (Ok n, [3, 4], r') \<and> unat n = Suc (Suc 0) \<and> ring_list r' = [1])"
proof -
  let ?r = "\<lparr>entries = [1 :: int, 2, 3, 4], write_idx = 1, read_idx = 2, capacity = 4, mask_bits = 3\<rparr>"
  have ok: "ring_ok ?r"
    by (simp add: ring_ok_def is_power_of_two_def upt_rec)
  moreover have "ring_list ?r = [3, 4, 1]"
    by (simp add: ring_list_def ring_count_def upt_rec)
  ultimately show ?thesis
    using pop_batch_spec [OF ok, of "[]" 2] by auto
qed

text \<open>
  \<^verbatim>\<open>len\<close> returns the number of queued entries on both sides of the wrap-around, it is at
  most the capacity minus one, and \<^verbatim>\<open>is_empty\<close> holds exactly when it is zero.
\<close>

theorem ring_len_spec:
  assumes "ring_ok r"
  shows "unat (ring_len r) = length (ring_list r) \<and> ring_len r < capacity r \<and>
         (ring_is_empty r \<longleftrightarrow> ring_list r = [])"
proof -
  have "ring_is_empty r \<longleftrightarrow> ring_count r = 0"
    by (auto simp: ring_is_empty_def ring_count_0_iff [OF assms])
  then have "ring_is_empty r \<longleftrightarrow> ring_list r = []"
    by (metis length_0_conv length_ring_list)
  then show ?thesis
    using ring_len_count [OF assms] ring_count_less [OF assms] by (simp add: word_less_nat_alt)
qed

theorem ring_len_spec_witness:
  "ring_ok \<lparr>entries = [1 :: nat, 2], write_idx = 0, read_idx = 1, capacity = 2, mask_bits = 1\<rparr> \<and>
   unat (ring_len \<lparr>entries = [1 :: nat, 2], write_idx = 0, read_idx = 1, capacity = 2, mask_bits = 1\<rparr>)
     = length (ring_list \<lparr>entries = [1 :: nat, 2], write_idx = 0, read_idx = 1, capacity = 2, mask_bits = 1\<rparr>)"
proof -
  have "ring_ok \<lparr>entries = [1 :: nat, 2], write_idx = 0, read_idx = 1, capacity = 2, mask_bits = 1\<rparr>"
    by (simp add: ring_ok_def is_power_of_two_def upt_rec)
  with ring_len_spec [OF this] show ?thesis by blast
qed

end
