(* ===== verification/Kmod.thy ===== *)
theory Kmod
  imports Ring
begin

unbundle bit_operations_syntax

text \<open>
  The kernel module, \<^verbatim>\<open>duvm-kmod/include/duvm_kmod.h\<close>, \<^verbatim>\<open>duvm-kmod/src/ring.c\<close> and
  \<^verbatim>\<open>duvm-kmod/src/main.c\<close>: the shared ring, the staging slots, the block request handler, the
  completion harvester, the timeout handler and the control device.

  The shared region is modelled by its parts: the header, the two entry arrays and the staging
  bytes. An access outside a part is the value \<open>None\<close>. \<^verbatim>\<open>struct duvm_request\<close> and
  \<^verbatim>\<open>struct duvm_completion\<close> have the fields of the ring entries of \<^verbatim>\<open>protocol.rs\<close>, so the
  records of that theory are reused. What the module asks of the kernel is visible in its results:
  the calls of \<^verbatim>\<open>blk_mq_end_request\<close> are events, the tag table is a field of the device, and
  which allocations succeed is an argument.
\<close>

section \<open>Data\<close>

definition DUVM_SECTOR_SIZE :: nat where
  "DUVM_SECTOR_SIZE = 512"

definition DUVM_PAGE_SECTORS :: u64 where
  "DUVM_PAGE_SECTORS = 8"

definition DUVM_OP_STORE :: u8 where
  "DUVM_OP_STORE = 1"

definition DUVM_OP_LOAD :: u8 where
  "DUVM_OP_LOAD = 2"

record duvm_cmd =
  cmd_seq :: u32
  cmd_staging_slot :: u32
  cmd_is_read :: bool

record duvm_ring_header =
  req_write_idx :: u32
  req_read_idx :: u32
  comp_write_idx :: u32
  comp_read_idx :: u32
  hdr_capacity :: u32
  hdr_version :: u32
  hdr_staging_pages :: u32

record duvm_ring =
  dr_header :: duvm_ring_header
  dr_requests :: "ring_request list"
  dr_completions :: "ring_completion list"
  dr_staging :: "u8 list"
  dr_staging_pages :: u64
  dr_nr_ring_pages :: u32
  dr_ring_size :: u64
  dr_seq_counter :: u32
  dr_daemon_connected :: bool
  dr_staging_bitmap :: "bool list"

text \<open>
  A block request: its tag, direction, first sector and segments. A segment is the offset in its
  page and the bytes there.
\<close>

record bvec =
  bv_offset :: nat
  bv_data :: "u8 list"

record blk_rq =
  br_tag :: nat
  br_write :: bool
  br_sector :: u64
  br_segments :: "bvec list"

datatype errno = EAGAIN | ENODEV | ENOMEM | EBUSY | EINVAL | ETIMEDOUT

text \<open>The pointer \<^verbatim>\<open>comp_thread\<close>; \<^verbatim>\<open>kthread_run\<close> leaves an error pointer when it fails.\<close>

datatype comp_thread = NoThread | ErrThread errno | Thread

record duvm_device =
  dd_ring :: duvm_ring
  dd_queue_depth :: u32
  dd_rqs :: "nat \<rightharpoonup> blk_rq" \<comment> \<open>the tag table, read by \<^verbatim>\<open>blk_mq_tag_to_rq\<close>\<close>
  dd_pdu :: "nat \<Rightarrow> duvm_cmd" \<comment> \<open>the command data of each tag\<close>
  dd_page_store :: "u64 \<rightharpoonup> page"
  dd_comp_thread :: comp_thread

datatype blk_status = BLK_STS_OK | BLK_STS_IOERR | BLK_STS_RESOURCE

datatype blk_event = EndRequest nat blk_status "bvec list"

section \<open>Memory\<close>

definition mem_write :: "'a list \<Rightarrow> nat \<Rightarrow> 'a list \<Rightarrow> 'a list option" where
  "mem_write mem p bs =
     (if p + length bs \<le> length mem then Some (take p mem @ bs @ drop (p + length bs) mem) else None)"

definition mem_read :: "'a list \<Rightarrow> nat \<Rightarrow> nat \<Rightarrow> 'a list option" where
  "mem_read mem p n = (if p + n \<le> length mem then Some (take n (drop p mem)) else None)"

section \<open>The ring\<close>

text \<open>\<^verbatim>\<open>is_power_of_2\<close> and \<^verbatim>\<open>PAGE_ALIGN\<close>.\<close>

definition is_power_of_2 :: "u32 \<Rightarrow> bool" where
  "is_power_of_2 n \<longleftrightarrow> list_ex (\<lambda>k. n = 2 ^ k) [0..<32]"

definition PAGE_ALIGN :: "u64 \<Rightarrow> u64" where
  "PAGE_ALIGN n = (n + 4095) AND NOT 4095"

text \<open>The sizes of the four parts and their sum.\<close>

definition ring_sizes :: "u32 \<Rightarrow> u64 \<Rightarrow> u64 \<times> u64 \<times> u64 \<times> u64 \<times> u64" where
  "ring_sizes cap staging_pg =
     (let header_sz = 4096;
          req_sz = PAGE_ALIGN (ucast cap * 64);
          comp_sz = PAGE_ALIGN (ucast cap * 64);
          staging_sz = staging_pg * 4096
      in (header_sz, req_sz, comp_sz, staging_sz, header_sz + req_sz + comp_sz + staging_sz))"

datatype alloc_site = AllocPageArray | AllocRingPage nat | AllocVmap | AllocBitmap

text \<open>The loop at \<^verbatim>\<open>err_free_pages\<close>; the list holds the indices of the pages not yet freed.\<close>

fun free_ring_pages :: "nat \<Rightarrow> nat list \<Rightarrow> nat list" where
  "free_ring_pages 0 held = held"
| "free_ring_pages (Suc i) held = free_ring_pages i (remove1 i held)"

text \<open>
  The result of \<^verbatim>\<open>duvm_ring_init\<close>: the error or the ring, and the indices of the ring pages that
  stay allocated. \<open>ok\<close> says which allocations succeed.
\<close>

definition duvm_ring_init ::
  "(alloc_site \<Rightarrow> bool) \<Rightarrow> u32 \<Rightarrow> u64 \<Rightarrow> (errno + duvm_ring) \<times> nat list" where
  "duvm_ring_init ok cap staging_pg =
     (case ring_sizes cap staging_pg of (header_sz, req_sz, comp_sz, staging_sz, total_sz) \<Rightarrow>
      let total_pages = (ucast (total_sz div 4096) :: u32) in
      if \<not> ok AllocPageArray then (Inl ENOMEM, [])
      else
        let i = length (takeWhile (\<lambda>j. ok (AllocRingPage j)) [0..<unat total_pages]);
            pages = [0..<i]
        in if i < unat total_pages then (Inl ENOMEM, free_ring_pages i pages)
           else if \<not> ok AllocVmap then (Inl ENOMEM, free_ring_pages i pages)
           else if \<not> ok AllocBitmap then (Inl ENOMEM, free_ring_pages i pages)
           else
             (Inr \<lparr>dr_header = \<lparr>req_write_idx = 0, req_read_idx = 0, comp_write_idx = 0,
                     comp_read_idx = 0, hdr_capacity = cap, hdr_version = 2,
                     hdr_staging_pages = ucast staging_pg\<rparr>,
                   dr_requests = replicate (unat cap) zeroed_request,
                   dr_completions = replicate (unat cap) zeroed_completion,
                   dr_staging = replicate (unat staging_sz) 0,
                   dr_staging_pages = staging_pg,
                   dr_nr_ring_pages = total_pages,
                   dr_ring_size = total_sz,
                   dr_seq_counter = 0,
                   dr_daemon_connected = False,
                   dr_staging_bitmap = replicate (unat staging_pg) False\<rparr>, pages))"

definition duvm_ring_submit :: "duvm_ring \<Rightarrow> ring_request \<Rightarrow> ((errno + unit) \<times> duvm_ring) option" where
  "duvm_ring_submit r req =
     (if \<not> dr_daemon_connected r then Some (Inl ENODEV, r)
      else
        let h = dr_header r;
            mask = hdr_capacity h - 1;
            write_idx = req_write_idx h;
            next_write = (write_idx + 1) AND mask
        in if next_write = req_read_idx h then Some (Inl EAGAIN, r)
           else if unat write_idx < length (dr_requests r) then
             Some (Inr (), r\<lparr>dr_requests := (dr_requests r)[unat write_idx := req],
                             dr_header := h\<lparr>req_write_idx := next_write\<rparr>\<rparr>)
           else None)"

definition duvm_ring_poll_completion ::
  "duvm_ring \<Rightarrow> ((errno + ring_completion) \<times> duvm_ring) option" where
  "duvm_ring_poll_completion r =
     (let h = dr_header r;
          mask = hdr_capacity h - 1;
          cidx = comp_read_idx h
      in if cidx = comp_write_idx h then Some (Inl EAGAIN, r)
         else if unat cidx < length (dr_completions r) then
           Some (Inr (dr_completions r ! unat cidx),
                 r\<lparr>dr_header := h\<lparr>comp_read_idx := (cidx + 1) AND mask\<rparr>\<rparr>)
         else None)"

section \<open>Staging slots\<close>

definition find_first_zero_bit :: "bool list \<Rightarrow> nat \<Rightarrow> nat" where
  "find_first_zero_bit bm n = length (takeWhile (\<lambda>b. b) (take n bm))"

definition duvm_alloc_staging_slot :: "duvm_ring \<Rightarrow> nat option \<times> duvm_ring" where
  "duvm_alloc_staging_slot r =
     (let bit = find_first_zero_bit (dr_staging_bitmap r) (unat (dr_staging_pages r)) in
      if unat (dr_staging_pages r) \<le> bit then (None, r)
      else (Some bit, r\<lparr>dr_staging_bitmap := (dr_staging_bitmap r)[bit := True]\<rparr>))"

definition duvm_free_staging_slot :: "duvm_ring \<Rightarrow> u32 \<Rightarrow> duvm_ring" where
  "duvm_free_staging_slot r slot =
     r\<lparr>dr_staging_bitmap := (dr_staging_bitmap r)[unat slot := False]\<rparr>"

section \<open>Block requests\<close>

text \<open>The two copies of \<^verbatim>\<open>rq_for_each_segment\<close> between the segments and consecutive staging bytes.\<close>

fun copy_in :: "bvec list \<Rightarrow> nat \<Rightarrow> u8 list \<Rightarrow> u8 list option" where
  "copy_in [] p mem = Some mem"
| "copy_in (s # ss) p mem =
     (case mem_write mem p (bv_data s) of
        None \<Rightarrow> None
      | Some mem' \<Rightarrow> copy_in ss (p + length (bv_data s)) mem')"

fun copy_out :: "bvec list \<Rightarrow> nat \<Rightarrow> u8 list \<Rightarrow> bvec list option" where
  "copy_out [] p mem = Some []"
| "copy_out (s # ss) p mem =
     (case mem_read mem p (length (bv_data s)) of
        None \<Rightarrow> None
      | Some bs \<Rightarrow>
          (case copy_out ss (p + length (bv_data s)) mem of
             None \<Rightarrow> None
           | Some ss' \<Rightarrow> Some (s\<lparr>bv_data := bs\<rparr> # ss')))"

text \<open>
  The path of \<^verbatim>\<open>duvm_queue_rq\<close> when the daemon is connected: the copy into the staging slot, the
  ring request, the command data, and the submission with its error handling.
\<close>

definition stage_rq :: "blk_rq \<Rightarrow> nat \<Rightarrow> u8 list \<Rightarrow> u8 list option" where
  "stage_rq rq slot staging =
     (if br_write rq then copy_in (br_segments rq) (slot * PAGE_SIZE) staging else Some staging)"

definition rq_request :: "blk_rq \<Rightarrow> nat \<Rightarrow> ring_request" where
  "rq_request rq slot =
     zeroed_request\<lparr>rq_op := (if br_write rq then DUVM_OP_STORE else DUVM_OP_LOAD),
       rq_offset := br_sector rq div DUVM_PAGE_SECTORS, rq_staging_slot := of_nat slot,
       rq_seq := of_nat (br_tag rq) + 1\<rparr>"

definition rq_cmd :: "blk_rq \<Rightarrow> nat \<Rightarrow> duvm_cmd" where
  "rq_cmd rq slot =
     \<lparr>cmd_seq = rq_seq (rq_request rq slot), cmd_staging_slot = of_nat slot, cmd_is_read = (\<not> br_write rq)\<rparr>"

definition submit_rq ::
  "duvm_device \<Rightarrow> blk_rq \<Rightarrow> nat \<Rightarrow> (blk_status \<times> duvm_device \<times> blk_event list) option" where
  "submit_rq dev rq slot =
     (case duvm_ring_submit (dd_ring dev) (rq_request rq slot) of
        None \<Rightarrow> None
      | Some (Inr u, r) \<Rightarrow> Some (BLK_STS_OK, dev\<lparr>dd_ring := r\<rparr>, [])
      | Some (Inl e, r) \<Rightarrow>
          let dev1 = dev\<lparr>dd_ring := duvm_free_staging_slot r (of_nat slot)\<rparr> in
          if e = EAGAIN then Some (BLK_STS_RESOURCE, dev1, [])
          else Some (BLK_STS_OK, dev1, [EndRequest (br_tag rq) BLK_STS_IOERR (br_segments rq)]))"

definition queue_async ::
  "duvm_device \<Rightarrow> blk_rq \<Rightarrow> (blk_status \<times> duvm_device \<times> blk_event list) option" where
  "queue_async dev rq =
     (case duvm_alloc_staging_slot (dd_ring dev) of
        (None, r) \<Rightarrow> Some (BLK_STS_RESOURCE, dev\<lparr>dd_ring := r\<rparr>, [])
      | (Some slot, r) \<Rightarrow>
          (case stage_rq rq slot (dr_staging r) of
             None \<Rightarrow> None
           | Some staging \<Rightarrow>
               submit_rq (dev\<lparr>dd_ring := r\<lparr>dr_staging := staging\<rparr>,
                              dd_pdu := (dd_pdu dev)(br_tag rq := rq_cmd rq slot)\<rparr>) rq slot))"

text \<open>
  The path without a daemon: the segments go to and come from the page store of the module.
  \<open>alloc\<close> and \<open>xa_ok\<close> say for which page index \<^verbatim>\<open>alloc_page\<close> and \<^verbatim>\<open>xa_store\<close> succeed; the result
  of \<^verbatim>\<open>xa_store\<close> is not looked at. A fresh page is filled with \<open>junk\<close>, since it is not zeroed.
\<close>

fun xa_write ::
  "(u64 \<Rightarrow> bool) \<Rightarrow> (u64 \<Rightarrow> bool) \<Rightarrow> page \<Rightarrow> bvec list \<Rightarrow> u64 \<Rightarrow> (u64 \<rightharpoonup> page)
   \<Rightarrow> (bool \<times> (u64 \<rightharpoonup> page)) option" where
  "xa_write alloc xa_ok junk [] cur st = Some (True, st)"
| "xa_write alloc xa_ok junk (s # ss) cur st =
     (let idx = cur div DUVM_PAGE_SECTORS;
          next = cur + of_nat (length (bv_data s) div DUVM_SECTOR_SIZE) in
      case st idx of
        Some p \<Rightarrow>
          (case mem_write p (bv_offset s mod PAGE_SIZE) (bv_data s) of
             None \<Rightarrow> None
           | Some p' \<Rightarrow> xa_write alloc xa_ok junk ss next (st(idx \<mapsto> p')))
      | None \<Rightarrow>
          if \<not> alloc idx then Some (False, st)
          else
            (case mem_write junk (bv_offset s mod PAGE_SIZE) (bv_data s) of
               None \<Rightarrow> None
             | Some p' \<Rightarrow> xa_write alloc xa_ok junk ss next (if xa_ok idx then st(idx \<mapsto> p') else st)))"

fun xa_read :: "bvec list \<Rightarrow> u64 \<Rightarrow> (u64 \<rightharpoonup> page) \<Rightarrow> bvec list option" where
  "xa_read [] cur st = Some []"
| "xa_read (s # ss) cur st =
     (case (case st (cur div DUVM_PAGE_SECTORS) of
              Some p \<Rightarrow> mem_read p (bv_offset s mod PAGE_SIZE) (length (bv_data s))
            | None \<Rightarrow> Some (replicate (length (bv_data s)) 0)) of
        None \<Rightarrow> None
      | Some bs \<Rightarrow>
          (case xa_read ss (cur + of_nat (length (bv_data s) div DUVM_SECTOR_SIZE)) st of
             None \<Rightarrow> None
           | Some ss' \<Rightarrow> Some (s\<lparr>bv_data := bs\<rparr> # ss')))"

definition queue_sync ::
  "(u64 \<Rightarrow> bool) \<Rightarrow> (u64 \<Rightarrow> bool) \<Rightarrow> page \<Rightarrow> duvm_device \<Rightarrow> blk_rq
   \<Rightarrow> (blk_status \<times> duvm_device \<times> blk_event list) option" where
  "queue_sync alloc xa_ok junk dev rq =
     (if br_write rq then
        (case xa_write alloc xa_ok junk (br_segments rq) (br_sector rq) (dd_page_store dev) of
           None \<Rightarrow> None
         | Some (done, st) \<Rightarrow>
             Some (BLK_STS_OK, dev\<lparr>dd_page_store := st\<rparr>,
               [EndRequest (br_tag rq) (if done then BLK_STS_OK else BLK_STS_RESOURCE) (br_segments rq)]))
      else
        (case xa_read (br_segments rq) (br_sector rq) (dd_page_store dev) of
           None \<Rightarrow> None
         | Some segs \<Rightarrow> Some (BLK_STS_OK, dev, [EndRequest (br_tag rq) BLK_STS_OK segs])))"

definition duvm_queue_rq ::
  "(u64 \<Rightarrow> bool) \<Rightarrow> (u64 \<Rightarrow> bool) \<Rightarrow> page \<Rightarrow> duvm_device \<Rightarrow> blk_rq
   \<Rightarrow> (blk_status \<times> duvm_device \<times> blk_event list) option" where
  "duvm_queue_rq alloc xa_ok junk dev rq =
     (if dr_daemon_connected (dd_ring dev) then queue_async dev rq
      else queue_sync alloc xa_ok junk dev rq)"

section \<open>Completions and timeouts\<close>

text \<open>
  One round of the drain loop of \<^verbatim>\<open>duvm_completion_thread\<close>. The flag says whether there was a
  completion, that is, whether the loop goes on.
\<close>

definition harvest_one :: "duvm_device \<Rightarrow> (bool \<times> duvm_device \<times> blk_event list) option" where
  "harvest_one dev =
     (case duvm_ring_poll_completion (dd_ring dev) of
        None \<Rightarrow> None
      | Some (Inl e, r) \<Rightarrow> Some (False, dev\<lparr>dd_ring := r\<rparr>, [])
      | Some (Inr c, r) \<Rightarrow>
          let tag = sint (rc_seq c - 1); dev1 = dev\<lparr>dd_ring := r\<rparr> in
          if tag < 0 \<or> sint (dd_queue_depth dev) \<le> tag then Some (True, dev1, [])
          else
            (case dd_rqs dev (nat tag) of
               None \<Rightarrow> Some (True, dev1, [])
             | Some rq \<Rightarrow>
                 let cmd = dd_pdu dev (nat tag) in
                 (case (if cmd_is_read cmd \<and> rc_result c = 0 then
                          copy_out (br_segments rq) (unat (cmd_staging_slot cmd) * PAGE_SIZE) (dr_staging r)
                        else Some (br_segments rq)) of
                    None \<Rightarrow> None
                  | Some segs \<Rightarrow>
                      Some (True,
                        dev1\<lparr>dd_ring := duvm_free_staging_slot r (cmd_staging_slot cmd),
                             dd_rqs := (dd_rqs dev)(nat tag \<mapsto> rq\<lparr>br_segments := segs\<rparr>)\<rparr>,
                        [EndRequest (nat tag)
                           (if rc_result c = 0 then BLK_STS_OK else BLK_STS_IOERR) segs]))))"

text \<open>The drain loop; the first argument bounds the number of rounds, and \<open>None\<close> is also its exhaustion.\<close>

fun drain :: "nat \<Rightarrow> duvm_device \<Rightarrow> (duvm_device \<times> blk_event list) option" where
  "drain 0 dev = None"
| "drain (Suc n) dev =
     (case harvest_one dev of
        None \<Rightarrow> None
      | Some (False, dev', evs) \<Rightarrow> Some (dev', evs)
      | Some (True, dev', evs) \<Rightarrow>
          (case drain n dev' of None \<Rightarrow> None | Some (dev'', evs') \<Rightarrow> Some (dev'', evs @ evs')))"

text \<open>The handler frees the slot and answers \<^verbatim>\<open>BLK_EH_DONE\<close>; it does not end the request.\<close>

definition duvm_timeout :: "duvm_device \<Rightarrow> nat \<Rightarrow> duvm_device" where
  "duvm_timeout dev tag =
     dev\<lparr>dd_ring := duvm_free_staging_slot (dd_ring dev) (cmd_staging_slot (dd_pdu dev tag))\<rparr>"

section \<open>The control device\<close>

text \<open>\<open>kthread\<close> is what \<^verbatim>\<open>kthread_run\<close> returns.\<close>

definition duvm_ctl_open :: "comp_thread \<Rightarrow> duvm_device \<Rightarrow> (errno + unit) \<times> duvm_device" where
  "duvm_ctl_open kthread dev =
     (if dr_daemon_connected (dd_ring dev) then (Inl EBUSY, dev)
      else
        let dev1 = dev\<lparr>dd_ring := (dd_ring dev)\<lparr>dr_daemon_connected := True\<rparr>, dd_comp_thread := kthread\<rparr> in
        case kthread of
          ErrThread e \<Rightarrow> (Inl e, dev1\<lparr>dd_ring := (dd_ring dev1)\<lparr>dr_daemon_connected := False\<rparr>\<rparr>)
        | _ \<Rightarrow> (Inr (), dev1))"

text \<open>Stopping the thread if the pointer is set; through an error pointer that is a fault.\<close>

definition stop_comp_thread :: "duvm_device \<Rightarrow> duvm_device option" where
  "stop_comp_thread dev =
     (case dd_comp_thread dev of
        NoThread \<Rightarrow> Some dev
      | ErrThread e \<Rightarrow> None
      | Thread \<Rightarrow> Some (dev\<lparr>dd_comp_thread := NoThread\<rparr>))"

definition duvm_ctl_release :: "duvm_device \<Rightarrow> duvm_device option" where
  "duvm_ctl_release dev =
     stop_comp_thread (dev\<lparr>dd_ring := (dd_ring dev)\<lparr>dr_daemon_connected := False\<rparr>\<rparr>)"

text \<open>
  The result of \<^verbatim>\<open>duvm_ctl_mmap\<close> is the number of ring pages mapped; \<open>insert_ok\<close> says for which
  of them \<^verbatim>\<open>vm_insert_page\<close> succeeds.
\<close>

definition duvm_ctl_mmap :: "(nat \<Rightarrow> bool) \<Rightarrow> duvm_device \<Rightarrow> u64 \<Rightarrow> errno + nat" where
  "duvm_ctl_mmap insert_ok dev sz =
     (if dr_ring_size (dd_ring dev) < sz then Inl EINVAL
      else
        let n = min (unat (dr_nr_ring_pages (dd_ring dev))) ((unat sz + 4095) div 4096)
        in if list_all insert_ok [0..<n] then Inr n else Inl EAGAIN)"

definition duvm_ctl_poll :: "duvm_device \<Rightarrow> bool" where
  "duvm_ctl_poll dev \<longleftrightarrow> req_write_idx (dr_header (dd_ring dev)) \<noteq> req_read_idx (dr_header (dd_ring dev))"

section \<open>The synchronous path\<close>

text \<open>
  The condition \<^verbatim>\<open>duvm_ring_submit_and_wait\<close> waits for: the scan of the completions for its
  sequence number. The bound on the rounds is the length of the ring: a scan that starts inside
  the ring meets the write index within one turn.
\<close>

fun find_completion :: "nat \<Rightarrow> duvm_ring \<Rightarrow> u32 \<Rightarrow> u32 \<Rightarrow> (ring_completion \<times> duvm_ring) option" where
  "find_completion 0 r seq cidx = None"
| "find_completion (Suc n) r seq cidx =
     (let h = dr_header r; mask = hdr_capacity h - 1 in
      if cidx = comp_write_idx h then None
      else if rc_seq (dr_completions r ! unat cidx) = seq then
        Some (dr_completions r ! unat cidx, r\<lparr>dr_header := h\<lparr>comp_read_idx := (cidx + 1) AND mask\<rparr>\<rparr>)
      else find_completion n r seq ((cidx + 1) AND mask))"

text \<open>
  The wait: the list holds what the rest of the system does to the ring before each further
  evaluation of the condition, and its end is the timeout.
\<close>

fun wait_completion :: "(duvm_ring \<Rightarrow> duvm_ring) list \<Rightarrow> duvm_ring \<Rightarrow> u32 \<Rightarrow> ring_completion option \<times> duvm_ring" where
  "wait_completion env r seq =
     (case find_completion (unat (hdr_capacity (dr_header r))) r seq (comp_read_idx (dr_header r)) of
        Some (c, r') \<Rightarrow> (Some c, r')
      | None \<Rightarrow>
          if \<not> dr_daemon_connected r then (None, r)
          else (case env of [] \<Rightarrow> (None, r) | f # fs \<Rightarrow> wait_completion fs (f r) seq))"

definition duvm_ring_submit_and_wait ::
  "(duvm_ring \<Rightarrow> duvm_ring) list \<Rightarrow> duvm_ring \<Rightarrow> ring_request
   \<Rightarrow> ((errno + i32) \<times> duvm_ring) option" where
  "duvm_ring_submit_and_wait env r req =
     (if \<not> dr_daemon_connected r then Some (Inl ENODEV, r)
      else
        let h = dr_header r;
            mask = hdr_capacity h - 1;
            write_idx = req_write_idx h;
            next_write = (write_idx + 1) AND mask
        in if next_write = req_read_idx h then Some (Inl EAGAIN, r)
           else if unat write_idx < length (dr_requests r) then
             (let seq = dr_seq_counter r + 1;
                  r1 = r\<lparr>dr_seq_counter := seq,
                         dr_requests := (dr_requests r)[unat write_idx := req\<lparr>rq_seq := seq\<rparr>],
                         dr_header := h\<lparr>req_write_idx := next_write\<rparr>\<rparr>
              in case wait_completion env r1 seq of
                   (found, r2) \<Rightarrow>
                     if \<not> dr_daemon_connected r2 then Some (Inl ENODEV, r2)
                     else (case found of None \<Rightarrow> Some (Inl ETIMEDOUT, r2)
                           | Some c \<Rightarrow> Some (Inr (rc_result c), r2)))
           else None)"

section \<open>Loading and unloading\<close>

text \<open>
  What \<^verbatim>\<open>duvm_init\<close> registers, in order, and the unwinding at its labels. \<open>ok\<close> says which step
  succeeds; the list holds the resources that stay registered.
\<close>

datatype kresource = BlkMajor | RingMem | TagSet | Disk | DiskAdded | CtlMisc

definition duvm_init :: "u32 \<Rightarrow> (kresource \<Rightarrow> bool) \<Rightarrow> bool \<times> kresource list" where
  "duvm_init ring_entries ok =
     (if \<not> is_power_of_2 ring_entries then (False, [])
      else if \<not> ok BlkMajor then (False, [])
      else
        let err_blkdev = removeAll BlkMajor;
            err_ring = err_blkdev \<circ> removeAll RingMem;
            err_tag_set = err_ring \<circ> removeAll TagSet;
            err_disk = err_tag_set \<circ> removeAll Disk;
            err_del_disk = err_disk \<circ> removeAll DiskAdded
        in if \<not> ok RingMem then (False, err_blkdev [BlkMajor])
           else if \<not> ok TagSet then (False, err_ring [RingMem, BlkMajor])
           else if \<not> ok Disk then (False, err_tag_set [TagSet, RingMem, BlkMajor])
           else if \<not> ok DiskAdded then (False, err_disk [Disk, TagSet, RingMem, BlkMajor])
           else if \<not> ok CtlMisc then (False, err_del_disk [DiskAdded, Disk, TagSet, RingMem, BlkMajor])
           else (True, [CtlMisc, DiskAdded, Disk, TagSet, RingMem, BlkMajor]))"

text \<open>The device \<^verbatim>\<open>duvm_init\<close> sets up once everything is registered, with the ring of \<^verbatim>\<open>duvm_ring_init\<close>.\<close>

definition initial_device :: "u32 \<Rightarrow> duvm_ring \<Rightarrow> duvm_device" where
  "initial_device ring_entries r =
     \<lparr>dd_ring = r, dd_queue_depth = ring_entries, dd_rqs = Map.empty,
      dd_pdu = (\<lambda>_. \<lparr>cmd_seq = 0, cmd_staging_slot = 0, cmd_is_read = False\<rparr>),
      dd_page_store = Map.empty, dd_comp_thread = NoThread\<rparr>"

definition duvm_exit :: "duvm_device \<Rightarrow> kresource list \<Rightarrow> (duvm_device \<times> kresource list) option" where
  "duvm_exit dev held =
     (case stop_comp_thread dev of
        None \<Rightarrow> None
      | Some dev1 \<Rightarrow>
          Some (dev1\<lparr>dd_page_store := Map.empty\<rparr>,
            fold removeAll [CtlMisc, DiskAdded, Disk, TagSet, RingMem, BlkMajor] held))"

end
