(* ===== verification/Kmod_Laws.thy ===== *)
theory Kmod_Laws
  imports Kmod
begin

unbundle bit_operations_syntax

text \<open>
  Laws of the kernel module's parts: the well-formed ring and the two queues it holds, the staging
  slots and their bytes, and what each operation does to them.
\<close>

section \<open>Circular queues\<close>

text \<open>The entries from the read index to the write index of an array of \<open>c\<close> cells.\<close>

definition circ_list :: "'a list \<Rightarrow> nat \<Rightarrow> nat \<Rightarrow> nat \<Rightarrow> 'a list" where
  "circ_list xs r w c = map (\<lambda>i. xs ! ((r + i) mod c)) [0..<(w + c - r) mod c]"

lemma length_circ_list [simp]: "length (circ_list xs r w c) = (w + c - r) mod c"
  by (simp add: circ_list_def)

lemma circ_list_other:
  assumes "w < c" "r < c"
  shows "circ_list (xs[w := x]) r w c = circ_list xs r w c"
proof -
  have "xs[w := x] ! ((r + i) mod c) = xs ! ((r + i) mod c)" if "i < (w + c - r) mod c" for i
    using circ_index_neq [OF assms that] by (metis nth_list_update_neq)
  then show ?thesis by (simp add: circ_list_def)
qed

lemma circ_list_push:
  assumes "w < c" "r < c" "length xs = c" "Suc w mod c \<noteq> r"
  shows "circ_list (xs[w := x]) r (Suc w mod c) c = circ_list xs r w c @ [x]"
proof -
  note circ_list_other [OF assms(1,2), of xs x, unfolded circ_list_def]
  moreover have "xs[w := x] ! ((r + (w + c - r) mod c) mod c) = x"
    using circ_index [OF assms(1,2)] assms(1,3) by simp
  ultimately show ?thesis
    using circ_push [OF assms(1,2,4)] by (simp add: circ_list_def)
qed

lemma circ_list_Nil [simp]: "r < c \<Longrightarrow> circ_list xs r r c = []"
  by (simp add: circ_list_def)

lemma circ_list_pop:
  assumes "w < c" "r < c" "r \<noteq> w"
  shows "circ_list xs r w c = xs ! r # circ_list xs (Suc r mod c) w c"
proof -
  let ?n = "(w + c - r) mod c"
  have n: "(w + c - Suc r mod c) mod c = ?n - 1" "0 < ?n" using circ_pop [OF assms] by simp_all
  have "[0..<?n] = 0 # map Suc [0..<?n - 1]"
    using n(2) by (metis Suc_pred' map_Suc_upt upt_conv_Cons)
  moreover have "(r + Suc i) mod c = (Suc r mod c + i) mod c" for i
    by (simp add: mod_add_left_eq)
  ultimately show ?thesis using assms(2) by (simp add: circ_list_def n(1))
qed

section \<open>The well-formed ring\<close>

definition kring_ok :: "duvm_ring \<Rightarrow> bool" where
  "kring_ok r \<longleftrightarrow> (let h = dr_header r; c = hdr_capacity h in
     is_power_of_2 c \<and> req_write_idx h < c \<and> req_read_idx h < c \<and> comp_write_idx h < c \<and>
     comp_read_idx h < c \<and> length (dr_requests r) = unat c \<and> length (dr_completions r) = unat c \<and>
     length (dr_staging r) = unat (dr_staging_pages r) * PAGE_SIZE \<and>
     length (dr_staging_bitmap r) = unat (dr_staging_pages r) \<and> unat (dr_staging_pages r) < 2 ^ 31)"

definition ring_cap :: "duvm_ring \<Rightarrow> nat" where
  "ring_cap r = unat (hdr_capacity (dr_header r))"

definition req_queue :: "duvm_ring \<Rightarrow> ring_request list" where
  "req_queue r = circ_list (dr_requests r) (unat (req_read_idx (dr_header r)))
     (unat (req_write_idx (dr_header r))) (ring_cap r)"

definition comp_queue :: "duvm_ring \<Rightarrow> ring_completion list" where
  "comp_queue r = circ_list (dr_completions r) (unat (comp_read_idx (dr_header r)))
     (unat (comp_write_idx (dr_header r))) (ring_cap r)"

lemma power_of_2_cases:
  assumes "is_power_of_2 n"
  obtains k where "k < 32" "n = 2 ^ k" "unat n = 2 ^ k"
proof -
  from assms obtain k where k: "k < 32" "n = 2 ^ k"
    by (auto simp: is_power_of_2_def list_ex_iff)
  then have "unat (of_nat (2 ^ k) :: u32) = 2 ^ k"
    by (intro unat_of_nat_len power_strict_increasing) simp_all
  with k have "unat n = 2 ^ k" by simp
  with k show thesis by (rule that)
qed

lemma unat_masked_succ_u32:
  assumes "is_power_of_2 n" and "i < n"
  shows "unat ((i + 1) AND (n - 1)) = Suc (unat i) mod unat n"
proof -
  from assms(1) obtain k where k: "k < 32" "n = 2 ^ k" "unat n = 2 ^ k"
    by (rule power_of_2_cases)
  have "unat ((i + 1) AND mask k) = unat (i + 1) mod 2 ^ k"
    by (simp flip: take_bit_eq_mask take_bit_eq_mod unsigned_take_bit_eq)
  then show ?thesis
    using k unat_inc [OF assms(2)] by (simp add: mask_eq_decr_exp)
qed

lemma masked_succ_less_u32:
  assumes "is_power_of_2 n" and "i < n"
  shows "(i + 1) AND (n - 1) < n"
proof -
  have "0 < unat n" using assms(1) by (rule power_of_2_cases) simp
  then show ?thesis by (simp add: word_less_nat_alt unat_masked_succ_u32 [OF assms])
qed

lemma kring_okD:
  assumes "kring_ok r"
  shows "is_power_of_2 (hdr_capacity (dr_header r))"
    and "req_write_idx (dr_header r) < hdr_capacity (dr_header r)"
    and "req_read_idx (dr_header r) < hdr_capacity (dr_header r)"
    and "comp_write_idx (dr_header r) < hdr_capacity (dr_header r)"
    and "comp_read_idx (dr_header r) < hdr_capacity (dr_header r)"
    and "length (dr_requests r) = ring_cap r" and "length (dr_completions r) = ring_cap r"
    and "length (dr_staging r) = unat (dr_staging_pages r) * PAGE_SIZE"
    and "length (dr_staging_bitmap r) = unat (dr_staging_pages r)"
    and "unat (dr_staging_pages r) < 2 ^ 31"
  using assms by (simp_all add: kring_ok_def Let_def ring_cap_def)

lemma kring_okD_nat:
  assumes "kring_ok r"
  shows "unat (req_write_idx (dr_header r)) < ring_cap r" "unat (req_read_idx (dr_header r)) < ring_cap r"
    "unat (comp_write_idx (dr_header r)) < ring_cap r" "unat (comp_read_idx (dr_header r)) < ring_cap r"
  using kring_okD(2-5) [OF assms] by (simp_all add: ring_cap_def word_less_nat_alt)

section \<open>Submitting and polling\<close>

lemma submit_full_iff:
  assumes "kring_ok r"
  shows "(req_write_idx (dr_header r) + 1) AND (hdr_capacity (dr_header r) - 1) = req_read_idx (dr_header r)
    \<longleftrightarrow> length (req_queue r) = ring_cap r - 1"
  using circ_full [OF kring_okD_nat(1,2) [OF assms]] unat_masked_succ_u32 [OF kring_okD(1,2) [OF assms]]
  by (simp add: req_queue_def word_unat_eq_iff ring_cap_def)

lemma submit_space:
  assumes "kring_ok r" and "dr_daemon_connected r" and "length (req_queue r) < ring_cap r - 1"
  obtains r' where "duvm_ring_submit r q = Some (Inr (), r')" "kring_ok r'"
    "req_queue r' = req_queue r @ [q]" "comp_queue r' = comp_queue r" "ring_cap r' = ring_cap r"
    "r' = r\<lparr>dr_requests := dr_requests r', dr_header := dr_header r'\<rparr>"
proof -
  let ?h = "dr_header r"
  let ?n = "(req_write_idx ?h + 1) AND (hdr_capacity ?h - 1)"
  let ?r = "r\<lparr>dr_requests := (dr_requests r)[unat (req_write_idx ?h) := q], dr_header := ?h\<lparr>req_write_idx := ?n\<rparr>\<rparr>"
  note ok = kring_okD [OF assms(1)] and ok' = kring_okD_nat [OF assms(1)]
  have nf: "?n \<noteq> req_read_idx ?h" using submit_full_iff [OF assms(1)] assms(3) by simp
  have un: "unat ?n = Suc (unat (req_write_idx ?h)) mod ring_cap r"
    using unat_masked_succ_u32 [OF ok(1,2)] by (simp add: ring_cap_def)
  have s: "duvm_ring_submit r q = Some (Inr (), ?r)"
    using assms(2) nf ok(6) ok'(1) by (simp add: duvm_ring_submit_def Let_def)
  have k: "kring_ok ?r"
    using assms(1) masked_succ_less_u32 [OF ok(1,2)] by (simp add: kring_ok_def Let_def)
  have "Suc (unat (req_write_idx ?h)) mod ring_cap r \<noteq> unat (req_read_idx ?h)"
    using nf un by (simp add: word_unat_eq_iff)
  from circ_list_push [OF ok'(1,2) ok(6) this] have "req_queue ?r = req_queue r @ [q]"
    by (simp add: req_queue_def ring_cap_def un [unfolded ring_cap_def])
  then show thesis using s k by (intro that [of ?r]) (simp_all add: comp_queue_def ring_cap_def)
qed

lemma submit_full:
  assumes "kring_ok r" and "dr_daemon_connected r" and "length (req_queue r) = ring_cap r - 1"
  shows "duvm_ring_submit r q = Some (Inl EAGAIN, r)"
  using submit_full_iff [OF assms(1)] assms(2,3) by (simp add: duvm_ring_submit_def Let_def)

lemma poll_empty:
  assumes "kring_ok r" and "comp_queue r = []"
  shows "duvm_ring_poll_completion r = Some (Inl EAGAIN, r)"
proof -
  have "comp_read_idx (dr_header r) = comp_write_idx (dr_header r)"
    using circ_list_pop [OF kring_okD_nat(3,4) [OF assms(1)]] assms(2)
    by (metis comp_queue_def list.distinct(1) word_unat_eq_iff)
  then show ?thesis by (simp add: duvm_ring_poll_completion_def Let_def)
qed

lemma poll_some:
  assumes "kring_ok r" and "comp_queue r = c # cs"
  obtains r' where "duvm_ring_poll_completion r = Some (Inr c, r')" "kring_ok r'"
    "comp_queue r' = cs" "req_queue r' = req_queue r" "ring_cap r' = ring_cap r"
    "r' = r\<lparr>dr_header := dr_header r'\<rparr>"
proof -
  let ?h = "dr_header r"
  let ?n = "(comp_read_idx ?h + 1) AND (hdr_capacity ?h - 1)"
  let ?r = "r\<lparr>dr_header := ?h\<lparr>comp_read_idx := ?n\<rparr>\<rparr>"
  note ok = kring_okD [OF assms(1)] and ok' = kring_okD_nat [OF assms(1)]
  have ne: "unat (comp_read_idx ?h) \<noteq> unat (comp_write_idx ?h)"
    using assms(2) ok' by (auto simp: comp_queue_def)
  have un: "unat ?n = Suc (unat (comp_read_idx ?h)) mod ring_cap r"
    using unat_masked_succ_u32 [OF ok(1,5)] by (simp add: ring_cap_def)
  from circ_list_pop [OF ok'(3,4) ne, of "dr_completions r"] assms(2)
  have c: "dr_completions r ! unat (comp_read_idx ?h) = c" "comp_queue ?r = cs"
    by (simp_all add: comp_queue_def ring_cap_def un [unfolded ring_cap_def])
  have "duvm_ring_poll_completion r = Some (Inr c, ?r)"
    using ne ok(7) ok'(4) c(1) by (auto simp: duvm_ring_poll_completion_def Let_def)
  moreover have "kring_ok ?r"
    using assms(1) masked_succ_less_u32 [OF ok(1,5)] by (simp add: kring_ok_def Let_def)
  ultimately show thesis using c(2) by (intro that [of ?r]) (simp_all add: req_queue_def ring_cap_def)
qed

section \<open>Staging memory\<close>

definition slot_bytes :: "'a list \<Rightarrow> nat \<Rightarrow> 'a list" where
  "slot_bytes mem s = take PAGE_SIZE (drop (s * PAGE_SIZE) mem)"

definition seg_bytes :: "bvec list \<Rightarrow> u8 list" where
  "seg_bytes segs = concat (map bv_data segs)"

lemma seg_bytes_simps [simp]: "seg_bytes [] = []" "seg_bytes (s # ss) = bv_data s @ seg_bytes ss"
  by (simp_all add: seg_bytes_def)

lemma mem_read_slot:
  "Suc s * PAGE_SIZE \<le> length mem \<Longrightarrow> mem_read mem (s * PAGE_SIZE) PAGE_SIZE = Some (slot_bytes mem s)"
  by (simp add: mem_read_def slot_bytes_def)

lemma slot_apart:
  "s \<noteq> t \<Longrightarrow> Suc s * PAGE_SIZE \<le> t * PAGE_SIZE \<or> Suc t * PAGE_SIZE \<le> s * PAGE_SIZE" for s t :: nat
  by (metis mult_le_mono1 not_less_eq_eq linorder_neqE_nat Suc_leI)

lemma mem_write_slot:
  assumes "Suc s * PAGE_SIZE \<le> length mem" and "length d = PAGE_SIZE"
  obtains mem' where "mem_write mem (s * PAGE_SIZE) d = Some mem'" "length mem' = length mem"
    "slot_bytes mem' s = d" "\<And>t. t \<noteq> s \<Longrightarrow> slot_bytes mem' t = slot_bytes mem t"
proof -
  let ?p = "s * PAGE_SIZE"
  let ?m = "take ?p mem @ d @ drop (?p + PAGE_SIZE) mem"
  have le: "?p + PAGE_SIZE \<le> length mem" using assms(1) by simp
  have "slot_bytes ?m t = slot_bytes mem t" if "t \<noteq> s" for t
    using slot_apart [OF that]
  proof
    assume "Suc t * PAGE_SIZE \<le> ?p"
    then have "?p = t * PAGE_SIZE + (PAGE_SIZE + (?p - (t * PAGE_SIZE + PAGE_SIZE)))" by simp
    then obtain k where k: "?p = t * PAGE_SIZE + (PAGE_SIZE + k)" by blast
    have "take PAGE_SIZE (drop (t * PAGE_SIZE) (take (t * PAGE_SIZE + (PAGE_SIZE + k)) mem)) =
      take PAGE_SIZE (drop (t * PAGE_SIZE) mem)" by (simp add: drop_take)
    then show ?thesis using le unfolding k slot_bytes_def by simp
  next
    assume "Suc s * PAGE_SIZE \<le> t * PAGE_SIZE"
    then have "t * PAGE_SIZE = (?p + PAGE_SIZE) + (t * PAGE_SIZE - (?p + PAGE_SIZE))" by simp
    then obtain k where k: "t * PAGE_SIZE = ?p + PAGE_SIZE + k" by blast
    then show ?thesis using le assms(2) by (simp add: slot_bytes_def ac_simps)
  qed
  moreover have "slot_bytes ?m s = d" using le assms(2) by (simp add: slot_bytes_def min_def)
  moreover have "mem_write mem ?p d = Some ?m" using le assms(2) by (simp add: mem_write_def)
  moreover have "length ?m = length mem" using le assms(2) by simp
  ultimately show thesis by (intro that [of ?m])
qed

lemma copy_in_write:
  "p + length (seg_bytes segs) \<le> length mem \<Longrightarrow> copy_in segs p mem = mem_write mem p (seg_bytes segs)"
proof (induction segs arbitrary: p mem)
  case (Cons s segs)
  let ?n = "p + length (bv_data s)"
  let ?m = "take p mem @ bv_data s @ drop ?n mem"
  have le: "?n + length (seg_bytes segs) \<le> length ?m" using Cons.prems by simp
  have "copy_in (s # segs) p mem = copy_in segs ?n ?m" using Cons.prems by (simp add: mem_write_def)
  also have "\<dots> = mem_write ?m ?n (seg_bytes segs)" by (rule Cons.IH [OF le])
  finally show ?case using Cons.prems by (simp add: mem_write_def ac_simps)
qed (simp add: mem_write_def)

lemma copy_out_read:
  assumes "p + length (seg_bytes segs) \<le> length mem"
  obtains segs' where "copy_out segs p mem = Some segs'"
    "seg_bytes segs' = take (length (seg_bytes segs)) (drop p mem)"
  using assms
proof (induction segs arbitrary: p thesis)
  case (Cons s segs)
  let ?n = "length (bv_data s)"
  have "p + ?n + length (seg_bytes segs) \<le> length mem" using Cons.prems(2) by simp
  from Cons.IH [OF _ this] obtain segs' where
    "copy_out segs (p + ?n) mem = Some segs'" "seg_bytes segs' = take (length (seg_bytes segs)) (drop (p + ?n) mem)"
    by blast
  with Cons.prems(2) show ?case
    by (intro Cons.prems(1) [of "s\<lparr>bv_data := take ?n (drop p mem)\<rparr> # segs'"])
      (simp_all add: mem_read_def take_add ac_simps)
qed simp

section \<open>Staging slots\<close>

lemma find_first_zero_bit:
  "find_first_zero_bit bm (length bm) < length bm \<Longrightarrow> \<not> bm ! find_first_zero_bit bm (length bm)"
  using nth_length_takeWhile [of "\<lambda>b. b" bm] by (simp add: find_first_zero_bit_def)

lemma find_first_zero_bit_less:
  "i < find_first_zero_bit bm (length bm) \<Longrightarrow> bm ! i"
  using set_takeWhileD [of "bm ! i" "\<lambda>b. b" bm]
  by (simp add: find_first_zero_bit_def) (metis nth_mem takeWhile_nth)

lemma alloc_slot_Some:
  assumes "kring_ok r" and "duvm_alloc_staging_slot r = (Some s, r')"
  shows "s < unat (dr_staging_pages r)" and "\<not> dr_staging_bitmap r ! s"
    and "r' = r\<lparr>dr_staging_bitmap := (dr_staging_bitmap r)[s := True]\<rparr>" and "kring_ok r'"
  using assms(2) find_first_zero_bit [of "dr_staging_bitmap r"] kring_okD(9) [OF assms(1)] assms(1)
  by (auto simp: duvm_alloc_staging_slot_def Let_def kring_ok_def split: if_splits)

lemma alloc_slot_None:
  assumes "kring_ok r" and "duvm_alloc_staging_slot r = (None, r')"
  shows "r' = r" and "\<forall>b \<in> set (dr_staging_bitmap r). b"
  using assms(2) find_first_zero_bit_less [of _ "dr_staging_bitmap r"] kring_okD(9) [OF assms(1)]
  by (auto simp: duvm_alloc_staging_slot_def Let_def in_set_conv_nth split: if_splits)

lemma free_slot_ok [simp]: "kring_ok (duvm_free_staging_slot r s) = kring_ok r"
  by (simp add: duvm_free_staging_slot_def kring_ok_def)

lemma queue_upd [simp]:
  "req_queue (r\<lparr>dr_staging_bitmap := b\<rparr>) = req_queue r" "comp_queue (r\<lparr>dr_staging_bitmap := b\<rparr>) = comp_queue r"
  "ring_cap (r\<lparr>dr_staging_bitmap := b\<rparr>) = ring_cap r"
  "req_queue (r\<lparr>dr_staging := m\<rparr>) = req_queue r" "comp_queue (r\<lparr>dr_staging := m\<rparr>) = comp_queue r"
  "ring_cap (r\<lparr>dr_staging := m\<rparr>) = ring_cap r"
  by (simp_all add: req_queue_def comp_queue_def ring_cap_def)

lemma kring_ok_staging: "kring_ok r \<Longrightarrow> length m = length (dr_staging r) \<Longrightarrow> kring_ok (r\<lparr>dr_staging := m\<rparr>)"
  by (simp add: kring_ok_def Let_def)

end
