(* ===== verification/Page.thy ===== *)
theory Page
  imports Prelude
begin

unbundle bit_operations_syntax

text \<open>
  Page handles, tiers and page flags: \<^verbatim>\<open>crates/duvm-common/src/page.rs\<close>.
\<close>

section \<open>Page handles\<close>

text \<open>
  A handle packs the backend identifier into the upper 8 bits of a \<^verbatim>\<open>u64\<close> and the offset
  inside the backend into the lower 56.
\<close>

datatype page_handle = PageHandle (ph_raw: u64)

definition ph_INVALID :: page_handle where
  "ph_INVALID = PageHandle (- 1)"

definition ph_new :: "u8 \<Rightarrow> u64 \<Rightarrow> page_handle res" where
  "ph_new backend_id offset =
     (if offset < push_bit 56 1 then Ok (PageHandle (push_bit 56 (ucast backend_id) OR offset))
      else Panic)"

definition ph_backend_id :: "page_handle \<Rightarrow> u8" where
  "ph_backend_id h = ucast (drop_bit 56 (ph_raw h))"

definition ph_offset :: "page_handle \<Rightarrow> u64" where
  "ph_offset h = ph_raw h AND (push_bit 56 1 - 1)"

definition ph_from_raw :: "u64 \<Rightarrow> page_handle" where
  "ph_from_raw raw = PageHandle raw"

definition ph_is_valid :: "page_handle \<Rightarrow> bool" where
  "ph_is_valid h \<longleftrightarrow> h \<noteq> ph_INVALID"

lemma offset_mask: "(push_bit 56 1 - 1 :: u64) = mask 56"
  by (simp add: mask_eq_decr_exp)

lemma small_offset_bits:
  fixes x :: u64
  assumes "x < push_bit 56 1" and "bit x n"
  shows "n < 56"
proof -
  from assms(1) have "x AND mask 56 = x"
    by (simp add: less_mask_eq)
  with assms(2) have "bit (x AND mask 56) n" by simp
  then show ?thesis by (simp add: bit_simps)
qed

lemma ph_offset_less: "ph_offset h < push_bit 56 1"
  unfolding ph_offset_def offset_mask using and_mask_less_size [of 56 "ph_raw h"]
  by (simp add: word_size)

lemma ph_new_Ok_iff:
  "ph_new b x = Ok h \<longleftrightarrow> x < push_bit 56 1 \<and> ph_backend_id h = b \<and> ph_offset h = x"
proof
  assume "ph_new b x = Ok h"
  then have x: "x < push_bit 56 1" and h: "ph_raw h = push_bit 56 (ucast b) OR x"
    by (auto simp: ph_new_def split: if_splits)
  have "ph_backend_id h = b"
    unfolding ph_backend_id_def h
    by (rule bit_word_eqI) (auto simp: bit_simps dest: small_offset_bits [OF x])
  moreover have "ph_offset h = x"
    unfolding ph_offset_def h offset_mask
    by (rule bit_word_eqI) (auto simp: bit_simps dest: small_offset_bits [OF x])
  ultimately show "x < push_bit 56 1 \<and> ph_backend_id h = b \<and> ph_offset h = x"
    using x by simp
next
  assume a: "x < push_bit 56 1 \<and> ph_backend_id h = b \<and> ph_offset h = x"
  have "push_bit 56 (ucast (ph_backend_id h)) OR ph_offset h = ph_raw h"
    unfolding ph_backend_id_def ph_offset_def offset_mask
    by (rule bit_word_eqI) (auto simp: bit_simps)
  with a show "ph_new b x = Ok h"
    by (cases h) (auto simp: ph_new_def)
qed

lemma ph_new_cases:
  obtains (ok) h where "ph_new b x = Ok h" "x < push_bit 56 1" "ph_backend_id h = b" "ph_offset h = x"
  | (panic) "ph_new b x = Panic" "\<not> x < push_bit 56 1"
proof (cases "x < push_bit 56 1")
  case True
  then obtain h where h: "ph_new b x = Ok h" by (simp add: ph_new_def)
  then show ?thesis by (intro ok [OF h]) (simp_all add: ph_new_Ok_iff)
next
  case False
  then show ?thesis by (intro panic) (simp_all add: ph_new_def)
qed

lemma ph_new_not_Err [simp]: "ph_new b x \<noteq> Err e"
  by (simp add: ph_new_def)

lemma ph_eqI: "ph_backend_id h = ph_backend_id h' \<Longrightarrow> ph_offset h = ph_offset h' \<Longrightarrow> h = h'"
proof -
  assume "ph_backend_id h = ph_backend_id h'" and "ph_offset h = ph_offset h'"
  then have "ph_new (ph_backend_id h) (ph_offset h) = Ok h"
    and "ph_new (ph_backend_id h) (ph_offset h) = Ok h'"
    using ph_offset_less [of h] by (simp_all add: ph_new_Ok_iff del: push_bit_of_1)
  then show "h = h'" by simp
qed

section \<open>Tiers\<close>

datatype tier = Local | Compressed | Cxl | Rdma | Gpu

fun tier_name :: "tier \<Rightarrow> string" where
  "tier_name Local = ''local''"
| "tier_name Compressed = ''compressed''"
| "tier_name Cxl = ''cxl''"
| "tier_name Rdma = ''rdma''"
| "tier_name Gpu = ''gpu''"

section \<open>Page flags\<close>

datatype page_flags = PageFlags (pf_bits: u8)

definition DIRTY :: page_flags where "DIRTY = PageFlags (push_bit 0 1)"
definition PINNED :: page_flags where "PINNED = PageFlags (push_bit 1 1)"
definition PREFETCHED :: page_flags where "PREFETCHED = PageFlags (push_bit 2 1)"
definition MIGRATING :: page_flags where "MIGRATING = PageFlags (push_bit 3 1)"

definition pf_empty :: page_flags where
  "pf_empty = PageFlags 0"

definition pf_contains :: "page_flags \<Rightarrow> page_flags \<Rightarrow> bool" where
  "pf_contains f flag \<longleftrightarrow> pf_bits f AND pf_bits flag = pf_bits flag"

definition pf_insert :: "page_flags \<Rightarrow> page_flags \<Rightarrow> page_flags" where
  "pf_insert f flag = PageFlags (pf_bits f OR pf_bits flag)"

definition pf_remove :: "page_flags \<Rightarrow> page_flags \<Rightarrow> page_flags" where
  "pf_remove f flag = PageFlags (pf_bits f AND NOT (pf_bits flag))"

definition pf_bitor :: "page_flags \<Rightarrow> page_flags \<Rightarrow> page_flags" where
  "pf_bitor f g = PageFlags (pf_bits f OR pf_bits g)"

definition pf_bitand :: "page_flags \<Rightarrow> page_flags \<Rightarrow> page_flags" where
  "pf_bitand f g = PageFlags (pf_bits f AND pf_bits g)"

definition pf_not :: "page_flags \<Rightarrow> page_flags" where
  "pf_not f = PageFlags (NOT (pf_bits f))"

lemmas pf_defs = pf_contains_def pf_insert_def pf_remove_def pf_bitor_def pf_bitand_def pf_not_def

lemma pf_contains_bits: "pf_contains f g \<longleftrightarrow> (\<forall>n. bit (pf_bits g) n \<longrightarrow> bit (pf_bits f) n)"
proof
  assume "pf_contains f g"
  then have "bit (pf_bits f AND pf_bits g) n = bit (pf_bits g) n" for n
    by (simp add: pf_contains_def)
  then show "\<forall>n. bit (pf_bits g) n \<longrightarrow> bit (pf_bits f) n"
    by (auto simp: bit_and_iff)
next
  assume "\<forall>n. bit (pf_bits g) n \<longrightarrow> bit (pf_bits f) n"
  then show "pf_contains f g"
    unfolding pf_contains_def by (intro bit_word_eqI) (auto simp: bit_simps)
qed

section \<open>Properties\<close>

text \<open>
  Packing a backend and an offset into a handle and reading them back is the identity, on
  handles and on pairs; the constructor panics exactly when the offset needs more than 56 bits.
\<close>

theorem page_handle_roundtrip:
  "ph_new (ph_backend_id h) (ph_offset h) = Ok h \<and> ph_from_raw (ph_raw h) = h \<and>
   ((\<exists>g. ph_new b x = Ok g \<and> ph_backend_id g = b \<and> ph_offset g = x) \<longleftrightarrow> x < push_bit 56 1) \<and>
   (ph_new b x = Panic \<longleftrightarrow> push_bit 56 1 \<le> x)"
proof -
  have "ph_new (ph_backend_id h) (ph_offset h) = Ok h"
    using ph_offset_less [of h] by (simp add: ph_new_Ok_iff del: push_bit_of_1)
  moreover have "(\<exists>g. ph_new b x = Ok g) \<longleftrightarrow> x < push_bit 56 1" and "ph_new b x = Panic \<longleftrightarrow> push_bit 56 1 \<le> x"
    by (auto simp: ph_new_def not_le)
  ultimately show ?thesis
    by (auto simp: ph_from_raw_def ph_new_Ok_iff simp del: push_bit_of_1)
qed

end
