(* ===== verification/Backend_Trait.thy ===== *)
theory Backend_Trait
  imports Page
begin

text \<open>
  The trait every storage backend implements: \<^verbatim>\<open>crates/duvm-backend-trait/src/lib.rs\<close>. A
  trait object is a record of functions, its method table, over a type \<open>'b\<close> of backend
  states. Methods that take \<^verbatim>\<open>&self\<close> change interior state, so they return the new backend;
  methods that may talk to the outside also pass a world \<open>'w\<close> through. \<^verbatim>\<open>load_page\<close> returns
  the bytes it copied to the caller's buffer.
\<close>

section \<open>The method table\<close>

text \<open>
  \<^verbatim>\<open>BackendConfig\<close>; the TOML table \<^verbatim>\<open>settings\<close> is read by no backend and is left out.
\<close>

record backend_config =
  bc_max_pages :: u64

definition default_backend_config :: backend_config where
  "default_backend_config = \<lparr>bc_max_pages = 1024 * 1024\<rparr>"

record ('b, 'w) backend_vt =
  vt_name :: "'b \<Rightarrow> string"
  vt_tier :: "'b \<Rightarrow> tier"
  vt_init :: "'b \<Rightarrow> backend_config \<Rightarrow> 'w \<Rightarrow> unit res \<times> 'b \<times> 'w"
  vt_alloc_page :: "'b \<Rightarrow> 'w \<Rightarrow> page_handle res \<times> 'b \<times> 'w"
  vt_free_page :: "'b \<Rightarrow> page_handle \<Rightarrow> 'w \<Rightarrow> unit res \<times> 'b \<times> 'w"
  vt_store_page :: "'b \<Rightarrow> page_handle \<Rightarrow> page \<Rightarrow> 'w \<Rightarrow> unit res \<times> 'b \<times> 'w"
  vt_load_page :: "'b \<Rightarrow> page_handle \<Rightarrow> 'w \<Rightarrow> page res \<times> 'b \<times> 'w"
  vt_capacity :: "'b \<Rightarrow> u64 \<times> u64"
  vt_latency_ns :: "'b \<Rightarrow> u64"
  vt_is_healthy :: "'b \<Rightarrow> bool"
  vt_shutdown :: "'b \<Rightarrow> 'w \<Rightarrow> unit res \<times> 'b \<times> 'w"

text \<open>The batch operations with their default bodies: both stop at the first failure.\<close>

fun store_pages ::
  "('b, 'w) backend_vt \<Rightarrow> 'b \<Rightarrow> (page_handle \<times> page) list \<Rightarrow> 'w \<Rightarrow> unit res \<times> 'b \<times> 'w" where
  "store_pages V b [] w = (Ok (), b, w)"
| "store_pages V b ((h, d) # ps) w =
     (case vt_store_page V b h d w of
        (Ok u, b', w') \<Rightarrow> store_pages V b' ps w'
      | (Err e, b', w') \<Rightarrow> (Err e, b', w')
      | (Panic, b', w') \<Rightarrow> (Panic, b', w'))"

text \<open>\<open>load_pages\<close> also returns the buffers it filled before it stopped.\<close>

fun load_pages ::
  "('b, 'w) backend_vt \<Rightarrow> 'b \<Rightarrow> page_handle list \<Rightarrow> 'w \<Rightarrow> unit res \<times> page list \<times> 'b \<times> 'w" where
  "load_pages V b [] w = (Ok (), [], b, w)"
| "load_pages V b (h # hs) w =
     (case vt_load_page V b h w of
        (Ok d, b', w') \<Rightarrow>
          (case load_pages V b' hs w' of (r, ds, b'', w'') \<Rightarrow> (r, d # ds, b'', w''))
      | (Err e, b', w') \<Rightarrow> (Err e, [], b', w')
      | (Panic, b', w') \<Rightarrow> (Panic, [], b', w'))"

record backend_info =
  bi_name :: string
  bi_tier :: string
  bi_total_pages :: u64
  bi_used_pages :: u64
  bi_latency_ns :: u64
  bi_healthy :: bool

definition backend_info_from_backend :: "('b, 'w) backend_vt \<Rightarrow> 'b \<Rightarrow> backend_info" where
  "backend_info_from_backend V b =
     (let (total, used) = vt_capacity V b in
      \<lparr>bi_name = vt_name V b, bi_tier = tier_name (vt_tier V b), bi_total_pages = total,
       bi_used_pages = used, bi_latency_ns = vt_latency_ns V b, bi_healthy = vt_is_healthy V b\<rparr>)"

section \<open>The contract\<close>

text \<open>
  What the daemon relies on. \<open>contents b w\<close> is the abstract store of a backend, from offsets
  to pages; \<open>issued b w\<close> says which offsets \<^verbatim>\<open>alloc_page\<close> has handed out; \<open>bid b\<close> is the
  identifier the backend puts into its handles; \<open>apart b c\<close> says that two backends keep their
  pages in different places. A step of one backend keeps its invariant, identifier, tier and
  place, never takes an offset back, and leaves the backends apart from it alone.
\<close>

definition backend_step ::
  "('b, 'w) backend_vt \<Rightarrow> ('b \<Rightarrow> u8) \<Rightarrow> ('b \<Rightarrow> 'w \<Rightarrow> u64 \<rightharpoonup> page) \<Rightarrow> ('b \<Rightarrow> 'w \<Rightarrow> u64 \<Rightarrow> bool) \<Rightarrow>
   ('b \<Rightarrow> 'w \<Rightarrow> bool) \<Rightarrow> ('b \<Rightarrow> 'b \<Rightarrow> bool) \<Rightarrow> 'b \<Rightarrow> 'w \<Rightarrow> 'b \<Rightarrow> 'w \<Rightarrow> bool" where
  "backend_step V bid contents issued binv apart b w b' w' \<longleftrightarrow>
     binv b' w' \<and> bid b' = bid b \<and> vt_tier V b' = vt_tier V b \<and>
     (\<forall>x. issued b w x \<longrightarrow> issued b' w' x) \<and>
     (\<forall>c. apart b c \<longrightarrow> apart b' c \<and> (binv c w \<longrightarrow> contents c w' = contents c w \<and> binv c w'))"

locale page_backend =
  fixes V :: "('b, 'w) backend_vt"
    and bid :: "'b \<Rightarrow> u8"
    and contents :: "'b \<Rightarrow> 'w \<Rightarrow> u64 \<rightharpoonup> page"
    and issued :: "'b \<Rightarrow> 'w \<Rightarrow> u64 \<Rightarrow> bool"
    and binv :: "'b \<Rightarrow> 'w \<Rightarrow> bool"
    and apart :: "'b \<Rightarrow> 'b \<Rightarrow> bool"
  assumes apart_sym: "apart b c \<Longrightarrow> apart c b"
    and contents_issued: "binv b w \<Longrightarrow> contents b w x = Some d \<Longrightarrow> issued b w x"
    and contents_page: "binv b w \<Longrightarrow> contents b w x = Some d \<Longrightarrow> is_page d"
    and alloc_law: "binv b w \<Longrightarrow> vt_alloc_page V b w = (ra, b', w') \<Longrightarrow> ra \<noteq> Panic \<Longrightarrow>
      backend_step V bid contents issued binv apart b w b' w' \<and> contents b' w' = contents b w \<and>
      (\<forall>h. ra = Ok h \<longrightarrow> ph_backend_id h = bid b \<and>
         \<not> issued b w (ph_offset h) \<and> issued b' w' (ph_offset h))"
    and store_law: "binv b w \<Longrightarrow> is_page d \<Longrightarrow> issued b w (ph_offset h) \<Longrightarrow>
      vt_store_page V b h d w = (rs, b', w') \<Longrightarrow> rs \<noteq> Panic \<Longrightarrow>
      backend_step V bid contents issued binv apart b w b' w' \<and>
      (\<forall>x. x \<noteq> ph_offset h \<longrightarrow> contents b' w' x = contents b w x) \<and>
      (is_ok rs \<longrightarrow> contents b' w' (ph_offset h) = Some d)"
    and load_law: "binv b w \<Longrightarrow> vt_load_page V b h w = (rl, b', w') \<Longrightarrow> rl \<noteq> Panic \<Longrightarrow>
      backend_step V bid contents issued binv apart b w b' w' \<and> contents b' w' = contents b w \<and>
      (\<forall>d. rl = Ok d \<longrightarrow> contents b w (ph_offset h) = Some d)"
    and free_law: "binv b w \<Longrightarrow> vt_free_page V b h w = (rf, b', w') \<Longrightarrow> rf \<noteq> Panic \<Longrightarrow>
      backend_step V bid contents issued binv apart b w b' w' \<and>
      (\<forall>x. x \<noteq> ph_offset h \<longrightarrow> contents b' w' x = contents b w x) \<and>
      (is_ok rf \<longrightarrow> contents b' w' (ph_offset h) = None)"
begin

lemma alloc_fresh:
  assumes "binv b w" and "vt_alloc_page V b w = (Ok h, b', w')"
  shows "contents b w (ph_offset h) = None"
  using alloc_law [OF assms] contents_issued [OF assms(1)] by (metis not_Some_eq res.distinct(3))

text \<open>A batch of stores to distinct issued handles puts every page where its handle says.\<close>

lemma store_pages_law:
  assumes "binv b w" and "\<forall>(h, d) \<in> set ps. is_page d \<and> issued b w (ph_offset h)"
    and "distinct (map (ph_offset \<circ> fst) ps)" and "store_pages V b ps w = (Ok (), b', w')"
  shows "binv b' w' \<and> (\<forall>(h, d) \<in> set ps. contents b' w' (ph_offset h) = Some d) \<and>
         (\<forall>x. x \<notin> (ph_offset \<circ> fst) ` set ps \<longrightarrow> contents b' w' x = contents b w x)"
  using assms
proof (induction ps arbitrary: b w)
  case (Cons p ps)
  obtain h d where p: "p = (h, d)" by (cases p)
  from Cons.prems(4) p obtain u b1 w1 where
    st: "vt_store_page V b h d w = (Ok u, b1, w1)" and rest: "store_pages V b1 ps w1 = (Ok (), b', w')"
    by (auto split: prod.splits res.splits)
  have law: "backend_step V bid contents issued binv apart b w b1 w1"
    "\<And>x. x \<noteq> ph_offset h \<Longrightarrow> contents b1 w1 x = contents b w x"
    "contents b1 w1 (ph_offset h) = Some d"
    using store_law [OF _ _ _ st] Cons.prems(1,2) p by auto
  then have "binv b1 w1" and "\<forall>(h, d) \<in> set ps. is_page d \<and> issued b1 w1 (ph_offset h)"
    using Cons.prems(2) by (auto simp: backend_step_def)
  from Cons.IH [OF this _ rest] Cons.prems(3)
  have ih: "binv b' w'" "\<forall>(h, d) \<in> set ps. contents b' w' (ph_offset h) = Some d"
    "\<And>x. x \<notin> (ph_offset \<circ> fst) ` set ps \<Longrightarrow> contents b' w' x = contents b1 w1 x"
    by auto
  have "ph_offset h \<notin> (ph_offset \<circ> fst) ` set ps"
    using Cons.prems(3) p by (simp add: image_comp)
  then have "contents b' w' (ph_offset h) = Some d"
    using ih(3) law(3) by simp
  then show ?case
    using ih law(2) p by (auto simp: image_iff)
qed simp

end

text \<open>
  A backend whose memory is local: a page that is there can be loaded, and stores and frees
  do not fail.
\<close>

locale reliable_backend = page_backend +
  assumes load_total: "binv b w \<Longrightarrow> contents b w (ph_offset h) = Some d \<Longrightarrow>
      \<exists>b' w'. vt_load_page V b h w = (Ok d, b', w')"
    and store_total: "binv b w \<Longrightarrow> is_page d \<Longrightarrow> issued b w (ph_offset h) \<Longrightarrow>
      \<exists>b' w'. vt_store_page V b h d w = (Ok (), b', w')"
    and free_total: "binv b w \<Longrightarrow> \<exists>b' w'. vt_free_page V b h w = (Ok (), b', w')"
begin

lemma load_iff:
  assumes "binv b w"
  shows "(\<exists>b' w'. vt_load_page V b h w = (Ok d, b', w')) \<longleftrightarrow> contents b w (ph_offset h) = Some d"
  using load_total [OF assms] load_law [OF assms] by blast

end

text \<open>
  A backend that also keeps count: it is healthy, the count of used pages moves by one with
  each page, and it accepts a page whenever the count is below the total, unless it has
  \<open>exhausted\<close> the offsets a handle has room for.
\<close>

locale counted_backend = reliable_backend +
  fixes exhausted :: "'a \<Rightarrow> bool"
  assumes healthy_law: "binv b w \<Longrightarrow> vt_is_healthy V b"
    and alloc_room: "binv b w \<Longrightarrow> snd (vt_capacity V b) < fst (vt_capacity V b) \<Longrightarrow>
      \<not> exhausted b \<Longrightarrow> \<exists>h b' w'. vt_alloc_page V b w = (Ok h, b', w')"
    and free_exhausted: "binv b w \<Longrightarrow> vt_free_page V b h w = (rf, b', w') \<Longrightarrow> exhausted b' = exhausted b"
    and cap_alloc: "binv b w \<Longrightarrow> vt_alloc_page V b w = (ra, b', w') \<Longrightarrow>
      vt_capacity V b' = vt_capacity V b"
    and cap_load: "binv b w \<Longrightarrow> vt_load_page V b h w = (rl, b', w') \<Longrightarrow>
      vt_capacity V b' = vt_capacity V b"
    and cap_store: "binv b w \<Longrightarrow> is_page d \<Longrightarrow> issued b w (ph_offset h) \<Longrightarrow>
      contents b w (ph_offset h) = None \<Longrightarrow> vt_store_page V b h d w = (rs, b', w') \<Longrightarrow>
      fst (vt_capacity V b') = fst (vt_capacity V b) \<and>
      unat (snd (vt_capacity V b')) = Suc (unat (snd (vt_capacity V b)))"
    and cap_free: "binv b w \<Longrightarrow> contents b w (ph_offset h) \<noteq> None \<Longrightarrow>
      vt_free_page V b h w = (rf, b', w') \<Longrightarrow>
      fst (vt_capacity V b') = fst (vt_capacity V b) \<and>
      unat (snd (vt_capacity V b)) = Suc (unat (snd (vt_capacity V b')))"

end
