(* ===== verification/F64.thy ===== *)
theory F64
  imports Complex_Main Prelude "HOL-Library.Log_Nat"
begin

text \<open>
  The double-precision arithmetic the daemon uses: a \<^verbatim>\<open>u64\<close> cast to \<^verbatim>\<open>f64\<close>, the quotient
  of two such numbers, and comparisons. All values are finite and not negative, and the
  quotients lie between \<open>2\<^sup>-\<^sup>6\<^sup>4\<close> and \<open>2\<^sup>6\<^sup>4\<close>, where a double has its full 53 bits of
  significand, so a double is the rational it denotes and every operation is the exact
  result rounded to 53 bits, to nearest with ties to even.
\<close>

type_synonym f64 = rat

section \<open>Rounding\<close>

text \<open>The exponent of the binade of a positive number.\<close>

definition binade :: "rat \<Rightarrow> int" where
  "binade x =
     (if 1 \<le> x then int (floorlog 2 (nat \<lfloor>x\<rfloor>)) - 1
      else - int (floorlog 2 (nat (\<lceil>1 / x\<rceil> - 1))))"

definition round_half_even :: "rat \<Rightarrow> int" where
  "round_half_even x =
     (let n = \<lfloor>x\<rfloor>; r = x - of_int n in
      if r < 1 / 2 then n else if 1 / 2 < r then n + 1 else if even n then n else n + 1)"

definition f64_round :: "rat \<Rightarrow> f64" where
  "f64_round x =
     (if x = 0 then 0
      else let u = 2 powi (binade x - 52) in of_int (round_half_even (x / u)) * u)"

text \<open>\<^verbatim>\<open>n as f64\<close> and \<^verbatim>\<open>a / b\<close>.\<close>

definition f64_of_u64 :: "u64 \<Rightarrow> f64" where
  "f64_of_u64 n = f64_round (of_nat (unat n))"

definition f64_div :: "f64 \<Rightarrow> f64 \<Rightarrow> f64" where
  "f64_div a b = f64_round (a / b)"

section \<open>Monotonicity\<close>

lemma binade_bounds:
  assumes "0 < x"
  shows "2 powi binade x \<le> x \<and> x < 2 powi (binade x + 1)"
proof (cases "1 \<le> x")
  case True
  let ?n = "nat \<lfloor>x\<rfloor>" and ?k = "floorlog 2 (nat \<lfloor>x\<rfloor>)"
  from True have n: "0 < ?n" by simp
  then have k: "0 < ?k" by (simp add: floorlog_def)
  have b: "2 ^ (?k - 1) \<le> ?n" "?n < 2 ^ ?k"
    using floorlog_bounds [OF n, of 2] by auto
  have nx: "(of_nat ?n :: rat) = of_int \<lfloor>x\<rfloor>" using True by simp
  have "(2 :: rat) ^ (?k - 1) \<le> of_nat ?n" using b(1) by (metis of_nat_le_iff of_nat_numeral of_nat_power)
  then have lo: "(2 :: rat) ^ (?k - 1) \<le> x" unfolding nx by linarith
  have "of_nat (Suc ?n) \<le> (2 :: rat) ^ ?k" using b(2) by (metis Suc_leI of_nat_le_iff of_nat_numeral of_nat_power)
  then have hi: "x < 2 ^ ?k" using nx by (simp, linarith)
  have e: "binade x = int (?k - 1)" "binade x + 1 = int ?k"
    using True k by (simp_all add: binade_def)
  show ?thesis using lo hi unfolding e(2) unfolding e(1) by (simp add: power_int_of_nat)
next
  case False
  let ?m = "nat (\<lceil>1 / x\<rceil> - 1)" and ?k = "floorlog 2 (nat (\<lceil>1 / x\<rceil> - 1))"
  have gt: "1 < 1 / x" using False assms by simp
  then have m: "0 < ?m" by (simp add: less_ceiling_iff)
  then have k: "0 < ?k" by (simp add: floorlog_def)
  have b: "2 ^ (?k - 1) \<le> ?m" "?m < 2 ^ ?k"
    using floorlog_bounds [OF m, of 2] by auto
  from m have "0 \<le> \<lceil>1 / x\<rceil> - 1" by linarith
  then have mx: "(of_nat ?m :: rat) = of_int \<lceil>1 / x\<rceil> - 1" by (simp add: of_nat_nat del: zero_le_ceiling)
  have "(2 :: rat) ^ (?k - 1) \<le> of_nat ?m" using b(1) by (metis of_nat_le_iff of_nat_numeral of_nat_power)
  then have "(2 :: rat) ^ (?k - 1) < 1 / x" unfolding mx by linarith
  then have hi: "x < 1 / 2 ^ (?k - 1)" using assms by (simp add: field_simps)
  have "of_nat (Suc ?m) \<le> (2 :: rat) ^ ?k" using b(2) by (metis Suc_leI of_nat_le_iff of_nat_numeral of_nat_power)
  then have "1 / x \<le> 2 ^ ?k" using mx by (simp, linarith)
  then have lo: "1 / 2 ^ ?k \<le> x" using assms by (simp add: field_simps)
  have e: "binade x = - int ?k" "binade x + 1 = - int (?k - 1)"
    using False k by (simp_all add: binade_def)
  show ?thesis using lo hi unfolding e(2) unfolding e(1) by (simp add: power_int_minus divide_inverse)
qed

lemma round_half_even_mono:
  assumes "x \<le> y"
  shows "round_half_even x \<le> round_half_even y"
proof (cases "\<lfloor>x\<rfloor> = \<lfloor>y\<rfloor>")
  case True
  with assms show ?thesis by (auto simp: round_half_even_def Let_def)
next
  case False
  then have "\<lfloor>x\<rfloor> + 1 \<le> \<lfloor>y\<rfloor>" using floor_mono [OF assms] by linarith
  then show ?thesis by (auto simp: round_half_even_def Let_def)
qed

lemma round_half_even_of_int [simp]: "round_half_even (of_int n) = n"
  by (simp add: round_half_even_def)

text \<open>The rounded number stays within the closed binade of the exact one.\<close>

lemma f64_round_binade:
  assumes "0 < x"
  shows "2 powi binade x \<le> f64_round x \<and> f64_round x \<le> 2 powi (binade x + 1)"
proof -
  let ?u = "2 powi (binade x - 52) :: rat"
  have u: "0 < ?u" by simp
  have s: "2 powi binade x = of_int (2 ^ 52) * ?u" "2 powi (binade x + 1) = of_int (2 ^ 53) * ?u"
    by (simp_all add: power_int_diff power_int_add)
  have "of_int (2 ^ 52) \<le> x / ?u" "x / ?u \<le> of_int (2 ^ 53)"
    using binade_bounds [OF assms] u unfolding s by (simp_all add: field_simps)
  then have "2 ^ 52 \<le> round_half_even (x / ?u)" "round_half_even (x / ?u) \<le> 2 ^ 53"
    using round_half_even_mono round_half_even_of_int by metis+
  then have "of_int (2 ^ 52) * ?u \<le> of_int (round_half_even (x / ?u)) * ?u"
    "of_int (round_half_even (x / ?u)) * ?u \<le> of_int (2 ^ 53) * ?u"
    using u by (intro mult_right_mono of_int_le_iff [THEN iffD2]; simp)+
  then show ?thesis unfolding s using assms by (simp add: f64_round_def Let_def)
qed

lemma f64_round_mono:
  assumes "0 \<le> x" and "x \<le> y"
  shows "f64_round x \<le> f64_round y"
proof (cases "x = 0")
  case True
  have "0 \<le> f64_round y"
  proof (cases "y = 0")
    case False
    with assms True have "2 powi binade y \<le> f64_round y" using f64_round_binade by simp
    moreover have "(0 :: rat) \<le> 2 powi binade y" by simp
    ultimately show ?thesis by linarith
  qed (simp add: f64_round_def)
  with True show ?thesis by (simp add: f64_round_def)
next
  case False
  with assms have pos: "0 < x" "0 < y" by simp_all
  have "2 powi binade x \<le> x" "y < 2 powi (binade y + 1)"
    using binade_bounds pos by blast+
  with assms have "(2 :: rat) powi binade x < 2 powi (binade y + 1)" by linarith
  then have "\<not> binade y + 1 \<le> binade x"
    using power_int_increasing [of "binade y + 1" "binade x" "2 :: rat"] by fastforce
  then consider "binade x = binade y" | "binade x + 1 \<le> binade y" by linarith
  then show ?thesis
  proof cases
    case 1
    then show ?thesis
      using pos assms by (auto simp: f64_round_def Let_def intro!: mult_right_mono round_half_even_mono divide_right_mono)
  next
    case 2
    then have "(2 :: rat) powi (binade x + 1) \<le> 2 powi binade y"
      by (intro power_int_increasing) simp_all
    then show ?thesis using f64_round_binade pos by (meson order.trans)
  qed
qed

end
