(* ===== verification/Policy.thy ===== *)
theory Policy
  imports Page F64 "HOL-Library.Product_Lexorder" "HOL-Library.Multiset"
begin

text \<open>
  The placement policy, \<^verbatim>\<open>crates/duvm-daemon/src/policy.rs\<close>: what the daemon knows of each
  page, the choice of a tier, and the choice of a page to evict. An \<^verbatim>\<open>Instant\<close> is a number;
  the operations that read the clock take its value as an argument. Iterating over the page
  map visits its entries in an order Rust leaves open: the two eviction searches take that
  order as the argument \<open>it\<close>, which is assumed to permute the entries and nothing else.
\<close>

section \<open>State\<close>

type_synonym instant = nat

record page_meta =
  pm_handle :: page_handle
  pm_backend_id :: u8
  pm_tier :: tier
  pm_access_count :: u32
  pm_last_access :: instant
  pm_flags :: page_flags

record backend_capacity =
  bcap_backend_id :: u8
  bcap_tier :: tier
  bcap_total_pages :: u64
  bcap_used_pages :: u64
  bcap_latency_ns :: u64
  bcap_healthy :: bool

definition has_capacity :: "backend_capacity \<Rightarrow> bool" where
  "has_capacity c \<longleftrightarrow> bcap_healthy c \<and> bcap_used_pages c < bcap_total_pages c"

definition utilization :: "backend_capacity \<Rightarrow> f64" where
  "utilization c =
     (if bcap_total_pages c = 0 then 1
      else f64_div (f64_of_u64 (bcap_used_pages c)) (f64_of_u64 (bcap_total_pages c)))"

datatype strategy = Lru

record policy_engine =
  pe_pages :: "(u64, page_meta) hash_map"
  pe_strategy :: strategy

definition policy_new :: "strategy \<Rightarrow> policy_engine" where
  "policy_new s = \<lparr>pe_pages = [], pe_strategy = s\<rparr>"

section \<open>Tracking\<close>

definition record_store ::
  "policy_engine \<Rightarrow> u64 \<Rightarrow> page_handle \<Rightarrow> u8 \<Rightarrow> tier \<Rightarrow> instant \<Rightarrow> policy_engine" where
  "record_store p offset h i t now =
     p\<lparr>pe_pages := AList.update offset
         \<lparr>pm_handle = h, pm_backend_id = i, pm_tier = t, pm_access_count = 0,
          pm_last_access = now, pm_flags = pf_empty\<rparr> (pe_pages p)\<rparr>"

definition saturating_inc :: "u32 \<Rightarrow> u32" where
  "saturating_inc n = (if n = - 1 then n else n + 1)"

definition record_load :: "policy_engine \<Rightarrow> u64 \<Rightarrow> instant \<Rightarrow> policy_engine" where
  "record_load p offset now =
     (case map_of (pe_pages p) offset of
        Some m \<Rightarrow>
          p\<lparr>pe_pages := AList.update offset
              (m\<lparr>pm_access_count := saturating_inc (pm_access_count m), pm_last_access := now\<rparr>)
              (pe_pages p)\<rparr>
      | None \<Rightarrow> p)"

definition policy_lookup :: "policy_engine \<Rightarrow> u64 \<Rightarrow> page_meta option" where
  "policy_lookup p offset = map_of (pe_pages p) offset"

definition policy_remove :: "policy_engine \<Rightarrow> u64 \<Rightarrow> page_meta option \<times> policy_engine" where
  "policy_remove p offset =
     (map_of (pe_pages p) offset, p\<lparr>pe_pages := AList.delete offset (pe_pages p)\<rparr>)"

definition tracked_pages :: "policy_engine \<Rightarrow> nat" where
  "tracked_pages p = length (pe_pages p)"

definition pages_in_backend :: "policy_engine \<Rightarrow> u8 \<Rightarrow> nat" where
  "pages_in_backend p i = length (filter (\<lambda>(_, m). pm_backend_id m = i) (pe_pages p))"

definition set_flag :: "policy_engine \<Rightarrow> u64 \<Rightarrow> page_flags \<Rightarrow> policy_engine" where
  "set_flag p offset flag =
     (case map_of (pe_pages p) offset of
        Some m \<Rightarrow>
          p\<lparr>pe_pages := AList.update offset (m\<lparr>pm_flags := pf_bitor (pm_flags m) flag\<rparr>) (pe_pages p)\<rparr>
      | None \<Rightarrow> p)"

definition clear_flag :: "policy_engine \<Rightarrow> u64 \<Rightarrow> page_flags \<Rightarrow> policy_engine" where
  "clear_flag p offset flag =
     (case map_of (pe_pages p) offset of
        Some m \<Rightarrow>
          p\<lparr>pe_pages := AList.update offset
              (m\<lparr>pm_flags := pf_bitand (pm_flags m) (pf_not flag)\<rparr>) (pe_pages p)\<rparr>
      | None \<Rightarrow> p)"

section \<open>Tier selection\<close>

definition tier_preference :: "tier list" where
  "tier_preference = [Compressed, Cxl, Rdma, Gpu, Local]"

fun select_tier_from :: "tier list \<Rightarrow> backend_capacity list \<Rightarrow> tier option" where
  "select_tier_from [] caps = None"
| "select_tier_from (t # ts) caps =
     (let available = filter (\<lambda>c. bcap_tier c = t \<and> has_capacity c) caps in
      if available \<noteq> [] then Some t else select_tier_from ts caps)"

definition select_tier_lru :: "backend_capacity list \<Rightarrow> tier option" where
  "select_tier_lru caps = select_tier_from tier_preference caps"

definition select_tier :: "policy_engine \<Rightarrow> backend_capacity list \<Rightarrow> tier option" where
  "select_tier p caps = (case pe_strategy p of Lru \<Rightarrow> select_tier_lru caps)"

section \<open>Eviction\<close>

text \<open>\<^verbatim>\<open>Iterator::min_by_key\<close>: the first of the smallest elements.\<close>

fun min_by_key :: "('a \<Rightarrow> 'k::linorder) \<Rightarrow> 'a list \<Rightarrow> 'a option" where
  "min_by_key f [] = None"
| "min_by_key f (x # xs) =
     (case min_by_key f xs of None \<Rightarrow> Some x | Some y \<Rightarrow> if f y < f x then Some y else Some x)"

definition evictable :: "u8 \<Rightarrow> page_meta \<Rightarrow> bool" where
  "evictable i m \<longleftrightarrow> pm_backend_id m = i \<and> \<not> pf_contains (pm_flags m) PINNED"

definition lru_key :: "page_meta \<Rightarrow> instant \<times> u32" where
  "lru_key m = (pm_last_access m, pm_access_count m)"

type_synonym page_order = "(u64 \<times> page_meta) list \<Rightarrow> (u64 \<times> page_meta) list"

definition permutes_entries :: "page_order \<Rightarrow> bool" where
  "permutes_entries it \<longleftrightarrow> (\<forall>xs. mset (it xs) = mset xs)"

definition find_eviction_candidate :: "page_order \<Rightarrow> policy_engine \<Rightarrow> u8 \<Rightarrow> u64 option" where
  "find_eviction_candidate it p i =
     map_option fst
       (min_by_key (\<lambda>(_, m). lru_key m) (filter (\<lambda>(_, m). evictable i m) (it (pe_pages p))))"

definition find_eviction_candidates :: "page_order \<Rightarrow> policy_engine \<Rightarrow> u8 \<Rightarrow> usize \<Rightarrow> u64 list" where
  "find_eviction_candidates it p i n =
     map fst
       (take (unat n)
         (sort_key (\<lambda>(_, m). lru_key m) (filter (\<lambda>(_, m). evictable i m) (it (pe_pages p)))))"

section \<open>Lemmas\<close>

definition policy_ok :: "policy_engine \<Rightarrow> bool" where
  "policy_ok p \<longleftrightarrow> hm_ok (pe_pages p)"

lemmas policy_ops = record_store_def record_load_def policy_remove_def set_flag_def clear_flag_def

lemma policy_ok_ops [simp]:
  "policy_ok (policy_new s)"
  "policy_ok p \<Longrightarrow> policy_ok (record_store p x h i t now)"
  "policy_ok p \<Longrightarrow> policy_ok (record_load p x now)"
  "policy_ok p \<Longrightarrow> policy_ok (snd (policy_remove p x))"
  "policy_ok p \<Longrightarrow> policy_ok (set_flag p x flag)"
  "policy_ok p \<Longrightarrow> policy_ok (clear_flag p x flag)"
  by (auto simp: policy_ok_def policy_ops policy_new_def split: option.splits)

lemma lookup_record_store:
  "policy_lookup (record_store p x h i t now) =
     (policy_lookup p)(x \<mapsto> \<lparr>pm_handle = h, pm_backend_id = i, pm_tier = t, pm_access_count = 0,
                             pm_last_access = now, pm_flags = pf_empty\<rparr>)"
  by (simp add: policy_lookup_def record_store_def fun_eq_iff)

lemma lookup_remove:
  "policy_remove p x = (policy_lookup p x, p') \<longleftrightarrow> p' = snd (policy_remove p x)"
  "policy_lookup (snd (policy_remove p x)) = (policy_lookup p)(x := None)"
  by (auto simp: policy_lookup_def policy_remove_def fun_eq_iff)

lemma lookup_record_load:
  "policy_lookup (record_load p x now) =
     (\<lambda>y. if y = x then map_option (\<lambda>m. m\<lparr>pm_access_count := saturating_inc (pm_access_count m),
                                           pm_last_access := now\<rparr>) (policy_lookup p x)
          else policy_lookup p y)"
  by (auto simp: policy_lookup_def record_load_def fun_eq_iff split: option.splits)

lemma min_by_key_None [simp]: "min_by_key f xs = None \<longleftrightarrow> xs = []"
  by (cases xs) (auto split: option.splits)

lemma min_by_key_Some: "min_by_key f xs = Some x \<Longrightarrow> x \<in> set xs \<and> (\<forall>y \<in> set xs. f x \<le> f y)"
proof (induction xs arbitrary: x)
  case (Cons y ys)
  show ?case
  proof (cases "min_by_key f ys")
    case (Some z)
    then have "z \<in> set ys" "\<forall>y \<in> set ys. f z \<le> f y" using Cons.IH by auto
    with Cons.prems Some show ?thesis by (fastforce split: if_splits)
  qed (use Cons.prems in auto)
qed simp

lemma sort_key_hd: "sort_key f xs = y # ys \<Longrightarrow> min_by_key f xs = Some y"
proof (induction xs arbitrary: y ys)
  case (Cons x xs)
  show ?case
  proof (cases "sort_key f xs")
    case Nil
    then have "xs = []" by (metis length_0_conv length_sort)
    with Cons.prems show ?thesis by simp
  next
    case s: (Cons z zs)
    from Cons.IH [OF s] have "min_by_key f xs = Some z" .
    with Cons.prems s show ?thesis by (auto split: if_splits)
  qed
qed simp

lemma set_page_order: "permutes_entries it \<Longrightarrow> set (it xs) = set xs"
  unfolding permutes_entries_def by (metis set_mset_mset)

text \<open>Three pages: 7 is pinned, 8 is the oldest of the others.\<close>

definition sample_meta :: "instant \<Rightarrow> page_flags \<Rightarrow> page_meta" where
  "sample_meta t f = \<lparr>pm_handle = ph_INVALID, pm_backend_id = 3, pm_tier = Compressed,
     pm_access_count = 0, pm_last_access = t, pm_flags = f\<rparr>"

definition sample_policy :: policy_engine where
  "sample_policy =
     \<lparr>pe_pages = [(9, sample_meta 20 pf_empty), (7, sample_meta 5 PINNED), (8, sample_meta 10 pf_empty)],
      pe_strategy = Lru\<rparr>"

lemma sample_policy_facts:
  "policy_ok sample_policy" "permutes_entries rev"
  "find_eviction_candidate rev sample_policy 3 = Some 8"
  "find_eviction_candidates rev sample_policy 3 5 = [8, 9]"
  by (simp_all add: sample_policy_def sample_meta_def policy_ok_def hm_ok_def permutes_entries_def
      find_eviction_candidate_def find_eviction_candidates_def evictable_def lru_key_def pf_defs pf_empty_def PINNED_def)

section \<open>Properties\<close>

fun tier_rank :: "tier \<Rightarrow> nat" where
  "tier_rank Compressed = 0"
| "tier_rank Cxl = 1"
| "tier_rank Rdma = 2"
| "tier_rank Gpu = 3"
| "tier_rank Local = 4"

lemma select_tier_from_Cons:
  "select_tier_from (t # ts) caps =
     (if \<exists>c \<in> set caps. bcap_tier c = t \<and> has_capacity c then Some t
      else select_tier_from ts caps)"
  by (simp add: filter_empty_conv)

lemma select_tier_None:
  "select_tier p caps = None \<longleftrightarrow> (\<forall>c \<in> set caps. \<not> has_capacity c)"
proof -
  have "select_tier_from ts caps = None \<longleftrightarrow> (\<forall>c \<in> set caps. has_capacity c \<longrightarrow> bcap_tier c \<notin> set ts)" for ts
    by (induction ts) (auto simp: Let_def filter_empty_conv)
  moreover have "t \<in> set tier_preference" for t
    by (cases t) (simp_all add: tier_preference_def)
  ultimately show ?thesis
    by (simp add: select_tier_def select_tier_lru_def split: strategy.split)
qed

text \<open>
  C28: \<^verbatim>\<open>select_tier\<close> returns a tier exactly when a healthy backend of that tier has room and no
  backend of a tier that comes earlier in the documented order (compressed, CXL, RDMA, GPU,
  local) does.
\<close>

theorem select_tier_spec:
  "select_tier p caps = Some t \<longleftrightarrow>
     (\<exists>c \<in> set caps. bcap_tier c = t \<and> has_capacity c) \<and>
     (\<forall>c \<in> set caps. has_capacity c \<longrightarrow> tier_rank t \<le> tier_rank (bcap_tier c))"
proof -
  define avail where "avail u \<longleftrightarrow> (\<exists>c \<in> set caps. bcap_tier c = u \<and> has_capacity c)" for u
  have le: "(\<forall>c \<in> set caps. has_capacity c \<longrightarrow> tier_rank t \<le> tier_rank (bcap_tier c)) \<longleftrightarrow>
        (\<forall>u. avail u \<longrightarrow> tier_rank t \<le> tier_rank u)"
    by (auto simp: avail_def)
  have all: "(\<forall>u. P u) \<longleftrightarrow> P Compressed \<and> P Cxl \<and> P Rdma \<and> P Gpu \<and> P Local" for P
    by (metis tier.exhaust)
  have "select_tier p caps = Some t \<longleftrightarrow> avail t \<and> (\<forall>u. avail u \<longrightarrow> tier_rank t \<le> tier_rank u)"
    unfolding all select_tier_def select_tier_lru_def tier_preference_def select_tier_from_Cons
      avail_def [symmetric]
    by (cases t) (simp_all split: strategy.split)
  then show ?thesis unfolding le by (simp add: avail_def)
qed

theorem select_tier_spec_witness:
  "select_tier (policy_new Lru)
     [\<lparr>bcap_backend_id = 0, bcap_tier = Compressed, bcap_total_pages = 4, bcap_used_pages = 4,
       bcap_latency_ns = 100, bcap_healthy = True\<rparr>,
      \<lparr>bcap_backend_id = 2, bcap_tier = Rdma, bcap_total_pages = 4, bcap_used_pages = 1,
       bcap_latency_ns = 5000, bcap_healthy = True\<rparr>] = Some Rdma"
  unfolding select_tier_spec by (simp add: has_capacity_def)

lemma lru_key_le:
  "lru_key m \<le> lru_key n \<longleftrightarrow> pm_last_access m < pm_last_access n \<or>
     pm_last_access m = pm_last_access n \<and> pm_access_count m \<le> pm_access_count n"
  by (simp add: lru_key_def less_eq_prod_def le_less) (metis order.strict_iff_order)

text \<open>
  C27: the page \<^verbatim>\<open>find_eviction_candidate\<close> returns is tracked, is on the backend asked for and is
  not pinned, and no other such page was accessed less recently, or at the same time and less
  often; this holds whatever the order in which the page map is searched.
\<close>

theorem eviction_candidate_lru:
  assumes "permutes_entries it" and "policy_ok p" and "find_eviction_candidate it p i = Some x"
  shows "\<exists>m. policy_lookup p x = Some m \<and> pm_backend_id m = i \<and> \<not> pf_contains (pm_flags m) PINNED \<and>
     (\<forall>y n. policy_lookup p y = Some n \<longrightarrow> pm_backend_id n = i \<longrightarrow> \<not> pf_contains (pm_flags n) PINNED \<longrightarrow>
        pm_last_access m < pm_last_access n \<or>
        pm_last_access m = pm_last_access n \<and> pm_access_count m \<le> pm_access_count n)"
proof -
  from assms(3) obtain m where
    m: "min_by_key (\<lambda>(_, m). lru_key m) (filter (\<lambda>(_, m). evictable i m) (it (pe_pages p))) = Some (x, m)"
    by (auto simp: find_eviction_candidate_def)
  have mem: "policy_lookup p y = Some n \<longleftrightarrow> (y, n) \<in> set (it (pe_pages p))" for y n
    using assms(2) by (simp add: policy_lookup_def policy_ok_def hm_get_iff set_page_order [OF assms(1)])
  from min_by_key_Some [OF m] have "policy_lookup p x = Some m" "evictable i m"
    "\<And>y n. policy_lookup p y = Some n \<Longrightarrow> evictable i n \<Longrightarrow> lru_key m \<le> lru_key n"
    by (auto simp: mem)
  then show ?thesis by (intro exI [of _ m]) (auto simp: evictable_def simp flip: lru_key_le)
qed

theorem eviction_candidate_lru_witness:
  "\<exists>m. policy_lookup sample_policy 8 = Some m \<and> pm_backend_id m = 3 \<and>
     \<not> pf_contains (pm_flags m) PINNED \<and> pm_last_access m \<le> 20"
proof -
  have "policy_lookup sample_policy 9 = Some (sample_meta 20 pf_empty)"
    by (simp add: sample_policy_def policy_lookup_def)
  moreover have "pm_backend_id (sample_meta 20 pf_empty) = 3"
    "\<not> pf_contains (pm_flags (sample_meta 20 pf_empty)) PINNED" "pm_last_access (sample_meta 20 pf_empty) = 20"
    by (simp_all add: sample_meta_def pf_defs pf_empty_def PINNED_def)
  moreover obtain m where m: "policy_lookup sample_policy 8 = Some m" "pm_backend_id m = 3"
    "\<not> pf_contains (pm_flags m) PINNED"
    "\<And>y n. policy_lookup sample_policy y = Some n \<Longrightarrow> pm_backend_id n = 3 \<Longrightarrow>
       \<not> pf_contains (pm_flags n) PINNED \<Longrightarrow> pm_last_access m \<le> pm_last_access n"
    using eviction_candidate_lru [OF sample_policy_facts(2,1,3)] by fastforce
  ultimately show ?thesis by fastforce
qed

lemma eviction_candidate_None:
  assumes "permutes_entries it" and "policy_ok p"
  shows "find_eviction_candidate it p i = None \<longleftrightarrow> (\<forall>x m. policy_lookup p x = Some m \<longrightarrow> \<not> evictable i m)"
proof -
  have "policy_lookup p x = Some m \<longleftrightarrow> (x, m) \<in> set (it (pe_pages p))" for x m
    using assms(2) by (simp add: policy_lookup_def policy_ok_def hm_get_iff set_page_order [OF assms(1)])
  then show ?thesis by (auto simp: find_eviction_candidate_def filter_empty_conv)
qed

text \<open>
  \<^verbatim>\<open>find_eviction_candidates\<close> returns distinct, evictable pages in least-recently-used order,
  and leaves out an evictable page only when it already has the number asked for, all of them at
  least as old.
\<close>

theorem eviction_candidates_spec:
  assumes "permutes_entries it" and "policy_ok p"
  shows "\<exists>ms. map fst ms = find_eviction_candidates it p i n \<and>
     sorted (map (lru_key \<circ> snd) ms) \<and> distinct (map fst ms) \<and>
     (\<forall>(x, m) \<in> set ms. policy_lookup p x = Some m \<and> evictable i m) \<and>
     (\<forall>y k. policy_lookup p y = Some k \<longrightarrow> evictable i k \<longrightarrow> y \<notin> fst ` set ms \<longrightarrow>
        length ms = unat n \<and> (\<forall>(x, m) \<in> set ms. lru_key m \<le> lru_key k))"
proof -
  define all where "all = sort_key (\<lambda>(_, m). lru_key m) (filter (\<lambda>(_, m). evictable i m) (it (pe_pages p)))"
  let ?ms = "take (unat n) all"
  have mem: "(y, k) \<in> set all \<longleftrightarrow> policy_lookup p y = Some k \<and> evictable i k" for y k
    using assms(2) by (auto simp: all_def policy_lookup_def policy_ok_def hm_get_iff set_page_order [OF assms(1)])
  have srt: "sorted (map (lru_key \<circ> snd) all)"
    unfolding all_def by (metis (no_types, lifting) comp_apply case_prod_beta' sorted_sort_key map_eq_conv)
  have "mset (it (pe_pages p)) = mset (pe_pages p)" using assms(1) by (simp add: permutes_entries_def)
  then have "distinct (map fst (it (pe_pages p)))"
    using assms(2) unfolding policy_ok_def hm_ok_def
    by (metis mset_map mset_eq_imp_distinct_iff)
  then have "distinct (map fst (filter (\<lambda>(_, m). evictable i m) (it (pe_pages p))))"
    by (rule distinct_map_filter)
  then have dst: "distinct (map fst all)"
    unfolding all_def by (metis (no_types, lifting) mset_map mset_sort mset_eq_imp_distinct_iff)
  have le: "lru_key m \<le> lru_key k"
    if "(x, m) \<in> set ?ms" "(y, k) \<in> set (drop (unat n) all)" for x m y k
  proof -
    have "sorted (map (lru_key \<circ> snd) ?ms @ map (lru_key \<circ> snd) (drop (unat n) all))"
      using srt by (metis append_take_drop_id map_append)
    with that show ?thesis unfolding sorted_append by fastforce
  qed
  have "length ?ms = unat n \<and> (\<forall>(x, m) \<in> set ?ms. lru_key m \<le> lru_key k)"
    if "policy_lookup p y = Some k" "evictable i k" "y \<notin> fst ` set ?ms" for y k
  proof -
    have "(y, k) \<in> set ?ms \<union> set (drop (unat n) all)"
      using that(1,2) mem by (metis append_take_drop_id set_append)
    with that(3) have "(y, k) \<in> set (drop (unat n) all)" by force
    then show ?thesis using le by (cases "length all \<le> unat n") auto
  qed
  moreover have "map fst ?ms = find_eviction_candidates it p i n"
    by (simp add: find_eviction_candidates_def all_def)
  moreover have "sorted (map (lru_key \<circ> snd) ?ms)" "distinct (map fst ?ms)"
    using srt dst by (simp_all add: sorted_wrt_take distinct_take flip: take_map)
  moreover have "\<forall>(x, m) \<in> set ?ms. policy_lookup p x = Some m \<and> evictable i m"
    using mem by (auto dest: in_set_takeD)
  ultimately show ?thesis by blast
qed

theorem eviction_candidates_spec_witness:
  "\<exists>ms :: (u64 \<times> page_meta) list. map fst ms = [8, 9] \<and> sorted (map (lru_key \<circ> snd) ms) \<and> distinct (map fst ms)"
  using eviction_candidates_spec [OF sample_policy_facts(2,1), of 3 5]
  unfolding sample_policy_facts(4) by (elim exE conjE) (intro exI conjI)

text \<open>The single search and the batch search agree on the first candidate.\<close>

theorem candidates_head:
  assumes "0 < n"
  shows "find_eviction_candidate it p i =
    (case find_eviction_candidates it p i n of [] \<Rightarrow> None | x # _ \<Rightarrow> Some x)"
proof -
  let ?xs = "filter (\<lambda>(_, m). evictable i m) (it (pe_pages p))"
  have "0 < unat n" using assms by (simp add: word_less_nat_alt)
  then obtain k where k: "unat n = Suc k" by (metis gr0_implies_Suc)
  show ?thesis
  proof (cases "sort_key (\<lambda>(_, m). lru_key m) ?xs")
    case Nil
    then have "?xs = []" by (metis length_0_conv length_sort)
    then show ?thesis
      by (simp add: find_eviction_candidate_def find_eviction_candidates_def)
  next
    case (Cons y ys)
    with sort_key_hd [OF Cons] k show ?thesis
      by (simp add: find_eviction_candidate_def find_eviction_candidates_def)
  qed
qed

theorem candidates_head_witness:
  "find_eviction_candidate rev sample_policy 3 = Some 8 \<and>
   find_eviction_candidates rev sample_policy 3 5 = [8, 9]"
  using candidates_head [of 5 rev sample_policy 3] sample_policy_facts(4) by simp

lemma lookup_set_flag:
  "policy_lookup (set_flag p x flag) =
     (\<lambda>y. if y = x then map_option (\<lambda>m. m\<lparr>pm_flags := pf_bitor (pm_flags m) flag\<rparr>) (policy_lookup p x)
          else policy_lookup p y)"
  by (auto simp: policy_lookup_def set_flag_def fun_eq_iff split: option.splits)

lemma lookup_clear_flag:
  "policy_lookup (clear_flag p x flag) =
     (\<lambda>y. if y = x then map_option (\<lambda>m. m\<lparr>pm_flags := pf_bitand (pm_flags m) (pf_not flag)\<rparr>)
            (policy_lookup p x)
          else policy_lookup p y)"
  by (auto simp: policy_lookup_def clear_flag_def fun_eq_iff split: option.splits)

lemma find_eviction_candidates_evictable:
  assumes "permutes_entries it" and "policy_ok p" and "x \<in> set (find_eviction_candidates it p i n)"
  shows "\<exists>m. policy_lookup p x = Some m \<and> evictable i m"
  using assms(2,3)
  by (auto simp: find_eviction_candidates_def set_page_order [OF assms(1)] policy_lookup_def
      policy_ok_def hm_get_iff dest!: in_set_takeD)

lemma pf_contains_bitor: "pf_contains (pf_bitor a b) b"
  by (auto simp: pf_defs bit_eq_iff bit_and_iff bit_or_iff)

text \<open>
  Once a page is pinned with \<^verbatim>\<open>set_flag\<close>, the batch search for eviction candidates leaves
  it out, on whichever backend and for whatever number of candidates.
\<close>

theorem pinned_not_candidate:
  assumes "permutes_entries it" and "policy_ok p"
  shows "x \<notin> set (find_eviction_candidates it (set_flag p x PINNED) i n)"
  using find_eviction_candidates_evictable [OF assms(1), of "set_flag p x PINNED" x i n] assms(2)
  by (auto simp: lookup_set_flag evictable_def pf_contains_bitor)

theorem pinned_not_candidate_witness:
  "8 \<notin> set (find_eviction_candidates rev (set_flag sample_policy 8 PINNED) 3 5)"
  using pinned_not_candidate [OF sample_policy_facts(2,1)] .

end
