(* ===== verification/Stats.thy ===== *)
theory Stats
  imports Prelude
begin

text \<open>
  The daemon's counters, \<^verbatim>\<open>crates/duvm-common/src/stats.rs\<close>: eight atomic \<^verbatim>\<open>u64\<close>s, each of
  which wraps around, and a snapshot that reads them all.
\<close>

record daemon_stats =
  pages_stored :: u64
  pages_loaded :: u64
  pages_invalidated :: u64
  pages_prefetched :: u64
  store_errors :: u64
  load_errors :: u64
  fallback_events :: u64
  ring_full_events :: u64

definition stats_new :: daemon_stats where
  "stats_new =
     \<lparr>pages_stored = 0, pages_loaded = 0, pages_invalidated = 0, pages_prefetched = 0,
      store_errors = 0, load_errors = 0, fallback_events = 0, ring_full_events = 0\<rparr>"

record stats_snapshot =
  ss_pages_stored :: u64
  ss_pages_loaded :: u64
  ss_pages_invalidated :: u64
  ss_pages_prefetched :: u64
  ss_store_errors :: u64
  ss_load_errors :: u64
  ss_fallback_events :: u64
  ss_ring_full_events :: u64

definition snapshot :: "daemon_stats \<Rightarrow> stats_snapshot" where
  "snapshot s =
     \<lparr>ss_pages_stored = pages_stored s, ss_pages_loaded = pages_loaded s,
      ss_pages_invalidated = pages_invalidated s, ss_pages_prefetched = pages_prefetched s,
      ss_store_errors = store_errors s, ss_load_errors = load_errors s,
      ss_fallback_events = fallback_events s, ss_ring_full_events = ring_full_events s\<rparr>"

text \<open>The increments the engine performs.\<close>

abbreviation inc_stored :: "daemon_stats \<Rightarrow> daemon_stats" where
  "inc_stored s \<equiv> s\<lparr>pages_stored := pages_stored s + 1\<rparr>"

abbreviation inc_loaded :: "daemon_stats \<Rightarrow> daemon_stats" where
  "inc_loaded s \<equiv> s\<lparr>pages_loaded := pages_loaded s + 1\<rparr>"

abbreviation inc_invalidated :: "daemon_stats \<Rightarrow> daemon_stats" where
  "inc_invalidated s \<equiv> s\<lparr>pages_invalidated := pages_invalidated s + 1\<rparr>"

abbreviation inc_store_errors :: "daemon_stats \<Rightarrow> daemon_stats" where
  "inc_store_errors s \<equiv> s\<lparr>store_errors := store_errors s + 1\<rparr>"

abbreviation inc_load_errors :: "daemon_stats \<Rightarrow> daemon_stats" where
  "inc_load_errors s \<equiv> s\<lparr>load_errors := load_errors s + 1\<rparr>"

end
