(* ===== verification/Config.thy ===== *)
theory Config
  imports Prelude
begin

text \<open>
  The daemon's configuration, \<^verbatim>\<open>crates/duvm-daemon/src/config.rs\<close>. The file system and the
  TOML parser are arguments of \<open>load_or_default\<close>.
\<close>

section \<open>Sections\<close>

record daemon_section =
  log_level :: string
  socket_path :: string
  metrics_port :: u16

record policy_section =
  strategy_name :: string
  prefetch_depth :: usize

record memory_backend_config =
  mbc_enabled :: bool
  mbc_max_pages :: u64

record compress_backend_config =
  cbc_enabled :: bool
  cbc_max_pages :: u64

record remote_backend_config =
  rbc_enabled :: bool
  rbc_transport :: string
  rbc_peers :: "string list"
  rbc_max_pages_per_peer :: u64

record backends_section =
  bs_memory :: "memory_backend_config option"
  bs_compress :: "compress_backend_config option"
  bs_remote :: "remote_backend_config option"

record daemon_config =
  dc_daemon :: daemon_section
  dc_policy :: policy_section
  dc_backends :: backends_section

section \<open>Defaults\<close>

definition default_max_pages :: u64 where
  "default_max_pages = 262144"

definition default_daemon_section :: daemon_section where
  "default_daemon_section =
     \<lparr>log_level = ''info'', socket_path = ''/run/duvm/duvm.sock'', metrics_port = 9100\<rparr>"

definition default_policy_section :: policy_section where
  "default_policy_section = \<lparr>strategy_name = ''lru'', prefetch_depth = 4\<rparr>"

definition default_backends_section :: backends_section where
  "default_backends_section =
     \<lparr>bs_memory = Some \<lparr>mbc_enabled = True, mbc_max_pages = default_max_pages\<rparr>,
      bs_compress = Some \<lparr>cbc_enabled = True, cbc_max_pages = default_max_pages\<rparr>,
      bs_remote = None\<rparr>"

definition default_config :: daemon_config where
  "default_config =
     \<lparr>dc_daemon = default_daemon_section, dc_policy = default_policy_section,
      dc_backends = default_backends_section\<rparr>"

section \<open>Validation, overrides and loading\<close>

datatype config_error = MemoryMaxPagesZero | CompressMaxPagesZero | UnknownStrategy string

definition validate :: "daemon_config \<Rightarrow> config_error + unit" where
  "validate c =
     (if (case bs_memory (dc_backends c) of
            Some m \<Rightarrow> mbc_enabled m \<and> mbc_max_pages m = 0 | None \<Rightarrow> False)
      then Inl MemoryMaxPagesZero
      else if (case bs_compress (dc_backends c) of
            Some m \<Rightarrow> cbc_enabled m \<and> cbc_max_pages m = 0 | None \<Rightarrow> False)
      then Inl CompressMaxPagesZero
      else if strategy_name (dc_policy c) = ''lru'' then Inr ()
      else Inl (UnknownStrategy (strategy_name (dc_policy c))))"

definition apply_cli_overrides ::
  "daemon_config \<Rightarrow> string option \<Rightarrow> string option \<Rightarrow> daemon_config" where
  "apply_cli_overrides c socket level =
     (let c1 = (case socket of
                  Some p \<Rightarrow> c\<lparr>dc_daemon := (dc_daemon c)\<lparr>socket_path := p\<rparr>\<rparr> | None \<Rightarrow> c)
      in case level of
           Some l \<Rightarrow> c1\<lparr>dc_daemon := (dc_daemon c1)\<lparr>log_level := l\<rparr>\<rparr> | None \<Rightarrow> c1)"

text \<open>
  \<open>exists_file\<close> and \<open>read_file\<close> are the file system (\<^verbatim>\<open>None\<close> is a failed read), \<open>parse\<close> the TOML
  parser with the derived deserialiser.
\<close>

definition load_or_default ::
  "(string \<Rightarrow> bool) \<Rightarrow> (string \<Rightarrow> string option) \<Rightarrow> (string \<Rightarrow> daemon_config option) \<Rightarrow> string
   \<Rightarrow> daemon_config" where
  "load_or_default exists_file read_file parse path =
     (if exists_file path then
        (case read_file path of
           Some content \<Rightarrow>
             (case parse content of
                Some config \<Rightarrow>
                  (case validate config of
                     Inl e \<Rightarrow> default_config
                   | Inr u \<Rightarrow> config)
              | None \<Rightarrow> default_config)
         | None \<Rightarrow> default_config)
      else default_config)"

lemmas default_config_defs = default_config_def default_backends_section_def
  default_policy_section_def default_daemon_section_def default_max_pages_def

lemma validate_default: "validate default_config = Inr ()"
  by (simp add: validate_def default_config_defs)

lemma validate_overrides: "validate (apply_cli_overrides c s l) = validate c"
  by (simp add: validate_def apply_cli_overrides_def Let_def split: option.splits)

section \<open>Properties\<close>

text \<open>
  Whatever the file holds and whatever the overrides are, the configuration the daemon
  runs with passes \<^verbatim>\<open>validate\<close>: every enabled local backend has room for a page and the
  strategy is one the policy engine knows. A file that passes is used as it is.
\<close>

theorem loaded_config_valid:
  "validate (apply_cli_overrides (load_or_default ex rd ps path) s l) = Inr () \<and>
   (\<forall>content c. ex path \<longrightarrow> rd path = Some content \<longrightarrow> ps content = Some c \<longrightarrow>
      validate c = Inr () \<longrightarrow> load_or_default ex rd ps path = c)"
  by (auto simp: validate_overrides load_or_default_def validate_default
      split: option.splits sum.splits)

theorem loaded_config_valid_witness:
  "load_or_default (\<lambda>_. True) (\<lambda>_. Some ''lru'')
     (\<lambda>s. Some (default_config\<lparr>dc_policy := \<lparr>strategy_name = s, prefetch_depth = 8\<rparr>\<rparr>)) ''duvm.toml''
   = default_config\<lparr>dc_policy := \<lparr>strategy_name = ''lru'', prefetch_depth = 8\<rparr>\<rparr>"
proof -
  have "validate (default_config\<lparr>dc_policy := \<lparr>strategy_name = ''lru'', prefetch_depth = 8\<rparr>\<rparr>) = Inr ()"
    by (simp add: validate_def default_config_defs)
  then show ?thesis
    using loaded_config_valid [of "\<lambda>_. True" "\<lambda>_. Some ''lru''"
      "\<lambda>s. Some (default_config\<lparr>dc_policy := \<lparr>strategy_name = s, prefetch_depth = 8\<rparr>\<rparr>)" "''duvm.toml''"]
    by blast
qed

end
