(* ===== verification/Std_Text.thy ===== *)
theory Std_Text
  imports Prelude
begin

text \<open>
  The string functions of the Rust standard library that the sources use: \<^verbatim>\<open>trim\<close>, \<^verbatim>\<open>split\<close>, the parsers
  \<^verbatim>\<open>str::parse\<close> of \<^verbatim>\<open>u16\<close> and \<^verbatim>\<open>Ipv4Addr\<close>, and the decimal form of an unsigned integer that
  \<^verbatim>\<open>format!\<close> and \<^verbatim>\<open>to_string\<close> print. Strings are lists of 8-bit characters.
\<close>

section \<open>Splitting\<close>

fun split_on :: "char \<Rightarrow> string \<Rightarrow> string list" where
  "split_on c [] = [[]]"
| "split_on c (x # xs) =
     (if x = c then [] # split_on c xs
      else (x # hd (split_on c xs)) # tl (split_on c xs))"

lemma split_on_not_Nil [simp]: "split_on c s \<noteq> []"
  by (cases s) auto

lemma split_on_no_sep: "c \<notin> set s \<Longrightarrow> split_on c s = [s]"
  by (induction s) auto

lemma split_on_append: "c \<notin> set s \<Longrightarrow> split_on c (s @ c # t) = s # split_on c t"
  by (induction s) auto

text \<open>\<^verbatim>\<open>str::trim\<close>, with the white space of ASCII.\<close>

definition is_space :: "char \<Rightarrow> bool" where
  "is_space c \<longleftrightarrow> c \<in> {CHR '' '', CHR 0x09, CHR 0x0A, CHR 0x0B, CHR 0x0C, CHR 0x0D}"

definition trim :: "string \<Rightarrow> string" where
  "trim s = rev (dropWhile is_space (rev (dropWhile is_space s)))"

section \<open>Decimal numbers\<close>

definition digit_char :: "nat \<Rightarrow> char" where
  "digit_char d = char_of (48 + d)"

definition char_digit :: "char \<Rightarrow> nat option" where
  "char_digit c = (let n = of_char c :: nat in if 48 \<le> n \<and> n \<le> 57 then Some (n - 48) else None)"

fun show_nat :: "nat \<Rightarrow> string" where
  "show_nat n = (if n < 10 then [digit_char n] else show_nat (n div 10) @ [digit_char (n mod 10)])"

declare show_nat.simps [simp del]

text \<open>Reading digits from the left, as the parser does; it fails on the empty string.\<close>

fun read_digits :: "nat \<Rightarrow> string \<Rightarrow> nat option" where
  "read_digits acc [] = Some acc"
| "read_digits acc (c # cs) =
     (case char_digit c of None \<Rightarrow> None | Some d \<Rightarrow> read_digits (10 * acc + d) cs)"

text \<open>\<^verbatim>\<open>from_str_radix\<close> allows one leading plus sign.\<close>

definition parse_nat :: "string \<Rightarrow> nat option" where
  "parse_nat s =
     (let ds = (case s of c # cs \<Rightarrow> if c = CHR ''+'' then cs else s | [] \<Rightarrow> s) in
      if ds = [] then None else read_digits 0 ds)"

definition parse_u16 :: "string \<Rightarrow> u16 option" where
  "parse_u16 s =
     (case parse_nat s of
        Some n \<Rightarrow> if n < 2 ^ 16 then Some (of_nat n) else None
      | None \<Rightarrow> None)"

text \<open>An octet of an address: one to three digits, no leading zero, at most 255.\<close>

definition parse_octet :: "string \<Rightarrow> u8 option" where
  "parse_octet s =
     (if s = [] \<or> length s > 3 \<or> (length s > 1 \<and> hd s = CHR ''0'') then None
      else (case read_digits 0 s of
              Some n \<Rightarrow> if n < 256 then Some (of_nat n) else None
            | None \<Rightarrow> None))"

definition parse_ipv4 :: "string \<Rightarrow> u8 list option" where
  "parse_ipv4 s =
     (case map parse_octet (split_on CHR ''.'' s) of
        [Some a, Some b, Some c, Some d] \<Rightarrow> Some [a, b, c, d]
      | _ \<Rightarrow> None)"

section \<open>What was printed can be read\<close>

lemma char_digit_digit_char: "d < 10 \<Longrightarrow> char_digit (digit_char d) = Some d"
  by (simp add: char_digit_def digit_char_def Let_def)

lemma read_digits_append:
  "read_digits acc (xs @ ys) =
     (case read_digits acc xs of None \<Rightarrow> None | Some n \<Rightarrow> read_digits n ys)"
  by (induction acc xs rule: read_digits.induct) (auto split: option.split)

lemma read_digits_show_nat: "read_digits 0 (show_nat n) = Some n"
proof (induction n rule: show_nat.induct)
  case (1 n)
  show ?case
  proof (cases "n < 10")
    case True
    then show ?thesis by (simp add: show_nat.simps [of n] char_digit_digit_char)
  next
    case False
    then show ?thesis using 1
      by (simp add: show_nat.simps [of n] read_digits_append char_digit_digit_char)
  qed
qed

lemma show_nat_not_Nil [simp]: "show_nat n \<noteq> []"
  by (simp add: show_nat.simps [of n])

lemma show_nat_chars: "c \<in> set (show_nat n) \<Longrightarrow> char_digit c \<noteq> None"
proof (induction n rule: show_nat.induct)
  case (1 n)
  then show ?case
    by (subst (asm) (2) show_nat.simps) (auto simp: char_digit_digit_char split: if_splits)
qed

lemma digit_not_plus: "char_digit CHR ''+'' = None" "char_digit CHR '':'' = None"
  by (simp_all add: char_digit_def)

lemma parse_show_nat: "parse_nat (show_nat n) = Some n"
proof -
  have "hd (show_nat n) \<noteq> CHR ''+''"
    using show_nat_chars [of "hd (show_nat n)" n] digit_not_plus(1) by (metis hd_in_set show_nat_not_Nil)
  then show ?thesis
    using read_digits_show_nat [of n]
    by (cases "show_nat n") (auto simp: parse_nat_def Let_def)
qed

lemma parse_u16_show: "n < 2 ^ 16 \<Longrightarrow> parse_u16 (show_nat n) = Some (of_nat n)"
  by (simp add: parse_u16_def parse_show_nat)

text \<open>The port of an address \<^verbatim>\<open>host:port\<close>.\<close>

lemma port_of_address:
  assumes "CHR '':'' \<notin> set host" and "n < 2 ^ 16"
  shows "parse_u16 (last (split_on CHR '':'' (host @ CHR '':'' # show_nat n))) = Some (of_nat n)"
    and "hd (split_on CHR '':'' (host @ CHR '':'' # show_nat n)) = host"
proof -
  have "CHR '':'' \<notin> set (show_nat n)" using show_nat_chars digit_not_plus(2) by blast
  then have "split_on CHR '':'' (host @ CHR '':'' # show_nat n) = [host, show_nat n]"
    using assms(1) by (simp add: split_on_append split_on_no_sep)
  then show "parse_u16 (last (split_on CHR '':'' (host @ CHR '':'' # show_nat n))) = Some (of_nat n)"
    and "hd (split_on CHR '':'' (host @ CHR '':'' # show_nat n)) = host"
    using assms(2) by (simp_all add: parse_u16_show)
qed

end
