(* ===== verification/Engine.thy ===== *)
theory Engine
  imports Backend_Trait Policy Stats Config Std_Text
begin

text \<open>
  The daemon engine, \<^verbatim>\<open>crates/duvm-daemon/src/engine.rs\<close>: the map of backends, the policy
  and the counters, and the three page operations the kernel ring calls. Every definition
  takes the backends' method table \<open>V\<close>; those that read the clock take it as \<open>now\<close>, and
  those that search the page map take its iteration order as \<open>it\<close>. The list of backends is
  in the order the hash map iterates; it is built once and keeps its keys, so that order
  does not change.
\<close>

section \<open>State\<close>

record 'b engine =
  eng_config :: daemon_config
  eng_backends :: "(u8, 'b) hash_map"
  eng_policy :: policy_engine
  eng_stats :: daemon_stats

definition with_backends :: "daemon_config \<Rightarrow> (u8, 'b) hash_map \<Rightarrow> 'b engine" where
  "with_backends config backends =
     \<lparr>eng_config = config, eng_backends = backends, eng_policy = policy_new Lru,
      eng_stats = stats_new\<rparr>"

abbreviation set_backend :: "'b engine \<Rightarrow> u8 \<Rightarrow> 'b \<Rightarrow> 'b engine" where
  "set_backend e i b \<equiv> e\<lparr>eng_backends := AList.update i b (eng_backends e)\<rparr>"

abbreviation upd_stats :: "(daemon_stats \<Rightarrow> daemon_stats) \<Rightarrow> 'b engine \<Rightarrow> 'b engine" where
  "upd_stats f e \<equiv> e\<lparr>eng_stats := f (eng_stats e)\<rparr>"

section \<open>Capacity and placement\<close>

definition backend_capacities :: "('b, 'w) backend_vt \<Rightarrow> 'b engine \<Rightarrow> backend_capacity list" where
  "backend_capacities V e =
     map (\<lambda>(i, b).
       let (total, used) = vt_capacity V b in
       \<lparr>bcap_backend_id = i, bcap_tier = vt_tier V b, bcap_total_pages = total,
        bcap_used_pages = used, bcap_latency_ns = vt_latency_ns V b,
        bcap_healthy = vt_is_healthy V b\<rparr>) (eng_backends e)"

definition has_room :: "('b, 'w) backend_vt \<Rightarrow> 'b \<Rightarrow> bool" where
  "has_room V b \<longleftrightarrow> (let (total, used) = vt_capacity V b in used < total)"

definition backend_util :: "('b, 'w) backend_vt \<Rightarrow> 'b \<Rightarrow> f64" where
  "backend_util V b =
     (let (total, used) = vt_capacity V b in
      if total = 0 then 1 else f64_div (f64_of_u64 used) (f64_of_u64 total))"

definition tier_backend_candidates :: "('b, 'w) backend_vt \<Rightarrow> 'b engine \<Rightarrow> tier \<Rightarrow> u8 list" where
  "tier_backend_candidates V e t =
     (let exact = map (\<lambda>(i, b). (i, backend_util V b))
            (filter (\<lambda>(_, b). vt_tier V b = t \<and> vt_is_healthy V b \<and> has_room V b) (eng_backends e));
          candidates =
            (if exact = [] then
               map (\<lambda>(i, b). (i, backend_util V b))
                 (filter (\<lambda>(_, b). vt_is_healthy V b \<and> has_room V b) (eng_backends e))
             else exact)
      in map fst (sort_key (\<lambda>(i, util). (util, i)) candidates))"

section \<open>Storing\<close>

text \<open>The page already stored at the offset is dropped and freed; a failure to free is ignored.\<close>

definition free_old_page ::
  "('b, 'w) backend_vt \<Rightarrow> 'b engine \<Rightarrow> u64 \<Rightarrow> 'w \<Rightarrow> unit res \<times> 'b engine \<times> 'w" where
  "free_old_page V e x w =
     (case policy_remove (eng_policy e) x of (old, p) \<Rightarrow>
      let e1 = e\<lparr>eng_policy := p\<rparr> in
      case old of
        None \<Rightarrow> (Ok (), e1, w)
      | Some m \<Rightarrow>
          (case map_of (eng_backends e1) (pm_backend_id m) of
             None \<Rightarrow> (Ok (), e1, w)
           | Some b \<Rightarrow>
               (case vt_free_page V b (pm_handle m) w of (r, b', w') \<Rightarrow>
                (if r = Panic then Panic else Ok (), set_backend e1 (pm_backend_id m) b', w'))))"

text \<open>\<^verbatim>\<open>try_evict_one\<close>, as the loop over the keys of the backend map.\<close>

fun evict_from ::
  "('b, 'w) backend_vt \<Rightarrow> page_order \<Rightarrow> u8 list \<Rightarrow> 'b engine \<Rightarrow> 'w
   \<Rightarrow> u64 option res \<times> 'b engine \<times> 'w" where
  "evict_from V it [] e w = (Ok None, e, w)"
| "evict_from V it (i # is) e w =
     (case find_eviction_candidate it (eng_policy e) i of
        None \<Rightarrow> evict_from V it is e w
      | Some x \<Rightarrow>
          (case policy_remove (eng_policy e) x of
             (None, p) \<Rightarrow> evict_from V it is (e\<lparr>eng_policy := p\<rparr>) w
           | (Some m, p) \<Rightarrow>
               (case map_of (eng_backends e) i of
                  None \<Rightarrow> evict_from V it is (e\<lparr>eng_policy := p\<rparr>) w
                | Some b \<Rightarrow>
                    (case vt_free_page V b (pm_handle m) w of
                       (Ok u, b', w') \<Rightarrow>
                         (Ok (Some x),
                          upd_stats inc_invalidated (set_backend (e\<lparr>eng_policy := p\<rparr>) i b'), w')
                     | (Err er, b', w') \<Rightarrow>
                         evict_from V it is (set_backend (e\<lparr>eng_policy := p\<rparr>) i b') w'
                     | (Panic, b', w') \<Rightarrow>
                         (Panic, set_backend (e\<lparr>eng_policy := p\<rparr>) i b', w')))))"

definition try_evict_one ::
  "('b, 'w) backend_vt \<Rightarrow> page_order \<Rightarrow> 'b engine \<Rightarrow> 'w \<Rightarrow> u64 option res \<times> 'b engine \<times> 'w" where
  "try_evict_one V it e w = evict_from V it (map fst (eng_backends e)) e w"

text \<open>The tier for the new page, evicting one page when every backend is full.\<close>

definition choose_tier ::
  "('b, 'w) backend_vt \<Rightarrow> page_order \<Rightarrow> 'b engine \<Rightarrow> 'w \<Rightarrow> tier res \<times> 'b engine \<times> 'w" where
  "choose_tier V it e w =
     (case select_tier (eng_policy e) (backend_capacities V e) of
        Some t \<Rightarrow> (Ok t, e, w)
      | None \<Rightarrow>
          (case try_evict_one V it e w of
             (Ok (Some evicted), e', w') \<Rightarrow>
               (case select_tier (eng_policy e') (backend_capacities V e') of
                  Some t \<Rightarrow> (Ok t, e', w')
                | None \<Rightarrow> (Err FullAfterEviction, upd_stats inc_store_errors e', w'))
           | (Ok None, e', w') \<Rightarrow> (Err AllBackendsFull, upd_stats inc_store_errors e', w')
           | (Err er, e', w') \<Rightarrow> (Err er, e', w')
           | (Panic, e', w') \<Rightarrow> (Panic, e', w')))"

text \<open>The loop over the candidates; \<open>last_err\<close> is the error of the last one that failed.\<close>

fun store_to ::
  "('b, 'w) backend_vt \<Rightarrow> ('w \<Rightarrow> instant \<times> 'w) \<Rightarrow> u64 \<Rightarrow> page \<Rightarrow> tier \<Rightarrow> u8 list \<Rightarrow> error option
   \<Rightarrow> 'b engine \<Rightarrow> 'w \<Rightarrow> page_handle res \<times> 'b engine \<times> 'w" where
  "store_to V now x d t [] last_err e w =
     (Err (case last_err of Some er \<Rightarrow> er | None \<Rightarrow> NoBackendForTier),
      upd_stats inc_store_errors e, w)"
| "store_to V now x d t (i # is) last_err e w =
     (case map_of (eng_backends e) i of
        None \<Rightarrow> store_to V now x d t is last_err e w
      | Some b \<Rightarrow>
          (case vt_alloc_page V b w of
             (Err er, b1, w1) \<Rightarrow> store_to V now x d t is (Some er) (set_backend e i b1) w1
           | (Panic, b1, w1) \<Rightarrow> (Panic, set_backend e i b1, w1)
           | (Ok h, b1, w1) \<Rightarrow>
               (case vt_store_page V b1 h d w1 of
                  (Err er, b2, w2) \<Rightarrow>
                    (case vt_free_page V b2 h w2 of (r, b3, w3) \<Rightarrow>
                     if r = Panic then (Panic, set_backend e i b3, w3)
                     else store_to V now x d t is (Some er) (set_backend e i b3) w3)
                | (Panic, b2, w2) \<Rightarrow> (Panic, set_backend e i b2, w2)
                | (Ok u, b2, w2) \<Rightarrow>
                    (case now w2 of (tm, w3) \<Rightarrow>
                     (Ok h,
                      upd_stats inc_stored
                        ((set_backend e i b2)\<lparr>eng_policy := record_store (eng_policy e) x h i t tm\<rparr>),
                      w3)))))"

definition store_page ::
  "('b, 'w) backend_vt \<Rightarrow> ('w \<Rightarrow> instant \<times> 'w) \<Rightarrow> page_order \<Rightarrow> 'b engine \<Rightarrow> u64 \<Rightarrow> page \<Rightarrow> 'w
   \<Rightarrow> page_handle res \<times> 'b engine \<times> 'w" where
  "store_page V now it e x d w =
     (case free_old_page V e x w of
        (Ok u, e1, w1) \<Rightarrow>
          (case choose_tier V it e1 w1 of
             (Ok t, e2, w2) \<Rightarrow>
               store_to V now x d t (tier_backend_candidates V e2 t) None e2 w2
           | (Err er, e2, w2) \<Rightarrow> (Err er, e2, w2)
           | (Panic, e2, w2) \<Rightarrow> (Panic, e2, w2))
      | (Err er, e1, w1) \<Rightarrow> (Err er, e1, w1)
      | (Panic, e1, w1) \<Rightarrow> (Panic, e1, w1))"

section \<open>Loading and invalidating\<close>

definition load_page ::
  "('b, 'w) backend_vt \<Rightarrow> ('w \<Rightarrow> instant \<times> 'w) \<Rightarrow> 'b engine \<Rightarrow> u64 \<Rightarrow> 'w
   \<Rightarrow> page res \<times> 'b engine \<times> 'w" where
  "load_page V now e x w =
     (case policy_lookup (eng_policy e) x of
        None \<Rightarrow> (Err (OffsetNotFound x), upd_stats inc_load_errors e, w)
      | Some m \<Rightarrow>
          (case map_of (eng_backends e) (pm_backend_id m) of
             None \<Rightarrow> (Err (BackendNotFound (pm_backend_id m)), upd_stats inc_load_errors e, w)
           | Some b \<Rightarrow>
               (case vt_load_page V b (pm_handle m) w of
                  (Err er, b', w') \<Rightarrow>
                    (Err er, upd_stats inc_load_errors (set_backend e (pm_backend_id m) b'), w')
                | (Panic, b', w') \<Rightarrow> (Panic, set_backend e (pm_backend_id m) b', w')
                | (Ok d, b', w') \<Rightarrow>
                    (case now w' of (tm, w'') \<Rightarrow>
                     (Ok d,
                      upd_stats inc_loaded
                        ((set_backend e (pm_backend_id m) b')
                           \<lparr>eng_policy := record_load (eng_policy e) x tm\<rparr>), w'')))))"

definition invalidate_page ::
  "('b, 'w) backend_vt \<Rightarrow> 'b engine \<Rightarrow> u64 \<Rightarrow> 'w \<Rightarrow> unit res \<times> 'b engine \<times> 'w" where
  "invalidate_page V e x w =
     (case policy_remove (eng_policy e) x of
        (None, p) \<Rightarrow> (Ok (), e\<lparr>eng_policy := p\<rparr>, w)
      | (Some m, p) \<Rightarrow>
          let e1 = e\<lparr>eng_policy := p\<rparr> in
          (case map_of (eng_backends e1) (pm_backend_id m) of
             None \<Rightarrow> (Ok (), upd_stats inc_invalidated e1, w)
           | Some b \<Rightarrow>
               (case vt_free_page V b (pm_handle m) w of
                  (Ok u, b', w') \<Rightarrow>
                    (Ok (), upd_stats inc_invalidated (set_backend e1 (pm_backend_id m) b'), w')
                | (Err er, b', w') \<Rightarrow> (Err er, set_backend e1 (pm_backend_id m) b', w')
                | (Panic, b', w') \<Rightarrow> (Panic, set_backend e1 (pm_backend_id m) b', w'))))"

section \<open>Reporting and shutdown\<close>

definition engine_backend_info :: "('b, 'w) backend_vt \<Rightarrow> 'b engine \<Rightarrow> backend_info list" where
  "engine_backend_info V e = map (\<lambda>(_, b). backend_info_from_backend V b) (eng_backends e)"

definition engine_stats_snapshot :: "'b engine \<Rightarrow> stats_snapshot" where
  "engine_stats_snapshot e = snapshot (eng_stats e)"

text \<open>The last part of \<^verbatim>\<open>run\<close>: the backends are shut down in turn, up to the first failure.\<close>

fun shutdown_backends ::
  "('b, 'w) backend_vt \<Rightarrow> u8 list \<Rightarrow> 'b engine \<Rightarrow> 'w \<Rightarrow> unit res \<times> 'b engine \<times> 'w" where
  "shutdown_backends V [] e w = (Ok (), e, w)"
| "shutdown_backends V (i # is) e w =
     (case map_of (eng_backends e) i of
        None \<Rightarrow> shutdown_backends V is e w
      | Some b \<Rightarrow>
          (case vt_shutdown V b w of
             (Ok u, b', w') \<Rightarrow> shutdown_backends V is (set_backend e i b') w'
           | (Err er, b', w') \<Rightarrow> (Err er, set_backend e i b', w')
           | (Panic, b', w') \<Rightarrow> (Panic, set_backend e i b', w')))"

text \<open>
  The commands of the control socket. A response is the value the JSON text denotes.
\<close>

datatype ctl_response =
    StatusResponse nat stats_snapshot
  | BackendsResponse "backend_info list"
  | StatsResponse stats_snapshot
  | Pong
  | UnknownCommand string

definition handle_command ::
  "daemon_stats \<Rightarrow> policy_engine \<Rightarrow> backend_info list \<Rightarrow> string \<Rightarrow> ctl_response" where
  "handle_command st p infos line =
     (let cmd = trim line in
      if cmd = ''status'' then StatusResponse (tracked_pages p) (snapshot st)
      else if cmd = ''backends'' then BackendsResponse infos
      else if cmd = ''stats'' then StatsResponse (snapshot st)
      else if cmd = ''ping'' then Pong
      else UnknownCommand cmd)"

end
