(* ===== verification/Kmod_Consumer.thy ===== *)
theory Kmod_Consumer
  imports Kmod Engine
begin

unbundle bit_operations_syntax

text \<open>
  The daemon's end of the shared ring, \<^verbatim>\<open>crates/duvm-daemon/src/kmod_ring.rs\<close>: the mapping of the
  region, the service of one request through the engine, and the consumer loop. The shared region
  is the ring of the kernel module; \<^verbatim>\<open>open\<close> computes where its parts lie, and
  \<^verbatim>\<open>poll_once\<close> reads and writes them.
\<close>

section \<open>The header\<close>

definition HDR_REQ_WRITE_IDX :: nat where "HDR_REQ_WRITE_IDX = 0"
definition HDR_REQ_READ_IDX :: nat where "HDR_REQ_READ_IDX = 64"
definition HDR_COMP_WRITE_IDX :: nat where "HDR_COMP_WRITE_IDX = 128"
definition HDR_COMP_READ_IDX :: nat where "HDR_COMP_READ_IDX = 192"
definition HDR_CAPACITY :: nat where "HDR_CAPACITY = 256"
definition HDR_VERSION :: nat where "HDR_VERSION = 260"
definition HDR_STAGING_PAGES :: nat where "HDR_STAGING_PAGES = 264"

text \<open>
  The fields of \<^verbatim>\<open>struct duvm_ring_header\<close>, which is packed: every field has alignment one.
\<close>

definition header_fields :: "c_field list" where
  "header_fields = [(4, 1), (60, 1), (4, 1), (60, 1), (4, 1), (60, 1), (4, 1), (60, 1),
                    (4, 1), (4, 1), (4, 1), (4, 1)]"

text \<open>The two ring entries as the kernel declares them, packed as well.\<close>

definition kernel_request_fields :: "c_field list" where
  "kernel_request_fields = [(1, 1), (1, 1), (2, 1), (4, 1), (8, 1), (8, 1), (4, 1), (28, 1)]"

definition kernel_completion_fields :: "c_field list" where
  "kernel_completion_fields = [(4, 1), (4, 1), (8, 1), (4, 1), (40, 1)]"

text \<open>Volatile access to the word at a byte offset of the header.\<close>

definition read_u32 :: "duvm_ring_header \<Rightarrow> nat \<Rightarrow> u32" where
  "read_u32 h off =
     (if off = 0 then req_write_idx h else if off = 64 then req_read_idx h
      else if off = 128 then comp_write_idx h else if off = 192 then comp_read_idx h
      else if off = 256 then hdr_capacity h else if off = 260 then hdr_version h
      else if off = 264 then hdr_staging_pages h else 0)"

definition write_u32 :: "duvm_ring_header \<Rightarrow> nat \<Rightarrow> u32 \<Rightarrow> duvm_ring_header" where
  "write_u32 h off v =
     (if off = 0 then h\<lparr>req_write_idx := v\<rparr> else if off = 64 then h\<lparr>req_read_idx := v\<rparr>
      else if off = 128 then h\<lparr>comp_write_idx := v\<rparr> else if off = 192 then h\<lparr>comp_read_idx := v\<rparr>
      else if off = 256 then h\<lparr>hdr_capacity := v\<rparr> else if off = 260 then h\<lparr>hdr_version := v\<rparr>
      else if off = 264 then h\<lparr>hdr_staging_pages := v\<rparr> else h)"

section \<open>Opening\<close>

definition align_up :: "usize \<Rightarrow> usize \<Rightarrow> usize" where
  "align_up val align = (val + align - 1) AND NOT (align - 1)"

text \<open>The consumer: the length of the mapping, the offsets of the parts in it, and the ring parameters.\<close>

record kmod_consumer =
  kc_mmap_len :: usize
  kc_requests :: usize
  kc_completions :: usize
  kc_staging :: usize
  kc_capacity :: u32
  kc_mask :: u32

datatype open_error = OpenFailed | MmapHeaderFailed | UnsupportedVersion u32 | MmapRingFailed

text \<open>
  \<open>opens\<close> says whether the control device can be opened and \<open>maps\<close> which lengths can be mapped;
  \<open>h\<close> is the header of the device.
\<close>

definition consumer_open ::
  "bool \<Rightarrow> (usize \<Rightarrow> bool) \<Rightarrow> duvm_ring_header \<Rightarrow> open_error + kmod_consumer" where
  "consumer_open opens maps h =
     (if \<not> opens then Inl OpenFailed
      else if \<not> maps 4096 then Inl MmapHeaderFailed
      else
        let cap = read_u32 h HDR_CAPACITY;
            version = read_u32 h HDR_VERSION;
            staging_pages = read_u32 h HDR_STAGING_PAGES
        in if version \<noteq> 2 then Inl (UnsupportedVersion version)
           else
             let header_sz = 4096;
                 req_sz = align_up (ucast cap * 64) 4096;
                 comp_sz = align_up (ucast cap * 64) 4096;
                 staging_sz = ucast staging_pages * 4096;
                 total_sz = header_sz + req_sz + comp_sz + staging_sz
             in if \<not> maps total_sz then Inl MmapRingFailed
                else Inr \<lparr>kc_mmap_len = total_sz, kc_requests = header_sz,
                          kc_completions = header_sz + req_sz,
                          kc_staging = header_sz + req_sz + comp_sz,
                          kc_capacity = cap, kc_mask = cap - 1\<rparr>)"

section \<open>Serving requests\<close>

datatype poll_outcome = Idle | Served | Crashed

text \<open>
  The \<^verbatim>\<open>match\<close> on the operation: the result for the completion and the staging bytes after it.
  \<open>None\<close> is a panic of the engine or an access outside the staging buffer.
\<close>

definition serve_request ::
  "('b, 'w) backend_vt \<Rightarrow> ('w \<Rightarrow> instant \<times> 'w) \<Rightarrow> page_order \<Rightarrow> ring_request \<Rightarrow> u8 list \<Rightarrow> 'b engine \<Rightarrow> 'w
   \<Rightarrow> (i32 \<times> u8 list) option \<times> 'b engine \<times> 'w" where
  "serve_request V now it req staging e w =
     (let staging_offset = unat (rq_staging_slot req) * PAGE_SIZE in
      if rq_op req = 1 then
        (case mem_read staging staging_offset PAGE_SIZE of
           None \<Rightarrow> (None, e, w)
         | Some page_data \<Rightarrow>
             (case store_page V now it e (rq_offset req) page_data w of
                (Ok h, e', w') \<Rightarrow> (Some (0, staging), e', w')
              | (Err er, e', w') \<Rightarrow> (Some (- 1, staging), e', w')
              | (Panic, e', w') \<Rightarrow> (None, e', w')))
      else if rq_op req = 2 then
        (case load_page V now e (rq_offset req) w of
           (Ok page_data, e', w') \<Rightarrow>
             (case mem_write staging staging_offset page_data of
                None \<Rightarrow> (None, e', w')
              | Some staging' \<Rightarrow> (Some (0, staging'), e', w'))
         | (Err er, e', w') \<Rightarrow> (Some (- 1, staging), e', w')
         | (Panic, e', w') \<Rightarrow> (None, e', w'))
      else (Some (- 1, staging), e, w))"

definition poll_once ::
  "('b, 'w) backend_vt \<Rightarrow> ('w \<Rightarrow> instant \<times> 'w) \<Rightarrow> page_order \<Rightarrow> kmod_consumer \<Rightarrow> duvm_ring \<Rightarrow> 'b engine \<Rightarrow> 'w
   \<Rightarrow> poll_outcome \<times> duvm_ring \<times> 'b engine \<times> 'w" where
  "poll_once V now it kc r e w =
     (let req_write = read_u32 (dr_header r) HDR_REQ_WRITE_IDX;
          req_read = read_u32 (dr_header r) HDR_REQ_READ_IDX
      in if req_read = req_write then (Idle, r, e, w)
         else if length (dr_requests r) \<le> unat req_read then (Crashed, r, e, w)
         else
           let req = dr_requests r ! unat req_read in
           (case serve_request V now it req (dr_staging r) e w of
              (None, e', w') \<Rightarrow> (Crashed, r, e', w')
            | (Some (result, staging'), e', w') \<Rightarrow>
                let next_read = (req_read + 1) AND kc_mask kc;
                    r1 = r\<lparr>dr_staging := staging',
                           dr_header := write_u32 (dr_header r) HDR_REQ_READ_IDX next_read\<rparr>;
                    comp_write = read_u32 (dr_header r1) HDR_COMP_WRITE_IDX;
                    c = \<lparr>rc_seq = rq_seq req, rc_result = result, rc_handle = 0,
                         rc_staging_slot = rq_staging_slot req, rc_reserved = replicate 40 0\<rparr>
                in if length (dr_completions r1) \<le> unat comp_write then (Crashed, r1, e', w')
                   else
                     let next_comp_write = (comp_write + 1) AND kc_mask kc
                     in (Served,
                         r1\<lparr>dr_completions := (dr_completions r1)[unat comp_write := c],
                            dr_header := write_u32 (dr_header r1) HDR_COMP_WRITE_IDX next_comp_write\<rparr>,
                         e', w')))"

text \<open>The inner loop of \<^verbatim>\<open>run_loop\<close>, with a bound on the rounds; \<open>None\<close> is its exhaustion.\<close>

fun serve_all ::
  "('b, 'w) backend_vt \<Rightarrow> ('w \<Rightarrow> instant \<times> 'w) \<Rightarrow> page_order \<Rightarrow> kmod_consumer \<Rightarrow> nat \<Rightarrow> duvm_ring \<Rightarrow> 'b engine
   \<Rightarrow> 'w \<Rightarrow> (poll_outcome \<times> duvm_ring \<times> 'b engine \<times> 'w) option" where
  "serve_all V now it kc 0 r e w = None"
| "serve_all V now it kc (Suc n) r e w =
     (case poll_once V now it kc r e w of
        (Served, r', e', w') \<Rightarrow> serve_all V now it kc n r' e' w'
      | res \<Rightarrow> Some res)"

text \<open>
  \<^verbatim>\<open>run_loop\<close>: the list holds what the kernel does to the ring while the consumer waits in
  \<^verbatim>\<open>poll\<close>, and its end is the stop flag.
\<close>

fun run_loop ::
  "('b, 'w) backend_vt \<Rightarrow> ('w \<Rightarrow> instant \<times> 'w) \<Rightarrow> page_order \<Rightarrow> kmod_consumer \<Rightarrow> nat
   \<Rightarrow> (duvm_ring \<Rightarrow> duvm_ring) list \<Rightarrow> duvm_ring \<Rightarrow> 'b engine \<Rightarrow> 'w
   \<Rightarrow> (poll_outcome \<times> duvm_ring \<times> 'b engine \<times> 'w) option" where
  "run_loop V now it kc n [] r e w = Some (Idle, r, e, w)"
| "run_loop V now it kc n (f # fs) r e w =
     (case serve_all V now it kc n r e w of
        Some (Idle, r', e', w') \<Rightarrow> run_loop V now it kc n fs (f r') e' w'
      | res \<Rightarrow> res)"

end
