(* ===== verification/Engine_Spec.thy ===== *)
theory Engine_Spec
  imports Engine
begin

text \<open>
  What the engine promises, over any backends that keep the contract of \<open>page_backend\<close>. The
  abstract state is the partial map from swap offsets to the pages that can be loaded; the
  engine is a lossy map: a store may evict pages, but a load returns what was stored last or
  fails.
\<close>

lemma map_le_upd_None: "m \<subseteq>\<^sub>m n \<Longrightarrow> m(x := None) \<subseteq>\<^sub>m n(x := None)"
  by (auto simp: map_le_def)

lemma map_le_Some: "m \<subseteq>\<^sub>m n \<Longrightarrow> m x = Some d \<Longrightarrow> n x = Some d"
  by (metis map_le_def domI)

section \<open>Invariant and abstraction\<close>

definition eng_ok ::
  "('b \<Rightarrow> u8) \<Rightarrow> ('b \<Rightarrow> 'w \<Rightarrow> u64 \<rightharpoonup> page) \<Rightarrow> ('b \<Rightarrow> 'w \<Rightarrow> bool) \<Rightarrow> ('b \<Rightarrow> 'b \<Rightarrow> bool) \<Rightarrow>
   'b engine \<Rightarrow> 'w \<Rightarrow> bool" where
  "eng_ok bid contents binv apart e w \<longleftrightarrow>
     hm_ok (eng_backends e) \<and> policy_ok (eng_policy e) \<and>
     (\<forall>i b. map_of (eng_backends e) i = Some b \<longrightarrow> bid b = i \<and> binv b w) \<and>
     (\<forall>i j b c. map_of (eng_backends e) i = Some b \<longrightarrow> map_of (eng_backends e) j = Some c \<longrightarrow>
        i \<noteq> j \<longrightarrow> apart b c) \<and>
     (\<forall>x m. policy_lookup (eng_policy e) x = Some m \<longrightarrow>
        ph_backend_id (pm_handle m) = pm_backend_id m \<and>
        (\<exists>b. map_of (eng_backends e) (pm_backend_id m) = Some b \<and>
           contents b w (ph_offset (pm_handle m)) \<noteq> None)) \<and>
     (\<forall>x y m n. policy_lookup (eng_policy e) x = Some m \<longrightarrow> policy_lookup (eng_policy e) y = Some n \<longrightarrow>
        pm_handle m = pm_handle n \<longrightarrow> x = y)"

definition eng_abs ::
  "('b \<Rightarrow> 'w \<Rightarrow> u64 \<rightharpoonup> page) \<Rightarrow> 'b engine \<Rightarrow> 'w \<Rightarrow> u64 \<rightharpoonup> page" where
  "eng_abs contents e w x =
     (case policy_lookup (eng_policy e) x of
        None \<Rightarrow> None
      | Some m \<Rightarrow>
          (case map_of (eng_backends e) (pm_backend_id m) of
             None \<Rightarrow> None
           | Some b \<Rightarrow> contents b w (ph_offset (pm_handle m))))"

lemma eng_okI:
  assumes "hm_ok (eng_backends e)" and "policy_ok (eng_policy e)"
    and "\<And>i b. map_of (eng_backends e) i = Some b \<Longrightarrow> bid b = i"
    and "\<And>i b. map_of (eng_backends e) i = Some b \<Longrightarrow> binv b w"
    and "\<And>i j b c. map_of (eng_backends e) i = Some b \<Longrightarrow> map_of (eng_backends e) j = Some c \<Longrightarrow>
      i \<noteq> j \<Longrightarrow> apart b c"
    and "\<And>x m. policy_lookup (eng_policy e) x = Some m \<Longrightarrow> ph_backend_id (pm_handle m) = pm_backend_id m"
    and "\<And>x m. policy_lookup (eng_policy e) x = Some m \<Longrightarrow>
      \<exists>b d. map_of (eng_backends e) (pm_backend_id m) = Some b \<and> contents b w (ph_offset (pm_handle m)) = Some d"
    and "\<And>x y m n. policy_lookup (eng_policy e) x = Some m \<Longrightarrow> policy_lookup (eng_policy e) y = Some n \<Longrightarrow>
      pm_handle m = pm_handle n \<Longrightarrow> x = y"
  shows "eng_ok bid contents binv apart e w"
  unfolding eng_ok_def using assms(1-6,8) by (blast dest: assms(7))

lemma eng_okD:
  assumes "eng_ok bid contents binv apart e w"
  shows "hm_ok (eng_backends e)" and "policy_ok (eng_policy e)"
    and "\<And>i b. map_of (eng_backends e) i = Some b \<Longrightarrow> bid b = i"
    and "\<And>i b. map_of (eng_backends e) i = Some b \<Longrightarrow> binv b w"
    and "\<And>i j b c. map_of (eng_backends e) i = Some b \<Longrightarrow> map_of (eng_backends e) j = Some c \<Longrightarrow>
      i \<noteq> j \<Longrightarrow> apart b c"
    and "\<And>x m. policy_lookup (eng_policy e) x = Some m \<Longrightarrow> ph_backend_id (pm_handle m) = pm_backend_id m"
    and "\<And>x m. policy_lookup (eng_policy e) x = Some m \<Longrightarrow>
      \<exists>b d. map_of (eng_backends e) (pm_backend_id m) = Some b \<and> contents b w (ph_offset (pm_handle m)) = Some d"
    and "\<And>x y m n. policy_lookup (eng_policy e) x = Some m \<Longrightarrow> policy_lookup (eng_policy e) y = Some n \<Longrightarrow>
      pm_handle m = pm_handle n \<Longrightarrow> x = y"
  using assms unfolding eng_ok_def by blast+

lemma eng_ok_stats [simp]:
  "eng_ok bid contents binv apart (e\<lparr>eng_stats := s\<rparr>) w = eng_ok bid contents binv apart e w"
  by (simp add: eng_ok_def)

lemma eng_abs_stats [simp]: "eng_abs contents (e\<lparr>eng_stats := s\<rparr>) w = eng_abs contents e w"
  by (simp add: eng_abs_def fun_eq_iff cong: option.case_cong)

lemma eng_ok_remove:
  "eng_ok bid contents binv apart e w \<Longrightarrow>
   eng_ok bid contents binv apart (e\<lparr>eng_policy := snd (policy_remove (eng_policy e) x)\<rparr>) w"
  unfolding eng_ok_def by (simp add: lookup_remove)

lemma eng_abs_remove:
  "eng_abs contents (e\<lparr>eng_policy := snd (policy_remove (eng_policy e) x)\<rparr>) w =
   (eng_abs contents e w)(x := None)"
  by (simp add: eng_abs_def lookup_remove fun_eq_iff cong: option.case_cong)

lemma eng_ok_record_load:
  "eng_ok bid contents binv apart e w \<Longrightarrow>
   eng_ok bid contents binv apart (e\<lparr>eng_policy := record_load (eng_policy e) x tm\<rparr>) w"
  unfolding eng_ok_def by (auto simp: lookup_record_load split: if_splits)

lemma eng_abs_record_load:
  "eng_abs contents (e\<lparr>eng_policy := record_load (eng_policy e) x tm\<rparr>) w = eng_abs contents e w"
  by (auto simp: eng_abs_def lookup_record_load fun_eq_iff split: option.splits)

text \<open>Which handles are in use, and on which backend.\<close>

definition in_use :: "'b engine \<Rightarrow> u8 \<Rightarrow> u64 \<Rightarrow> bool" where
  "in_use e i a \<longleftrightarrow>
     (\<exists>x m. policy_lookup (eng_policy e) x = Some m \<and> pm_backend_id m = i \<and>
        ph_offset (pm_handle m) = a)"

lemma in_use_simps [simp]:
  "in_use (e\<lparr>eng_stats := s\<rparr>) = in_use e" "in_use (e\<lparr>eng_backends := bs\<rparr>) = in_use e"
  by (simp_all add: in_use_def fun_eq_iff)

lemma eng_ok_free_handle:
  assumes "eng_ok bid contents binv apart e w" and "policy_lookup (eng_policy e) x = Some m"
  shows "\<not> in_use (e\<lparr>eng_policy := snd (policy_remove (eng_policy e) x)\<rparr>)
           (pm_backend_id m) (ph_offset (pm_handle m))"
proof
  assume "in_use (e\<lparr>eng_policy := snd (policy_remove (eng_policy e) x)\<rparr>)
            (pm_backend_id m) (ph_offset (pm_handle m))"
  then obtain y n where y: "y \<noteq> x" "policy_lookup (eng_policy e) y = Some n"
    "pm_backend_id n = pm_backend_id m" "ph_offset (pm_handle n) = ph_offset (pm_handle m)"
    by (auto simp: in_use_def lookup_remove split: if_splits)
  with assms have "pm_handle n = pm_handle m"
    unfolding eng_ok_def by (intro ph_eqI) metis+
  with y assms show False unfolding eng_ok_def by blast
qed

lemma eng_ok_record_store:
  assumes "eng_ok bid contents binv apart e w" and "policy_lookup (eng_policy e) x = None"
    and "map_of (eng_backends e) i = Some b" and "ph_backend_id h = i"
    and "contents b w (ph_offset h) = Some d" and "\<not> in_use e i (ph_offset h)"
  shows "eng_ok bid contents binv apart (e\<lparr>eng_policy := record_store (eng_policy e) x h i t tm\<rparr>) w"
    and "eng_abs contents (e\<lparr>eng_policy := record_store (eng_policy e) x h i t tm\<rparr>) w =
         (eng_abs contents e w)(x \<mapsto> d)"
proof -
  have fresh: "pm_handle m \<noteq> h" if "policy_lookup (eng_policy e) y = Some m" for y m
    using that assms(1,4,6) unfolding eng_ok_def in_use_def by metis
  show "eng_ok bid contents binv apart (e\<lparr>eng_policy := record_store (eng_policy e) x h i t tm\<rparr>) w"
    using assms fresh unfolding eng_ok_def by (auto simp: lookup_record_store)
  show "eng_abs contents (e\<lparr>eng_policy := record_store (eng_policy e) x h i t tm\<rparr>) w =
        (eng_abs contents e w)(x \<mapsto> d)"
    using assms by (auto simp: eng_abs_def lookup_record_store fun_eq_iff cong: option.case_cong)
qed

section \<open>The engine over backends that keep the contract\<close>

text \<open>Reading the clock does not touch the backends.\<close>

locale engine_on = page_backend +
  fixes now :: "'b \<Rightarrow> instant \<times> 'b"
  assumes clock_law: "now w = (tm, w') \<Longrightarrow>
      contents b w' = contents b w \<and> (binv b w \<longrightarrow> binv b w')"
begin

abbreviation ok :: "'a engine \<Rightarrow> 'b \<Rightarrow> bool" where
  "ok \<equiv> eng_ok bid contents binv apart"

abbreviation pages :: "'a engine \<Rightarrow> 'b \<Rightarrow> u64 \<rightharpoonup> page" where
  "pages \<equiv> eng_abs contents"

abbreviation step :: "'a \<Rightarrow> 'b \<Rightarrow> 'a \<Rightarrow> 'b \<Rightarrow> bool" where
  "step \<equiv> backend_step V bid contents issued binv apart"

text \<open>
  A step of one backend that changes its store at most where no page is tracked is invisible.
\<close>

lemma ok_backend_step:
  assumes ok: "ok e w" and b: "map_of (eng_backends e) i = Some b" and st: "step b w b' w'"
    and same: "\<And>a. a \<noteq> a0 \<Longrightarrow> contents b' w' a = contents b w a"
    and free: "\<not> in_use e i a0 \<or> contents b' w' a0 = contents b w a0"
  shows "ok (set_backend e i b') w' \<and> pages (set_backend e i b') w' = pages e w"
proof -
  note D = eng_okD [OF ok]
  have others: "contents c w' = contents c w" "binv c w'" "apart b' c" "apart c b'"
    if "map_of (eng_backends e) j = Some c" "j \<noteq> i" for j c
    using D(4) [OF that(1)] D(5) [OF b that(1)] that(2) st apart_sym unfolding backend_step_def by blast+
  have tracked: "contents b' w' (ph_offset (pm_handle m)) = contents b w (ph_offset (pm_handle m))"
    if "policy_lookup (eng_policy e) x = Some m" "pm_backend_id m = i" for x m
    using that same free unfolding in_use_def by metis
  have b': "bid b' = i" "binv b' w'" using st D(3) [OF b] by (simp_all add: backend_step_def)
  have "ok (set_backend e i b') w'"
  proof (rule eng_okI, goal_cases)
    case (7 x m)
    then show ?case using D(7) [of x m] others(1) tracked [of x m] b by (cases "pm_backend_id m = i") auto
  qed (use D b' others in \<open>auto split: if_splits\<close>)
  moreover have "pages (set_backend e i b') w' x = pages e w x" for x
    using b others tracked by (auto simp: eng_abs_def split: option.splits)
  ultimately show ?thesis by auto
qed

lemma ok_clock:
  assumes "now w = (tm, w')"
  shows "ok e w \<Longrightarrow> ok e w'" and "pages e w' = pages e w"
  using clock_law [OF assms] by (simp_all add: eng_ok_def eng_abs_def fun_eq_iff cong: option.case_cong)

lemma ok_backend: "ok e w \<Longrightarrow> map_of (eng_backends e) i = Some b \<Longrightarrow> binv b w \<and> bid b = i"
  by (simp add: eng_ok_def)

lemma ok_free:
  assumes "ok e w" and "map_of (eng_backends e) i = Some b" and "\<not> in_use e i (ph_offset h)"
    and "vt_free_page V b h w = (r, b', w')" and "r \<noteq> Panic"
  shows "ok (set_backend e i b') w' \<and> pages (set_backend e i b') w' = pages e w"
  using free_law [OF _ assms(4,5)] ok_backend [OF assms(1,2)] assms
  by (intro ok_backend_step [where ?a0.0 = "ph_offset h"]) auto

lemma ok_alloc:
  assumes "ok e w" and "map_of (eng_backends e) i = Some b"
    and "vt_alloc_page V b w = (r, b', w')" and "r \<noteq> Panic"
  shows "ok (set_backend e i b') w' \<and> pages (set_backend e i b') w' = pages e w"
  using alloc_law [OF _ assms(3,4)] ok_backend [OF assms(1,2)] assms
  by (intro ok_backend_step [where ?a0.0 = undefined]) auto

lemma alloc_not_in_use:
  assumes "ok e w" and "map_of (eng_backends e) i = Some b" and "vt_alloc_page V b w = (Ok h, b', w')"
  shows "\<not> in_use e i (ph_offset h)"
  using alloc_fresh [OF _ assms(3)] assms(1,2) unfolding eng_ok_def in_use_def by fastforce

lemma ok_store:
  assumes "ok e w" and "map_of (eng_backends e) i = Some b" and "\<not> in_use e i (ph_offset h)"
    and "is_page d" and "issued b w (ph_offset h)"
    and "vt_store_page V b h d w = (r, b', w')" and "r \<noteq> Panic"
  shows "ok (set_backend e i b') w' \<and> pages (set_backend e i b') w' = pages e w"
  using store_law [OF _ assms(4,5,6,7)] ok_backend [OF assms(1,2)] assms
  by (intro ok_backend_step [where ?a0.0 = "ph_offset h"]) auto

lemma ok_load:
  assumes "ok e w" and "map_of (eng_backends e) i = Some b"
    and "vt_load_page V b h w = (r, b', w')" and "r \<noteq> Panic"
  shows "ok (set_backend e i b') w' \<and> pages (set_backend e i b') w' = pages e w"
  using load_law [OF _ assms(3,4)] ok_backend [OF assms(1,2)] assms
  by (intro ok_backend_step [where ?a0.0 = undefined]) auto

end


section \<open>The operations\<close>

text \<open>
  What eviction may do: pages are dropped, never changed, and pinned pages stay.
\<close>

definition pinned :: "'b engine \<Rightarrow> u64 \<Rightarrow> bool" where
  "pinned e x \<longleftrightarrow>
     (\<exists>m. policy_lookup (eng_policy e) x = Some m \<and> pf_contains (pm_flags m) PINNED)"

definition keeps_pinned :: "'b engine \<Rightarrow> 'b engine \<Rightarrow> bool" where
  "keeps_pinned e e' \<longleftrightarrow>
     (\<forall>x m. policy_lookup (eng_policy e) x = Some m \<longrightarrow> pf_contains (pm_flags m) PINNED \<longrightarrow>
        policy_lookup (eng_policy e') x = Some m)"

lemma find_eviction_candidate_Some:
  assumes "permutes_entries it" and "policy_ok p" and "find_eviction_candidate it p i = Some x"
  obtains m where "policy_lookup p x = Some m" and "evictable i m"
proof -
  from assms(3) obtain m where
    "min_by_key (\<lambda>(_, m). lru_key m) (filter (\<lambda>(_, m). evictable i m) (it (pe_pages p))) = Some (x, m)"
    by (auto simp: find_eviction_candidate_def)
  then have "(x, m) \<in> set (pe_pages p)" and "evictable i m"
    by (auto dest!: min_by_key_Some simp: set_page_order [OF assms(1)])
  with assms(2) show thesis by (intro that) (auto simp: policy_lookup_def policy_ok_def hm_get_iff)
qed

context engine_on
begin

lemma ok_tracked:
  assumes "ok e w" and "policy_lookup (eng_policy e) x = Some m"
  shows "\<exists>b d. map_of (eng_backends e) (pm_backend_id m) = Some b \<and> binv b w \<and>
     contents b w (ph_offset (pm_handle m)) = Some d \<and> pages e w x = Some d"
  using eng_okD(4,7) [OF assms(1)] assms(2) by (fastforce simp: eng_abs_def)

lemma ok_dom: "ok e w \<Longrightarrow> pages e w x = None \<longleftrightarrow> policy_lookup (eng_policy e) x = None"
  using ok_tracked [of e w x] by (cases "policy_lookup (eng_policy e) x") (auto simp: eng_abs_def)

text \<open>Dropping a tracked page and freeing it on its backend.\<close>

lemma ok_drop:
  assumes ok: "ok e w" and m: "policy_lookup (eng_policy e) x = Some m"
    and b: "map_of (eng_backends e) (pm_backend_id m) = Some b"
    and f: "vt_free_page V b (pm_handle m) w = (r, b', w')" "r \<noteq> Panic"
    and e': "e' = set_backend (e\<lparr>eng_policy := snd (policy_remove (eng_policy e) x)\<rparr>) (pm_backend_id m) b'"
  shows "ok e' w'" and "pages e' w' = (pages e w)(x := None)"
    and "policy_lookup (eng_policy e') = (policy_lookup (eng_policy e))(x := None)"
proof -
  let ?e = "e\<lparr>eng_policy := snd (policy_remove (eng_policy e) x)\<rparr>"
  have "ok (set_backend ?e (pm_backend_id m) b') w' \<and>
        pages (set_backend ?e (pm_backend_id m) b') w' = pages ?e w"
    using b by (intro ok_free [OF eng_ok_remove [OF ok] _ eng_ok_free_handle [OF ok m] f]) simp
  then show "ok e' w'" and "pages e' w' = (pages e w)(x := None)"
    by (simp_all add: e' eng_abs_remove)
  show "policy_lookup (eng_policy e') = (policy_lookup (eng_policy e))(x := None)"
    by (simp add: e' lookup_remove)
qed

lemma free_old_page_law:
  assumes ok: "ok e w" and run: "free_old_page V e x w = (r, e', w')" and r: "r \<noteq> Panic"
  shows "r = Ok () \<and> ok e' w' \<and> pages e' w' = (pages e w)(x := None) \<and>
         policy_lookup (eng_policy e') = (policy_lookup (eng_policy e))(x := None)"
proof (cases "policy_lookup (eng_policy e) x")
  case None
  then show ?thesis
    using run eng_ok_remove [OF ok, of x] eng_abs_remove [of contents e x w]
    by (auto simp: free_old_page_def policy_lookup_def policy_remove_def Let_def)
next
  case (Some m)
  from ok_tracked [OF ok Some] obtain b where
    b: "map_of (eng_backends e) (pm_backend_id m) = Some b" by blast
  obtain rf b' w1 where f: "vt_free_page V b (pm_handle m) w = (rf, b', w1)"
    by (cases "vt_free_page V b (pm_handle m) w") auto
  from run r Some b f have "rf \<noteq> Panic" "r = Ok ()" "w' = w1"
    "e' = set_backend (e\<lparr>eng_policy := snd (policy_remove (eng_policy e) x)\<rparr>) (pm_backend_id m) b'"
    by (auto simp: free_old_page_def policy_lookup_def policy_remove_def Let_def split: if_splits)
  with ok_drop [OF ok Some b f] show ?thesis by simp
qed

lemma invalidate_page_law:
  assumes ok: "ok e w" and run: "invalidate_page V e x w = (r, e', w')" and r: "r \<noteq> Panic"
  shows "ok e' w' \<and> pages e' w' = (pages e w)(x := None)"
proof (cases "policy_lookup (eng_policy e) x")
  case None
  then show ?thesis
    using run eng_ok_remove [OF ok, of x] eng_abs_remove [of contents e x w]
    by (auto simp: invalidate_page_def policy_lookup_def policy_remove_def Let_def)
next
  case (Some m)
  from ok_tracked [OF ok Some] obtain b where
    b: "map_of (eng_backends e) (pm_backend_id m) = Some b" by blast
  obtain rf b' w1 where f: "vt_free_page V b (pm_handle m) w = (rf, b', w1)"
    by (cases "vt_free_page V b (pm_handle m) w") auto
  from run r Some b f have "rf \<noteq> Panic" "w' = w1"
    "\<exists>s. e' = (set_backend (e\<lparr>eng_policy := snd (policy_remove (eng_policy e) x)\<rparr>) (pm_backend_id m) b')
       \<lparr>eng_stats := s\<rparr>"
    by (auto simp: invalidate_page_def policy_lookup_def policy_remove_def Let_def
        split: res.splits intro: exI [where x = "eng_stats e"])
  with ok_drop [OF ok Some b f] show ?thesis by auto
qed

lemma load_page_law:
  assumes ok: "ok e w" and run: "load_page V now e x w = (r, e', w')" and r: "r \<noteq> Panic"
  shows "ok e' w' \<and> pages e' w' = pages e w \<and> (\<forall>d. r = Ok d \<longrightarrow> pages e w x = Some d)"
proof (cases "policy_lookup (eng_policy e) x")
  case None
  then show ?thesis using run ok by (auto simp: load_page_def)
next
  case (Some m)
  from ok_tracked [OF ok Some] obtain b d where
    b: "map_of (eng_backends e) (pm_backend_id m) = Some b" "binv b w"
    "contents b w (ph_offset (pm_handle m)) = Some d" "pages e w x = Some d" by blast
  obtain rl b' w1 where l: "vt_load_page V b (pm_handle m) w = (rl, b', w1)"
    by (cases "vt_load_page V b (pm_handle m) w") auto
  from run r Some b(1) l have rl: "rl \<noteq> Panic" by (auto simp: load_page_def)
  note step = ok_load [OF ok b(1) l rl] load_law [OF b(2) l rl]
  show ?thesis
  proof (cases rl)
    case (Ok d')
    obtain tm w2 where n: "now w1 = (tm, w2)" by (cases "now w1")
    have "e' = upd_stats inc_loaded ((set_backend e (pm_backend_id m) b')
            \<lparr>eng_policy := record_load (eng_policy (set_backend e (pm_backend_id m) b')) x tm\<rparr>)"
      "r = Ok d'" "w' = w2"
      using run Some b(1) l Ok n by (auto simp: load_page_def)
    then show ?thesis
      using step b Ok
        eng_ok_record_load [of bid contents binv apart "set_backend e (pm_backend_id m) b'" w1 x tm]
        eng_abs_record_load [of contents "set_backend e (pm_backend_id m) b'" x tm w1]
      by (auto simp: ok_clock(2) [OF n] intro: ok_clock(1) [OF n])
  qed (use run Some b(1) l step rl in \<open>auto simp: load_page_def\<close>)
qed

lemma evict_from_law:
  assumes "permutes_entries it" and "ok e w" and "evict_from V it is e w = (r, e', w')" and "r \<noteq> Panic"
  shows "ok e' w' \<and> pages e' w' \<subseteq>\<^sub>m pages e w \<and> keeps_pinned e e' \<and> (\<forall>er. r \<noteq> Err er)"
  using assms(2-)
proof (induction "is" arbitrary: e w)
  case Nil
  then show ?case by (auto simp: keeps_pinned_def)
next
  case (Cons i "is")
  show ?case
  proof (cases "find_eviction_candidate it (eng_policy e) i")
    case None
    with Cons show ?thesis by simp
  next
    case (Some x)
    from Cons.prems(1) have "policy_ok (eng_policy e)" by (simp add: eng_ok_def)
    with Some assms(1) obtain m where m: "policy_lookup (eng_policy e) x = Some m" "evictable i m"
      by (blast elim: find_eviction_candidate_Some)
    from ok_tracked [OF Cons.prems(1) m(1)] m(2) obtain b where
      b: "map_of (eng_backends e) i = Some b" by (auto simp: evictable_def)
    obtain rf b' w1 where f: "vt_free_page V b (pm_handle m) w = (rf, b', w1)"
      by (cases "vt_free_page V b (pm_handle m) w") auto
    define e1 where "e1 = set_backend (e\<lparr>eng_policy := snd (policy_remove (eng_policy e) x)\<rparr>) i b'"
    obtain p where rm: "policy_remove (eng_policy e) x = (Some m, p)"
      using m(1) by (simp add: policy_remove_def policy_lookup_def)
    from Cons.prems(2,3) Some b f rm have rf: "rf \<noteq> Panic" by auto
    have i: "i = pm_backend_id m" using m(2) by (simp add: evictable_def)
    note drop = ok_drop [OF Cons.prems(1) m(1) b [unfolded i] f rf e1_def [unfolded i], folded i]
    have kp: "keeps_pinned e e1" "pages e1 w1 \<subseteq>\<^sub>m pages e w"
      using m drop by (auto simp: keeps_pinned_def evictable_def map_le_def)
    show ?thesis
    proof (cases rf)
      case (Ok u)
      then have "r = Ok (Some x)" "e' = upd_stats inc_invalidated e1" "w' = w1"
        using Cons.prems(2) Some b f rm by (auto simp: e1_def)
      with drop(1) kp show ?thesis by (auto simp: keeps_pinned_def)
    next
      case (Err er)
      then have "evict_from V it is e1 w1 = (r, e', w')"
        using Cons.prems(2) Some b f rm by (auto simp: e1_def)
      from Cons.IH [OF drop(1) this Cons.prems(3)] kp show ?thesis
        by (auto simp: keeps_pinned_def intro: map_le_trans)
    qed (use rf in simp)
  qed
qed

lemma choose_tier_law:
  assumes "permutes_entries it" and "ok e w" and "choose_tier V it e w = (r, e', w')" and "r \<noteq> Panic"
  shows "ok e' w' \<and> pages e' w' \<subseteq>\<^sub>m pages e w \<and> keeps_pinned e e'"
proof (cases "select_tier (eng_policy e) (backend_capacities V e)")
  case (Some t)
  with assms(2,3) show ?thesis by (auto simp: choose_tier_def keeps_pinned_def)
next
  case None
  obtain r1 e1 w1 where ev: "try_evict_one V it e w = (r1, e1, w1)"
    by (cases "try_evict_one V it e w") auto
  with None assms(3,4) have "r1 \<noteq> Panic" "w' = w1" "\<exists>s. e' = e1\<lparr>eng_stats := s\<rparr>"
    by (auto simp: choose_tier_def split: res.splits option.splits
        intro: exI [where x = "eng_stats e1"])
  with evict_from_law [OF assms(1,2)] ev show ?thesis
    by (auto simp: try_evict_one_def keeps_pinned_def)
qed

text \<open>One round of the store loop: allocate and store on backend \<open>i\<close>.\<close>

lemma store_one_law:
  assumes ok: "ok e w" and b: "map_of (eng_backends e) i = Some b" and d: "is_page d"
    and a: "vt_alloc_page V b w = (Ok h, b1, w1)" and s: "vt_store_page V b1 h d w1 = (r, b2, w2)"
    and r: "r \<noteq> Panic"
  shows "ok (set_backend e i b2) w2 \<and> pages (set_backend e i b2) w2 = pages e w \<and>
         \<not> in_use e i (ph_offset h) \<and> ph_backend_id h = i \<and>
         (is_ok r \<longrightarrow> contents b2 w2 (ph_offset h) = Some d)"
proof -
  have free: "\<not> in_use e i (ph_offset h)" by (rule alloc_not_in_use [OF ok b a])
  have al: "ok (set_backend e i b1) w1" "pages (set_backend e i b1) w1 = pages e w"
    "ph_backend_id h = i" "issued b1 w1 (ph_offset h)" "binv b1 w1"
    using ok_alloc [OF ok b a] alloc_law [OF _ a] ok_backend [OF ok b] by (auto simp: backend_step_def)
  have "ok (set_backend (set_backend e i b1) i b2) w2 \<and>
        pages (set_backend (set_backend e i b1) i b2) w2 = pages (set_backend e i b1) w1"
    using al free by (intro ok_store [OF al(1) _ _ d _ s r]) auto
  then show ?thesis using al free store_law [OF al(5) d al(4) s r] by (simp add: update_Some_unfold)
qed

lemma store_to_law:
  assumes "is_page d" and "ok e w" and "policy_lookup (eng_policy e) x = None"
    and "store_to V now x d t is last_err e w = (r, e', w')" and "r \<noteq> Panic"
  shows "ok e' w' \<and> pages e' w' = (if is_ok r then (pages e w)(x \<mapsto> d) else pages e w) \<and>
         (\<forall>y. y \<noteq> x \<longrightarrow> policy_lookup (eng_policy e') y = policy_lookup (eng_policy e) y)"
  using assms(2-)
proof (induction "is" arbitrary: e w last_err)
  case Nil
  then show ?case by auto
next
  case (Cons i "is")
  show ?case
  proof (cases "map_of (eng_backends e) i")
    case None
    with Cons show ?thesis by simp
  next
    case (Some b)
    obtain ra b1 w1 where a: "vt_alloc_page V b w = (ra, b1, w1)"
      by (cases "vt_alloc_page V b w") auto
    show ?thesis
    proof (cases ra)
      case (Err er)
      then show ?thesis
        using Cons.IH [of "set_backend e i b1" w1 "Some er"] Cons.prems Some a
          ok_alloc [OF Cons.prems(1) Some a] by simp
    next
      case Panic
      then show ?thesis using Cons.prems Some a by simp
    next
      case (Ok h)
      obtain rs b2 w2 where s: "vt_store_page V b1 h d w1 = (rs, b2, w2)"
        by (cases "vt_store_page V b1 h d w1") auto
      have rs: "rs \<noteq> Panic" using Cons.prems(3,4) Some a Ok s by auto
      note one = store_one_law [OF Cons.prems(1) Some assms(1) a [unfolded Ok] s rs]
      show ?thesis
      proof (cases rs)
        case (Err er)
        obtain rf b3 w3 where f: "vt_free_page V b2 h w2 = (rf, b3, w3)"
          by (cases "vt_free_page V b2 h w2") auto
        have rf: "rf \<noteq> Panic" using Cons.prems(3,4) Some a Ok s Err f by auto
        have "ok (set_backend (set_backend e i b2) i b3) w3 \<and>
              pages (set_backend (set_backend e i b2) i b3) w3 = pages (set_backend e i b2) w2"
          using one by (intro ok_free [OF _ _ _ f rf]) auto
        then have "ok (set_backend e i b3) w3" "pages (set_backend e i b3) w3 = pages e w"
          using one by simp_all
        then show ?thesis
          using Cons.IH [of "set_backend e i b3" w3 "Some er"] Cons.prems Some a Ok s Err f rf by simp
      next
        case (Ok u)
        obtain tm w3 where n: "now w2 = (tm, w3)" by (cases "now w2")
        let ?e = "set_backend e i b2"
        have "r = Ok h" "w' = w3" "e' = upd_stats inc_stored
            (?e\<lparr>eng_policy := record_store (eng_policy ?e) x h i t tm\<rparr>)"
          using Cons.prems(3) Some a \<open>ra = Ok h\<close> s Ok n by auto
        then show ?thesis
          using one Cons.prems(2) Ok
            eng_ok_record_store [of bid contents binv apart ?e w2 x i b2 h d t tm]
          by (simp add: ok_clock(2) [OF n] ok_clock(1) [OF n] lookup_record_store)
      qed (use rs in simp)
    qed
  qed
qed

theorem store_page_law:
  assumes it: "permutes_entries it" and d: "is_page d" and ok: "ok e w"
    and run: "store_page V now it e x d w = (r, e', w')" and r: "r \<noteq> Panic"
  shows "ok e' w'"
    and "\<exists>kept. kept \<subseteq>\<^sub>m (pages e w)(x := None) \<and>
           (\<forall>y. y \<noteq> x \<longrightarrow> pinned e y \<longrightarrow> kept y = pages e w y) \<and>
           pages e' w' = (if is_ok r then kept(x \<mapsto> d) else kept)"
proof -
  obtain r1 e1 w1 where f: "free_old_page V e x w = (r1, e1, w1)"
    by (cases "free_old_page V e x w") auto
  then have r1: "r1 \<noteq> Panic" using run r by (auto simp: store_page_def)
  note old = free_old_page_law [OF ok f r1]
  obtain r2 e2 w2 where c: "choose_tier V it e1 w1 = (r2, e2, w2)"
    by (cases "choose_tier V it e1 w1") auto
  then have r2: "r2 \<noteq> Panic" using run r f old by (auto simp: store_page_def)
  have ct: "ok e2 w2" "pages e2 w2 \<subseteq>\<^sub>m (pages e w)(x := None)" "keeps_pinned e1 e2"
    using choose_tier_law [OF it _ c r2] old by auto
  have gone: "policy_lookup (eng_policy e2) x = None"
    using ct(2) ok_dom [OF ct(1), of x] by (force simp: map_le_def domIff)
  have kept: "pages e2 w2 y = pages e w y" if "y \<noteq> x" "pinned e y" for y
  proof -
    from that old have "policy_lookup (eng_policy e2) y \<noteq> None"
      using ct(3) by (auto simp: pinned_def keeps_pinned_def)
    with ok_dom [OF ct(1), of y] obtain d where "pages e2 w2 y = Some d" by auto
    with map_le_Some [OF ct(2) this] that(1) show ?thesis by simp
  qed
  have fin: "ok e' w' \<and> pages e' w' = (if is_ok r then (pages e2 w2)(x \<mapsto> d) else pages e2 w2)"
  proof (cases r2)
    case (Ok t)
    then have "store_to V now x d t (tier_backend_candidates V e2 t) None e2 w2 = (r, e', w')"
      using run f c old by (simp add: store_page_def)
    from store_to_law [OF d ct(1) gone this r] show ?thesis by blast
  next
    case (Err er)
    then show ?thesis using run f c old ct(1) by (auto simp: store_page_def)
  qed (use r2 in simp)
  then show "ok e' w'" by blast
  show "\<exists>kept. kept \<subseteq>\<^sub>m (pages e w)(x := None) \<and>
           (\<forall>y. y \<noteq> x \<longrightarrow> pinned e y \<longrightarrow> kept y = pages e w y) \<and>
           pages e' w' = (if is_ok r then kept(x \<mapsto> d) else kept)"
    using fin kept ct(2) by blast
qed

end

section \<open>Sequences of requests\<close>

text \<open>
  The requests the kernel module sends, in the order the single consumer thread takes them.
  A panic ends the run.
\<close>

datatype eng_op = EStore u64 page | ELoad u64 | EInvalidate u64

datatype eng_result = RStored "page_handle res" | RLoaded "page res" | RInvalidated "unit res"

fun eng_step ::
  "('b, 'w) backend_vt \<Rightarrow> ('w \<Rightarrow> instant \<times> 'w) \<Rightarrow> page_order \<Rightarrow> eng_op \<Rightarrow> 'b engine \<Rightarrow> 'w
   \<Rightarrow> eng_result \<times> 'b engine \<times> 'w" where
  "eng_step V now it (EStore x d) e w =
     (case store_page V now it e x d w of (r, e', w') \<Rightarrow> (RStored r, e', w'))"
| "eng_step V now it (ELoad x) e w =
     (case load_page V now e x w of (r, e', w') \<Rightarrow> (RLoaded r, e', w'))"
| "eng_step V now it (EInvalidate x) e w =
     (case invalidate_page V e x w of (r, e', w') \<Rightarrow> (RInvalidated r, e', w'))"

definition panicked :: "eng_result \<Rightarrow> bool" where
  "panicked r \<longleftrightarrow> r \<in> {RStored Panic, RLoaded Panic, RInvalidated Panic}"

fun eng_run ::
  "('b, 'w) backend_vt \<Rightarrow> ('w \<Rightarrow> instant \<times> 'w) \<Rightarrow> page_order \<Rightarrow> eng_op list \<Rightarrow> 'b engine \<Rightarrow> 'w
   \<Rightarrow> eng_result list \<times> 'b engine \<times> 'w" where
  "eng_run V now it [] e w = ([], e, w)"
| "eng_run V now it (op # ops) e w =
     (case eng_step V now it op e w of (r, e', w') \<Rightarrow>
      if panicked r then ([r], e', w')
      else (case eng_run V now it ops e' w' of (rs, e'', w'') \<Rightarrow> (r # rs, e'', w'')))"

text \<open>
  The specification: \<open>written\<close> is the content of each offset according to the requests and
  the answers so far. A load that succeeds returns it.
\<close>

fun written :: "(u64 \<rightharpoonup> page) \<Rightarrow> eng_op \<Rightarrow> eng_result \<Rightarrow> (u64 \<rightharpoonup> page)" where
  "written m (EStore x d) r = (case r of RStored (Ok h) \<Rightarrow> m(x \<mapsto> d) | _ \<Rightarrow> m(x := None))"
| "written m (ELoad x) r = m"
| "written m (EInvalidate x) r = m(x := None)"

fun answers_agree :: "(u64 \<rightharpoonup> page) \<Rightarrow> eng_op list \<Rightarrow> eng_result list \<Rightarrow> bool" where
  "answers_agree m (op # ops) (r # rs) \<longleftrightarrow>
     (case (op, r) of (ELoad x, RLoaded (Ok d)) \<Rightarrow> m x = Some d | _ \<Rightarrow> True) \<and>
     answers_agree (written m op r) ops rs"
| "answers_agree m ops [] \<longleftrightarrow> True"
| "answers_agree m [] rs \<longleftrightarrow> rs = []"

fun op_ok :: "eng_op \<Rightarrow> bool" where
  "op_ok (EStore x d) \<longleftrightarrow> is_page d"
| "op_ok op \<longleftrightarrow> True"

context engine_on
begin

lemma eng_step_law:
  assumes "permutes_entries it" and "op_ok op" and "ok e w" and le: "pages e w \<subseteq>\<^sub>m m"
    and run: "eng_step V now it op e w = (r, e', w')" and r: "\<not> panicked r"
  shows "ok e' w' \<and> pages e' w' \<subseteq>\<^sub>m written m op r \<and>
         (\<forall>x d. op = ELoad x \<longrightarrow> r = RLoaded (Ok d) \<longrightarrow> m x = Some d)"
proof (cases op)
  case (EStore x d)
  with run obtain s where s: "store_page V now it e x d w = (s, e', w')" "r = RStored s"
    by (auto split: prod.splits)
  with r have "s \<noteq> Panic" by (auto simp: panicked_def)
  from store_page_law [OF assms(1) _ assms(3) s(1) this] assms(2) EStore obtain kept where
    k: "ok e' w'" "kept \<subseteq>\<^sub>m (pages e w)(x := None)"
    "pages e' w' = (if is_ok s then kept(x \<mapsto> d) else kept)" by auto
  have "kept \<subseteq>\<^sub>m m(x := None)" using k(2) map_le_upd_None [OF le] map_le_trans by blast
  then have "kept(x \<mapsto> d) \<subseteq>\<^sub>m m(x \<mapsto> d)" "kept \<subseteq>\<^sub>m m(x := None)"
    by (auto simp: map_le_def)
  then show ?thesis using k(1,3) EStore s(2) by (cases s) auto
next
  case (ELoad x)
  with run obtain s where s: "load_page V now e x w = (s, e', w')" "r = RLoaded s"
    by (auto split: prod.splits)
  with r have "s \<noteq> Panic" by (auto simp: panicked_def)
  from load_page_law [OF assms(3) s(1) this] le ELoad s(2) show ?thesis
    by (auto intro: map_le_Some)
next
  case (EInvalidate x)
  with run obtain s where s: "invalidate_page V e x w = (s, e', w')" "r = RInvalidated s"
    by (auto split: prod.splits)
  with r have "s \<noteq> Panic" by (auto simp: panicked_def)
  from invalidate_page_law [OF assms(3) s(1) this] map_le_upd_None [OF le] EInvalidate show ?thesis
    by simp
qed

lemma load_panics_agree: "panicked r \<Longrightarrow> r \<noteq> RLoaded (Ok d)"
  by (auto simp: panicked_def)

lemma eng_run_agrees:
  assumes "permutes_entries it" and "ok e w" and "pages e w \<subseteq>\<^sub>m m" and "\<forall>op \<in> set ops. op_ok op"
    and "eng_run V now it ops e w = (rs, e', w')"
  shows "answers_agree m ops rs \<and> (length rs \<le> length ops) \<and>
         ((\<forall>r \<in> set rs. \<not> panicked r) \<longrightarrow> length rs = length ops \<and> ok e' w')"
  using assms(2-)
proof (induction ops arbitrary: e w m rs)
  case (Cons op ops)
  obtain r e1 w1 where st: "eng_step V now it op e w = (r, e1, w1)"
    by (cases "eng_step V now it op e w") auto
  show ?case
  proof (cases "panicked r")
    case True
    with Cons.prems(4) st have "rs = [r]" by simp
    with True show ?thesis using load_panics_agree [OF True]
      by (auto split: eng_op.splits eng_result.splits res.splits)
  next
    case False
    with Cons.prems(4) st obtain rs1 where
      rest: "eng_run V now it ops e1 w1 = (rs1, e', w')" "rs = r # rs1"
      by (auto split: prod.splits)
    have law: "ok e1 w1" "pages e1 w1 \<subseteq>\<^sub>m written m op r"
      "\<forall>x d. op = ELoad x \<longrightarrow> r = RLoaded (Ok d) \<longrightarrow> m x = Some d"
      using eng_step_law [OF assms(1) _ Cons.prems(1,2) st False] Cons.prems(3) by auto
    from Cons.IH [OF law(1,2) _ rest(1)] Cons.prems(3) law(3) rest(2) False show ?thesis
      by (auto split: eng_op.splits eng_result.splits res.splits)
  qed
qed simp

end

end
