(* ===== verification/Swap_Device.thy ===== *)
theory Swap_Device
  imports Kmod_Laws Kmod_Consumer Engine_Spec
begin

unbundle bit_operations_syntax

text \<open>
  The swap device as a whole: the kernel module's request handler and completion harvester and the
  daemon's consumer, interleaved in any order on the shared ring. Its specification is an
  asynchronous device over a map from page indices to pages, and every run of the code is a run of
  that device.
\<close>

section \<open>The machine\<close>

text \<open>
  \<open>sm_busy\<close> are the tags the block layer has handed out and not got back. The requests are those
  of swap I/O: one page, at a page boundary. \<open>Queued\<close> is a request the device accepted, \<open>Ended\<close>
  one it gave back.
\<close>

record ('b, 'w) machine =
  sm_dev :: duvm_device
  sm_busy :: "nat set"
  sm_engine :: "'b engine"
  sm_world :: 'w

datatype swap_event =
    Queued nat bool u64 page
  | Ended nat bool page
  | Silent

definition swap_rq :: "blk_rq \<Rightarrow> bool" where
  "swap_rq rq \<longleftrightarrow> is_page (seg_bytes (br_segments rq)) \<and> 8 dvd unat (br_sector rq)"

text \<open>
  The three steps. The block layer never has two requests under one tag, and its tags are below the
  queue depth; \<open>queue\<close> further keeps the number of requests in flight below the capacity of the
  ring. A request the device refuses for want of resources goes back to the block layer.
\<close>

inductive swap_step ::
  "('b, 'w) backend_vt \<Rightarrow> ('w \<Rightarrow> instant \<times> 'w) \<Rightarrow> page_order \<Rightarrow> kmod_consumer \<Rightarrow>
   ('b, 'w) machine \<Rightarrow> swap_event \<Rightarrow> ('b, 'w) machine \<Rightarrow> bool"
  for V now it kc where
  queue: "swap_rq rq \<Longrightarrow> br_tag rq \<notin> sm_busy s \<Longrightarrow> br_tag rq < unat (dd_queue_depth (sm_dev s)) \<Longrightarrow>
    Suc (card (sm_busy s)) < ring_cap (dd_ring (sm_dev s)) \<Longrightarrow>
    duvm_queue_rq alloc xa_ok junk ((sm_dev s)\<lparr>dd_rqs := (dd_rqs (sm_dev s))(br_tag rq \<mapsto> rq)\<rparr>) rq
      = Some (BLK_STS_OK, dev, []) \<Longrightarrow>
    swap_step V now it kc s
      (Queued (br_tag rq) (br_write rq) (br_sector rq div 8) (seg_bytes (br_segments rq)))
      (s\<lparr>sm_dev := dev, sm_busy := insert (br_tag rq) (sm_busy s)\<rparr>)"
| refuse: "swap_rq rq \<Longrightarrow> br_tag rq \<notin> sm_busy s \<Longrightarrow> br_tag rq < unat (dd_queue_depth (sm_dev s)) \<Longrightarrow>
    duvm_queue_rq alloc xa_ok junk ((sm_dev s)\<lparr>dd_rqs := (dd_rqs (sm_dev s))(br_tag rq \<mapsto> rq)\<rparr>) rq
      = Some (BLK_STS_RESOURCE, dev, []) \<Longrightarrow>
    swap_step V now it kc s Silent (s\<lparr>sm_dev := dev\<rparr>)"
| serve: "poll_once V now it kc (dd_ring (sm_dev s)) (sm_engine s) (sm_world s) = (Served, r, e, w) \<Longrightarrow>
    swap_step V now it kc s Silent
      (s\<lparr>sm_dev := (sm_dev s)\<lparr>dd_ring := r\<rparr>, sm_engine := e, sm_world := w\<rparr>)"
| harvest: "harvest_one (sm_dev s) = Some (True, dev, [EndRequest t st segs]) \<Longrightarrow>
    swap_step V now it kc s (Ended t (st = BLK_STS_OK) (seg_bytes segs))
      (s\<lparr>sm_dev := dev, sm_busy := sm_busy s - {t}\<rparr>)"
| discard: "harvest_one (sm_dev s) = Some (True, dev, []) \<Longrightarrow>
    swap_step V now it kc s Silent (s\<lparr>sm_dev := dev\<rparr>)"

section \<open>The specification\<close>

text \<open>
  The pages last written successfully, the requests not yet carried out, and the answers not yet
  given. A request is carried out at one moment between its submission and its end.
\<close>

datatype dev_op = WritePage u64 page | ReadPage u64

datatype dev_answer = Failed | Wrote | ReadBack page

record dev_spec =
  sp_pages :: "u64 \<rightharpoonup> page"
  sp_pending :: "nat \<rightharpoonup> dev_op"
  sp_done :: "nat \<rightharpoonup> dev_answer"

inductive spec_step :: "dev_spec \<Rightarrow> swap_event \<Rightarrow> dev_spec \<Rightarrow> bool" where
  submit_write: "sp_pending m t = None \<Longrightarrow> sp_done m t = None \<Longrightarrow>
    spec_step m (Queued t True i d) (m\<lparr>sp_pending := (sp_pending m)(t \<mapsto> WritePage i d)\<rparr>)"
| submit_read: "sp_pending m t = None \<Longrightarrow> sp_done m t = None \<Longrightarrow>
    spec_step m (Queued t False i d) (m\<lparr>sp_pending := (sp_pending m)(t \<mapsto> ReadPage i)\<rparr>)"
| skip: "spec_step m Silent m"
| do_write: "sp_pending m t = Some (WritePage i d) \<Longrightarrow>
    spec_step m Silent (m\<lparr>sp_pages := (sp_pages m)(i \<mapsto> d), sp_pending := (sp_pending m)(t := None),
                          sp_done := (sp_done m)(t \<mapsto> Wrote)\<rparr>)"
| fail_write: "sp_pending m t = Some (WritePage i d) \<Longrightarrow>
    spec_step m Silent (m\<lparr>sp_pages := (sp_pages m)(i := None), sp_pending := (sp_pending m)(t := None),
                          sp_done := (sp_done m)(t \<mapsto> Failed)\<rparr>)"
| do_read: "sp_pending m t = Some (ReadPage i) \<Longrightarrow> sp_pages m i = Some d \<Longrightarrow>
    spec_step m Silent (m\<lparr>sp_pending := (sp_pending m)(t := None),
                          sp_done := (sp_done m)(t \<mapsto> ReadBack d)\<rparr>)"
| fail_read: "sp_pending m t = Some (ReadPage i) \<Longrightarrow>
    spec_step m Silent (m\<lparr>sp_pending := (sp_pending m)(t := None),
                          sp_done := (sp_done m)(t \<mapsto> Failed)\<rparr>)"
| answer: "sp_done m t = Some a \<Longrightarrow> ok = (a \<noteq> Failed) \<Longrightarrow> (\<And>p. a = ReadBack p \<Longrightarrow> d = p) \<Longrightarrow>
    spec_step m (Ended t ok d) (m\<lparr>sp_done := (sp_done m)(t := None)\<rparr>)"

inductive_cases swap_stepE: "swap_step V now it kc s ev s'"

section \<open>The simulation relation\<close>

text \<open>The ring entry of a pending request and of an answer, as the code writes them.\<close>

definition req_entry :: "(nat \<Rightarrow> duvm_cmd) \<Rightarrow> (nat \<rightharpoonup> dev_op) \<Rightarrow> nat \<Rightarrow> ring_request" where
  "req_entry pdu pending t =
     zeroed_request\<lparr>rq_op := (case pending t of Some (ReadPage i) \<Rightarrow> 2 | _ \<Rightarrow> 1),
       rq_offset := (case pending t of Some (ReadPage i) \<Rightarrow> i | Some (WritePage i d) \<Rightarrow> i | None \<Rightarrow> 0),
       rq_staging_slot := cmd_staging_slot (pdu t), rq_seq := of_nat t + 1\<rparr>"

definition comp_entry :: "(nat \<Rightarrow> duvm_cmd) \<Rightarrow> (nat \<rightharpoonup> dev_answer) \<Rightarrow> nat \<Rightarrow> ring_completion" where
  "comp_entry pdu answers t =
     \<lparr>rc_seq = of_nat t + 1, rc_result = (if answers t = Some Failed then - 1 else 0), rc_handle = 0,
      rc_staging_slot = cmd_staging_slot (pdu t), rc_reserved = replicate 40 0\<rparr>"

abbreviation slot_of :: "duvm_device \<Rightarrow> nat \<Rightarrow> nat" where
  "slot_of dev t \<equiv> unat (cmd_staging_slot (dd_pdu dev t))"

text \<open>The queues hold the pending tags \<open>ts\<close> and the answered tags \<open>us\<close>, each with its own slot.\<close>

definition dev_rel :: "nat list \<Rightarrow> nat list \<Rightarrow> duvm_device \<Rightarrow> dev_spec \<Rightarrow> bool" where
  "dev_rel ts us dev m \<longleftrightarrow>
     kring_ok (dd_ring dev) \<and> dr_daemon_connected (dd_ring dev) \<and>
     unat (dd_queue_depth dev) < 2 ^ 31 \<and>
     distinct (ts @ us) \<and> set ts = dom (sp_pending m) \<and> set us = dom (sp_done m) \<and>
     length ts + length us < ring_cap (dd_ring dev) \<and>
     req_queue (dd_ring dev) = map (req_entry (dd_pdu dev) (sp_pending m)) ts \<and>
     comp_queue (dd_ring dev) = map (comp_entry (dd_pdu dev) (sp_done m)) us \<and>
     inj_on (slot_of dev) (set ts \<union> set us) \<and>
     (\<forall>t \<in> set ts \<union> set us. t < unat (dd_queue_depth dev) \<and>
        slot_of dev t < unat (dr_staging_pages (dd_ring dev)) \<and>
        dr_staging_bitmap (dd_ring dev) ! slot_of dev t \<and>
        (\<exists>rq. dd_rqs dev t = Some rq \<and> is_page (seg_bytes (br_segments rq)))) \<and>
     (\<forall>t i d. sp_pending m t = Some (WritePage i d) \<longrightarrow>
        \<not> cmd_is_read (dd_pdu dev t) \<and> slot_bytes (dr_staging (dd_ring dev)) (slot_of dev t) = d) \<and>
     (\<forall>t i. sp_pending m t = Some (ReadPage i) \<longrightarrow> cmd_is_read (dd_pdu dev t)) \<and>
     (\<forall>t d. sp_done m t = Some (ReadBack d) \<longrightarrow>
        cmd_is_read (dd_pdu dev t) \<and> slot_bytes (dr_staging (dd_ring dev)) (slot_of dev t) = d) \<and>
     (\<forall>t. sp_done m t = Some Wrote \<longrightarrow> \<not> cmd_is_read (dd_pdu dev t))"

lemma dev_relD:
  assumes "dev_rel ts us dev m"
  shows "kring_ok (dd_ring dev)" "dr_daemon_connected (dd_ring dev)" "unat (dd_queue_depth dev) < 2 ^ 31"
    "distinct (ts @ us)" "set ts = dom (sp_pending m)" "set us = dom (sp_done m)"
    "length ts + length us < ring_cap (dd_ring dev)"
    "req_queue (dd_ring dev) = map (req_entry (dd_pdu dev) (sp_pending m)) ts"
    "comp_queue (dd_ring dev) = map (comp_entry (dd_pdu dev) (sp_done m)) us"
    "inj_on (slot_of dev) (set ts \<union> set us)"
  using assms unfolding dev_rel_def by blast+

lemma dev_rel_tagD:
  assumes "dev_rel ts us dev m" and "t \<in> set ts \<union> set us"
  shows "t < unat (dd_queue_depth dev)" "slot_of dev t < unat (dr_staging_pages (dd_ring dev))"
    "dr_staging_bitmap (dd_ring dev) ! slot_of dev t"
    "\<exists>rq. dd_rqs dev t = Some rq \<and> is_page (seg_bytes (br_segments rq))"
  using assms unfolding dev_rel_def by blast+

lemma dev_rel_opD:
  assumes "dev_rel ts us dev m"
  shows "sp_pending m t = Some (WritePage i d) \<Longrightarrow>
      \<not> cmd_is_read (dd_pdu dev t) \<and> slot_bytes (dr_staging (dd_ring dev)) (slot_of dev t) = d"
    and "sp_pending m t = Some (ReadPage i) \<Longrightarrow> cmd_is_read (dd_pdu dev t)"
    and "sp_done m t = Some (ReadBack d) \<Longrightarrow>
      cmd_is_read (dd_pdu dev t) \<and> slot_bytes (dr_staging (dd_ring dev)) (slot_of dev t) = d"
    and "sp_done m t = Some Wrote \<Longrightarrow> \<not> cmd_is_read (dd_pdu dev t)"
  using assms unfolding dev_rel_def by blast+

lemma dev_relI:
  assumes "kring_ok (dd_ring dev)" "dr_daemon_connected (dd_ring dev)" "unat (dd_queue_depth dev) < 2 ^ 31"
    "distinct (ts @ us)" "set ts = dom (sp_pending m)" "set us = dom (sp_done m)"
    "length ts + length us < ring_cap (dd_ring dev)"
    "req_queue (dd_ring dev) = map (req_entry (dd_pdu dev) (sp_pending m)) ts"
    "comp_queue (dd_ring dev) = map (comp_entry (dd_pdu dev) (sp_done m)) us"
    "inj_on (slot_of dev) (set ts \<union> set us)"
    "\<And>t. t \<in> set ts \<union> set us \<Longrightarrow> t < unat (dd_queue_depth dev) \<and>
        slot_of dev t < unat (dr_staging_pages (dd_ring dev)) \<and>
        dr_staging_bitmap (dd_ring dev) ! slot_of dev t \<and>
        (\<exists>rq. dd_rqs dev t = Some rq \<and> is_page (seg_bytes (br_segments rq)))"
    "\<And>t i d. sp_pending m t = Some (WritePage i d) \<Longrightarrow>
        \<not> cmd_is_read (dd_pdu dev t) \<and> slot_bytes (dr_staging (dd_ring dev)) (slot_of dev t) = d"
    "\<And>t i. sp_pending m t = Some (ReadPage i) \<Longrightarrow> cmd_is_read (dd_pdu dev t)"
    "\<And>t d. sp_done m t = Some (ReadBack d) \<Longrightarrow>
        cmd_is_read (dd_pdu dev t) \<and> slot_bytes (dr_staging (dd_ring dev)) (slot_of dev t) = d"
    "\<And>t. sp_done m t = Some Wrote \<Longrightarrow> \<not> cmd_is_read (dd_pdu dev t)"
  shows "dev_rel ts us dev m"
  unfolding dev_rel_def by (intro conjI ballI allI impI) (use assms in blast)+

text \<open>What a step leaves alone of the requests in flight.\<close>

lemma dev_rel_frame:
  assumes rel: "dev_rel ts us dev m" and "kring_ok (dd_ring dev')"
    and same: "dr_daemon_connected (dd_ring dev')" "dd_queue_depth dev' = dd_queue_depth dev"
      "req_queue (dd_ring dev') = req_queue (dd_ring dev)" "comp_queue (dd_ring dev') = comp_queue (dd_ring dev)"
      "ring_cap (dd_ring dev') = ring_cap (dd_ring dev)"
      "dr_staging_pages (dd_ring dev') = dr_staging_pages (dd_ring dev)"
    and tags: "\<And>t. t \<in> set ts \<union> set us \<Longrightarrow> dd_pdu dev' t = dd_pdu dev t \<and> dd_rqs dev' t = dd_rqs dev t \<and>
      dr_staging_bitmap (dd_ring dev') ! slot_of dev t \<and>
      slot_bytes (dr_staging (dd_ring dev')) (slot_of dev t) = slot_bytes (dr_staging (dd_ring dev)) (slot_of dev t)"
  shows "dev_rel ts us dev' m"
proof -
  have sub: "sp_pending m t \<noteq> None \<Longrightarrow> t \<in> set ts \<union> set us" "sp_done m t \<noteq> None \<Longrightarrow> t \<in> set ts \<union> set us" for t
    using dev_relD(5,6) [OF rel] by (auto simp: domIff)
  have slots: "inj_on (slot_of dev') (set ts \<union> set us)"
    using dev_relD(10) [OF rel] tags by (auto simp: inj_on_def)
  have q: "map (req_entry (dd_pdu dev') (sp_pending m)) ts = map (req_entry (dd_pdu dev) (sp_pending m)) ts"
    "map (comp_entry (dd_pdu dev') (sp_done m)) us = map (comp_entry (dd_pdu dev) (sp_done m)) us"
    using tags by (simp_all add: req_entry_def comp_entry_def)
  show ?thesis
  proof (rule dev_relI, goal_cases)
    case (11 t) then show ?case using tags [OF 11] dev_rel_tagD [OF rel 11] same by simp
  next
    case (12 t i d) then show ?case using tags [OF sub(1), of t] dev_rel_opD(1) [OF rel 12] by simp
  next
    case (13 t i) then show ?case using tags [OF sub(1), of t] dev_rel_opD(2) [OF rel 13] by simp
  next
    case (14 t d) then show ?case using tags [OF sub(2), of t] dev_rel_opD(3) [OF rel 14] by simp
  next
    case (15 t) then show ?case using tags [OF sub(2), of t] dev_rel_opD(4) [OF rel 15] by simp
  qed (use assms(2) same dev_relD [OF rel] q slots in simp_all)
qed

section \<open>Queueing a request\<close>

lemma unat_slot: "s < unat (x :: u64) \<Longrightarrow> unat x < 2 ^ 31 \<Longrightarrow> unat (of_nat s :: u32) = s"
  by (rule unat_of_nat_len) simp

text \<open>
  Taking a free slot, filling it and writing the command data of a free tag does not disturb the
  requests in flight.
\<close>

lemma dev_rel_prepare:
  assumes rel: "dev_rel ts us dev m" and t: "t \<notin> set ts \<union> set us"
    and s: "s < unat (dr_staging_pages (dd_ring dev))" "\<not> dr_staging_bitmap (dd_ring dev) ! s"
    and bits: "\<And>k. k \<noteq> s \<Longrightarrow> bm ! k = dr_staging_bitmap (dd_ring dev) ! k" "length bm = length (dr_staging_bitmap (dd_ring dev))"
    and mem: "length mem = length (dr_staging (dd_ring dev))"
      "\<And>k. k \<noteq> s \<Longrightarrow> slot_bytes mem k = slot_bytes (dr_staging (dd_ring dev)) k"
  shows "dev_rel ts us (dev\<lparr>dd_rqs := (dd_rqs dev)(t \<mapsto> rq),
    dd_ring := (dd_ring dev)\<lparr>dr_staging_bitmap := bm, dr_staging := mem\<rparr>, dd_pdu := (dd_pdu dev)(t := cmd)\<rparr>) m"
proof (rule dev_rel_frame [OF rel], goal_cases)
  case 1
  then show ?case using dev_relD(1) [OF rel] bits(2) mem(1) by (simp add: kring_ok_def Let_def)
next
  case (8 u)
  then have "slot_of dev u \<noteq> s" using dev_rel_tagD(3) [OF rel 8] s(2) by auto
  with 8 t show ?case using dev_rel_tagD(3) [OF rel 8] bits(1) mem(2) by auto
qed (use dev_relD(2) [OF rel] in simp_all)

text \<open>The submission then appends the request.\<close>

lemma dev_rel_submit:
  assumes rel: "dev_rel ts us dev m" and t: "t \<notin> set ts \<union> set us" "t < unat (dd_queue_depth dev)"
    and room: "Suc (length ts + length us) < ring_cap (dd_ring dev)"
    and slot: "slot_of dev t < unat (dr_staging_pages (dd_ring dev))" "dr_staging_bitmap (dd_ring dev) ! slot_of dev t"
      "\<And>u. u \<in> set ts \<union> set us \<Longrightarrow> slot_of dev u \<noteq> slot_of dev t"
    and rq: "dd_rqs dev t = Some rq" "is_page (seg_bytes (br_segments rq))"
    and opn: "\<And>i d. op = WritePage i d \<Longrightarrow> \<not> cmd_is_read (dd_pdu dev t) \<and> slot_bytes (dr_staging (dd_ring dev)) (slot_of dev t) = d"
      "\<And>i. op = ReadPage i \<Longrightarrow> cmd_is_read (dd_pdu dev t)"
    and req: "req = req_entry (dd_pdu dev) (Map.empty(t \<mapsto> op)) t"
  obtains r where "duvm_ring_submit (dd_ring dev) req = Some (Inr (), r)"
    "dev_rel (ts @ [t]) us (dev\<lparr>dd_ring := r\<rparr>) (m\<lparr>sp_pending := (sp_pending m)(t \<mapsto> op)\<rparr>)"
proof -
  note D = dev_relD [OF rel]
  have "length (req_queue (dd_ring dev)) < ring_cap (dd_ring dev) - 1" using room D(8) by simp
  from submit_space [OF D(1,2) this, of req] obtain r where r:
    "duvm_ring_submit (dd_ring dev) req = Some (Inr (), r)" "kring_ok r"
    "req_queue r = req_queue (dd_ring dev) @ [req]" "comp_queue r = comp_queue (dd_ring dev)"
    "ring_cap r = ring_cap (dd_ring dev)"
    "r = (dd_ring dev)\<lparr>dr_requests := dr_requests r, dr_header := dr_header r\<rparr>" by metis
  have same: "dr_staging r = dr_staging (dd_ring dev)" "dr_staging_bitmap r = dr_staging_bitmap (dd_ring dev)"
    "dr_staging_pages r = dr_staging_pages (dd_ring dev)" "dr_daemon_connected r = dr_daemon_connected (dd_ring dev)"
    by (subst r(6), simp)+
  have pend: "sp_pending m t = None" "sp_done m t = None" using t(1) D(5,6) by auto
  have q: "map (req_entry (dd_pdu dev) ((sp_pending m)(t \<mapsto> op))) (ts @ [t]) = req_queue r"
    using t(1) D(8) r(3) req by (auto simp: req_entry_def)
  have "dev_rel (ts @ [t]) us (dev\<lparr>dd_ring := r\<rparr>) (m\<lparr>sp_pending := (sp_pending m)(t \<mapsto> op)\<rparr>)"
  proof (rule dev_relI, goal_cases)
    case 10
    have "slot_of dev t \<notin> slot_of dev ` (set ts \<union> set us)" using slot(3) by force
    with D(10) have "inj_on (slot_of dev) (insert t (set ts \<union> set us))" by (auto simp: inj_on_insert)
    then show ?case by simp
  next
    case (11 u)
    then show ?case using t(2) slot(1,2) rq dev_rel_tagD [OF rel, of u] same by auto
  next
    case (12 u i d)
    then show ?case using opn(1) dev_rel_opD(1) [OF rel, of u i d] same by (auto split: if_splits)
  next
    case (13 u i)
    then show ?case using opn(2) dev_rel_opD(2) [OF rel, of u i] by (auto split: if_splits)
  next
    case (14 u d)
    then show ?case using dev_rel_opD(3) [OF rel, of u d] same by simp
  next
    case (15 u)
    then show ?case using dev_rel_opD(4) [OF rel, of u] by simp
  qed (use r(2,4,5) same D t(1) room q in auto)
  then show thesis using r(1) by (rule that [rotated])
qed


definition dev_op_of :: "blk_rq \<Rightarrow> dev_op" where
  "dev_op_of rq = (if br_write rq then WritePage (br_sector rq div 8) (seg_bytes (br_segments rq))
                   else ReadPage (br_sector rq div 8))"

text \<open>The staging buffer after the copy of a request into slot \<open>s\<close>.\<close>

lemma staged:
  assumes "kring_ok r" and "s < unat (dr_staging_pages r)" and "is_page (seg_bytes (br_segments rq))"
  obtains mem where
    "stage_rq rq s (dr_staging r) = Some mem"
    "length mem = length (dr_staging r)" "br_write rq \<Longrightarrow> slot_bytes mem s = seg_bytes (br_segments rq)"
    "\<And>k. k \<noteq> s \<Longrightarrow> slot_bytes mem k = slot_bytes (dr_staging r) k"
proof (cases "br_write rq")
  case True
  have fit: "Suc s * PAGE_SIZE \<le> length (dr_staging r)"
    unfolding kring_okD(8) [OF assms(1)] using assms(2) by (intro mult_le_mono1) simp
  from mem_write_slot [OF this, of "seg_bytes (br_segments rq)"] assms(3) obtain mem where
    m: "mem_write (dr_staging r) (s * PAGE_SIZE) (seg_bytes (br_segments rq)) = Some mem"
    "length mem = length (dr_staging r)" "slot_bytes mem s = seg_bytes (br_segments rq)"
    "\<And>k. k \<noteq> s \<Longrightarrow> slot_bytes mem k = slot_bytes (dr_staging r) k" by (auto simp: is_page_def)
  have "copy_in (br_segments rq) (s * PAGE_SIZE) (dr_staging r) = Some mem"
    using copy_in_write [of "s * PAGE_SIZE" "br_segments rq" "dr_staging r"] fit assms(3) m(1)
    by (simp add: is_page_def)
  with True m show thesis by (intro that [of mem]) (simp_all add: stage_rq_def)
next
  case False
  then show thesis by (intro that [of "dr_staging r"]) (simp_all add: stage_rq_def)
qed

text \<open>The device with the request staged in slot \<open>s\<close>; the bit says whether the slot is taken.\<close>

definition staged_dev :: "duvm_device \<Rightarrow> blk_rq \<Rightarrow> nat \<Rightarrow> u8 list \<Rightarrow> bool \<Rightarrow> duvm_device" where
  "staged_dev dev rq s mem b =
     dev\<lparr>dd_rqs := (dd_rqs dev)(br_tag rq \<mapsto> rq),
         dd_ring := (dd_ring dev)\<lparr>dr_staging_bitmap := (dr_staging_bitmap (dd_ring dev))[s := b], dr_staging := mem\<rparr>,
         dd_pdu := (dd_pdu dev)(br_tag rq := rq_cmd rq s)\<rparr>"

lemma staged_dev_facts:
  assumes rel: "dev_rel ts us dev m" and s: "s < unat (dr_staging_pages (dd_ring dev))"
  shows "slot_of (staged_dev dev rq s mem b) (br_tag rq) = s"
    "(staged_dev dev rq s mem True)\<lparr>dd_ring := duvm_free_staging_slot (dd_ring (staged_dev dev rq s mem True)) (of_nat s)\<rparr>
      = staged_dev dev rq s mem False"
    "rq_request rq s = req_entry (dd_pdu (staged_dev dev rq s mem b)) (Map.empty(br_tag rq \<mapsto> dev_op_of rq)) (br_tag rq)"
  using unat_slot [OF s kring_okD(10) [OF dev_relD(1) [OF rel]]]
  by (simp_all add: staged_dev_def rq_cmd_def duvm_free_staging_slot_def rq_request_def req_entry_def dev_op_of_def
      DUVM_OP_STORE_def DUVM_OP_LOAD_def DUVM_PAGE_SECTORS_def)

lemma staged_submit:
  assumes rel: "dev_rel ts us dev m" and t: "br_tag rq \<notin> set ts \<union> set us" "br_tag rq < unat (dd_queue_depth dev)"
    and pg: "is_page (seg_bytes (br_segments rq))"
    and s: "s < unat (dr_staging_pages (dd_ring dev))" "\<not> dr_staging_bitmap (dd_ring dev) ! s"
    and mem: "br_write rq \<Longrightarrow> slot_bytes mem s = seg_bytes (br_segments rq)"
    and prep: "dev_rel ts us (staged_dev dev rq s mem True) m"
    and room: "Suc (length ts + length us) < ring_cap (dd_ring dev)"
    and sub: "duvm_ring_submit (dd_ring (staged_dev dev rq s mem True)) (rq_request rq s) = Some (Inr (), r)"
  shows "dev_rel (ts @ [br_tag rq]) us ((staged_dev dev rq s mem True)\<lparr>dd_ring := r\<rparr>)
    (m\<lparr>sp_pending := (sp_pending m)(br_tag rq \<mapsto> dev_op_of rq)\<rparr>)"
proof -
  let ?d = "staged_dev dev rq s mem True"
  note F = staged_dev_facts [OF rel s(1), of rq mem]
  have other: "slot_of ?d u \<noteq> slot_of ?d (br_tag rq)" if "u \<in> set ts \<union> set us" for u
    unfolding F(1) using dev_rel_tagD(3) [OF rel that] s(2) that t(1) by (auto simp: staged_dev_def)
  have pre: "br_tag rq < unat (dd_queue_depth ?d)" "Suc (length ts + length us) < ring_cap (dd_ring ?d)"
    "slot_of ?d (br_tag rq) < unat (dr_staging_pages (dd_ring ?d))"
    "dr_staging_bitmap (dd_ring ?d) ! slot_of ?d (br_tag rq)" "dd_rqs ?d (br_tag rq) = Some rq"
    unfolding F(1) using t(2) room s(1) kring_okD(9) [OF dev_relD(1) [OF rel]] by (simp_all add: staged_dev_def)
  have op: "dev_op_of rq = WritePage i d \<Longrightarrow>
      \<not> cmd_is_read (dd_pdu ?d (br_tag rq)) \<and> slot_bytes (dr_staging (dd_ring ?d)) (slot_of ?d (br_tag rq)) = d"
    "dev_op_of rq = ReadPage i \<Longrightarrow> cmd_is_read (dd_pdu ?d (br_tag rq))" for i d
    unfolding F(1) using mem by (auto simp: dev_op_of_def staged_dev_def rq_cmd_def split: if_splits)
  obtain r' where "duvm_ring_submit (dd_ring ?d) (rq_request rq s) = Some (Inr (), r')"
    "dev_rel (ts @ [br_tag rq]) us (?d\<lparr>dd_ring := r'\<rparr>) (m\<lparr>sp_pending := (sp_pending m)(br_tag rq \<mapsto> dev_op_of rq)\<rparr>)"
    by (rule dev_rel_submit [OF prep t(1) pre(1-4) other pre(5) pg _ _ F(3)]) (use op in blast)+
  with sub show ?thesis by simp
qed

lemma submit_rq_law:
  assumes rel: "dev_rel ts us dev m" and t: "br_tag rq \<notin> set ts \<union> set us" "br_tag rq < unat (dd_queue_depth dev)"
    and pg: "is_page (seg_bytes (br_segments rq))"
    and s: "s < unat (dr_staging_pages (dd_ring dev))" "\<not> dr_staging_bitmap (dd_ring dev) ! s"
    and mem: "length mem = length (dr_staging (dd_ring dev))" "br_write rq \<Longrightarrow> slot_bytes mem s = seg_bytes (br_segments rq)"
      "\<And>k. k \<noteq> s \<Longrightarrow> slot_bytes mem k = slot_bytes (dr_staging (dd_ring dev)) k"
    and sub: "submit_rq (staged_dev dev rq s mem True) rq s = Some (st, dev', evs)"
  shows "evs = [] \<and> (st = BLK_STS_RESOURCE \<and> dev_rel ts us dev' m \<or>
    st = BLK_STS_OK \<and> (Suc (length ts + length us) < ring_cap (dd_ring dev) \<longrightarrow>
      dev_rel (ts @ [br_tag rq]) us dev' (m\<lparr>sp_pending := (sp_pending m)(br_tag rq \<mapsto> dev_op_of rq)\<rparr>)))"
proof -
  let ?d = "staged_dev dev rq s mem"
  have prep: "dev_rel ts us (?d b) m" for b
    unfolding staged_dev_def by (rule dev_rel_prepare [OF rel t(1) s _ _ mem(1,3)]) simp_all
  note P = dev_relD [OF prep [of True]]
  show ?thesis
  proof (cases "length (req_queue (dd_ring (?d True))) < ring_cap (dd_ring (?d True)) - 1")
    case False
    then have "length (req_queue (dd_ring (?d True))) = ring_cap (dd_ring (?d True)) - 1" using P(7,8) by simp
    from submit_full [OF P(1,2) this] sub have "st = BLK_STS_RESOURCE \<and> evs = [] \<and>
      dev' = (?d True)\<lparr>dd_ring := duvm_free_staging_slot (dd_ring (?d True)) (of_nat s)\<rparr>"
      by (simp add: submit_rq_def)
    then show ?thesis using prep [of False] staged_dev_facts(2) [OF rel s(1)] by simp
  next
    case True
    from submit_space [OF P(1,2) True] obtain r where
      r: "duvm_ring_submit (dd_ring (?d True)) (rq_request rq s) = Some (Inr (), r)" by metis
    with sub have "st = BLK_STS_OK \<and> evs = [] \<and> dev' = (?d True)\<lparr>dd_ring := r\<rparr>" by (simp add: submit_rq_def)
    with staged_submit [OF rel t pg s mem(2) prep _ r] show ?thesis by blast
  qed
qed

lemma queue_async_law:
  assumes rel: "dev_rel ts us dev m" and t: "br_tag rq \<notin> set ts \<union> set us" "br_tag rq < unat (dd_queue_depth dev)"
    and pg: "is_page (seg_bytes (br_segments rq))"
    and q: "queue_async (dev\<lparr>dd_rqs := (dd_rqs dev)(br_tag rq \<mapsto> rq)\<rparr>) rq = Some (st, dev', evs)"
  shows "evs = [] \<and> (st = BLK_STS_RESOURCE \<and> dev_rel ts us dev' m \<or>
    st = BLK_STS_OK \<and> (Suc (length ts + length us) < ring_cap (dd_ring dev) \<longrightarrow>
      dev_rel (ts @ [br_tag rq]) us dev' (m\<lparr>sp_pending := (sp_pending m)(br_tag rq \<mapsto> dev_op_of rq)\<rparr>)))"
proof (cases "duvm_alloc_staging_slot (dd_ring dev)")
  case (Pair slot r)
  note D = dev_relD [OF rel]
  show ?thesis
  proof (cases slot)
    case None
    have "r = dd_ring dev" by (rule alloc_slot_None(1) [OF D(1) Pair [unfolded None]])
    with q Pair None have "st = BLK_STS_RESOURCE \<and> evs = [] \<and>
      dev' = dev\<lparr>dd_rqs := (dd_rqs dev)(br_tag rq \<mapsto> rq)\<rparr>" by (simp add: queue_async_def)
    moreover have "dev_rel ts us (dev\<lparr>dd_rqs := (dd_rqs dev)(br_tag rq \<mapsto> rq)\<rparr>) m"
    proof (rule dev_rel_frame [OF rel], goal_cases)
      case (8 u)
      then show ?case using t(1) dev_rel_tagD(3) [OF rel 8] by auto
    qed (use D(1,2) in simp_all)
    ultimately show ?thesis by simp
  next
    case (Some s)
    note S = alloc_slot_Some [OF D(1) Pair [unfolded Some]]
    have S2: "s < unat (dr_staging_pages r)" "dr_staging r = dr_staging (dd_ring dev)" using S(1,3) by simp_all
    from staged [OF S(4) S2(1) pg] S2(2) obtain mem where mem: "stage_rq rq s (dr_staging r) = Some mem"
      "length mem = length (dr_staging (dd_ring dev))" "br_write rq \<Longrightarrow> slot_bytes mem s = seg_bytes (br_segments rq)"
      "\<And>k. k \<noteq> s \<Longrightarrow> slot_bytes mem k = slot_bytes (dr_staging (dd_ring dev)) k" by metis
    have "submit_rq (staged_dev dev rq s mem True) rq s = Some (st, dev', evs)"
      using q Pair Some S(3) mem(1) by (simp add: queue_async_def staged_dev_def)
    from submit_rq_law [OF rel t pg S(1,2) mem(2-4) this] show ?thesis .
  qed
qed

section \<open>Serving a request\<close>

lemma poll_idle:
  assumes "kring_ok r" and "req_queue r = []"
  shows "poll_once V now it kc r e w = (Idle, r, e, w)"
proof -
  have "req_read_idx (dr_header r) = req_write_idx (dr_header r)"
    using circ_list_pop [OF kring_okD_nat(1,2) [OF assms(1)]] assms(2)
    by (metis req_queue_def list.distinct(1) word_unat_eq_iff)
  then show ?thesis
    by (simp add: poll_once_def read_u32_def HDR_REQ_READ_IDX_def HDR_REQ_WRITE_IDX_def Let_def)
qed

definition served :: "ring_request \<Rightarrow> i32 \<Rightarrow> ring_completion" where
  "served q res = \<lparr>rc_seq = rq_seq q, rc_result = res, rc_handle = 0, rc_staging_slot = rq_staging_slot q,
     rc_reserved = replicate 40 0\<rparr>"

text \<open>One round, as a pop of the request queue and a push on the completion queue.\<close>

lemma poll_ring:
  assumes ok: "kring_ok r" and mask: "kc_mask kc = hdr_capacity (dr_header r) - 1"
    and q: "req_queue r = q # qs" and room: "length (comp_queue r) < ring_cap r - 1"
    and srv: "serve_request V now it q (dr_staging r) e w = (Some (res, mem), e', w')"
    and mem: "length mem = length (dr_staging r)"
  obtains r' where "poll_once V now it kc r e w = (Served, r', e', w')" "kring_ok r'" "req_queue r' = qs"
    "comp_queue r' = comp_queue r @ [served q res]" "ring_cap r' = ring_cap r"
    "r' = r\<lparr>dr_staging := mem, dr_completions := dr_completions r', dr_header := dr_header r'\<rparr>"
proof -
  let ?h = "dr_header r" and ?c = "ring_cap r"
  let ?nr = "(req_read_idx ?h + 1) AND (hdr_capacity ?h - 1)"
  let ?nc = "(comp_write_idx ?h + 1) AND (hdr_capacity ?h - 1)"
  let ?r = "r\<lparr>dr_staging := mem, dr_completions := (dr_completions r)[unat (comp_write_idx ?h) := served q res],
    dr_header := ?h\<lparr>req_read_idx := ?nr, comp_write_idx := ?nc\<rparr>\<rparr>"
  note D = kring_okD [OF ok] and N = kring_okD_nat [OF ok]
  have ne: "unat (req_read_idx ?h) \<noteq> unat (req_write_idx ?h)" using q N by (auto simp: req_queue_def)
  have ur: "unat ?nr = Suc (unat (req_read_idx ?h)) mod ?c" using unat_masked_succ_u32 [OF D(1,3)] by (simp add: ring_cap_def)
  have uc: "unat ?nc = Suc (unat (comp_write_idx ?h)) mod ?c" using unat_masked_succ_u32 [OF D(1,4)] by (simp add: ring_cap_def)
  from circ_list_pop [OF N(1,2) ne, of "dr_requests r"] q
  have hd: "dr_requests r ! unat (req_read_idx ?h) = q" "req_queue ?r = qs"
    by (simp_all add: req_queue_def ring_cap_def ur [unfolded ring_cap_def])
  have "Suc (unat (comp_write_idx ?h)) mod ?c \<noteq> unat (comp_read_idx ?h)"
    using circ_full [OF N(3,4)] room by (simp add: comp_queue_def)
  from circ_list_push [OF N(3,4) D(7) this] have cq: "comp_queue ?r = comp_queue r @ [served q res]"
    by (simp add: comp_queue_def ring_cap_def uc [unfolded ring_cap_def])
  have k: "kring_ok ?r"
    using ok mem masked_succ_less_u32 [OF D(1,3)] masked_succ_less_u32 [OF D(1,4)] by (simp add: kring_ok_def Let_def)
  have "poll_once V now it kc r e w = (Served, ?r, e', w')"
    using ne hd(1) srv N D(6,7) mask
    by (auto simp: poll_once_def read_u32_def write_u32_def HDR_REQ_READ_IDX_def HDR_REQ_WRITE_IDX_def
        HDR_COMP_WRITE_IDX_def Let_def served_def)
  then show thesis using k hd(2) cq by (intro that [of ?r]) (simp_all add: ring_cap_def)
qed

lemma poll_crash:
  assumes ok: "kring_ok r" and q: "req_queue r = q # qs"
    and srv: "serve_request V now it q (dr_staging r) e w = (None, e', w')"
  shows "fst (poll_once V now it kc r e w) = Crashed"
proof -
  note D = kring_okD [OF ok] and N = kring_okD_nat [OF ok]
  have ne: "unat (req_read_idx (dr_header r)) \<noteq> unat (req_write_idx (dr_header r))" using q N by (auto simp: req_queue_def)
  from circ_list_pop [OF N(1,2) this, of "dr_requests r"] q
  have "dr_requests r ! unat (req_read_idx (dr_header r)) = q" by (simp add: req_queue_def ring_cap_def)
  then show ?thesis using ne srv
    by (auto simp: poll_once_def read_u32_def HDR_REQ_READ_IDX_def HDR_REQ_WRITE_IDX_def Let_def)
qed

lemma dev_rel_served:
  assumes rel: "dev_rel (t # ts) us dev m" and ok: "kring_ok r"
    and q: "req_queue r = map (req_entry (dd_pdu dev) (sp_pending m)) ts"
      "comp_queue r = comp_queue (dd_ring dev) @ [served (req_entry (dd_pdu dev) (sp_pending m) t) res]"
    and same: "ring_cap r = ring_cap (dd_ring dev)" "dr_daemon_connected r" "dr_staging_pages r = dr_staging_pages (dd_ring dev)"
      "dr_staging_bitmap r = dr_staging_bitmap (dd_ring dev)"
      "\<And>k. k \<noteq> slot_of dev t \<Longrightarrow> slot_bytes (dr_staging r) k = slot_bytes (dr_staging (dd_ring dev)) k"
    and ans: "res = (if a = Failed then - 1 else 0)" "a = Wrote \<Longrightarrow> \<not> cmd_is_read (dd_pdu dev t)"
      "\<And>d. a = ReadBack d \<Longrightarrow> cmd_is_read (dd_pdu dev t) \<and> slot_bytes (dr_staging r) (slot_of dev t) = d"
  shows "dev_rel ts (us @ [t]) (dev\<lparr>dd_ring := r\<rparr>)
    (m\<lparr>sp_pages := pg, sp_pending := (sp_pending m)(t := None), sp_done := (sp_done m)(t \<mapsto> a)\<rparr>)"
proof -
  note D = dev_relD [OF rel]
  have tn: "t \<notin> set ts" "t \<notin> set us" using D(4) by auto
  have slots: "slot_of dev u \<noteq> slot_of dev t" if "u \<in> set ts \<union> set us" for u
    using inj_onD [OF D(10), of u t] that tn by auto
  have q1: "req_queue r = map (req_entry (dd_pdu dev) ((sp_pending m)(t := None))) ts"
    using q(1) tn by (auto simp: req_entry_def)
  have q2: "comp_queue r = map (comp_entry (dd_pdu dev) ((sp_done m)(t \<mapsto> a))) (us @ [t])"
    using q(2) D(9) tn ans(1) by (auto simp: comp_entry_def served_def req_entry_def)
  show ?thesis
  proof (rule dev_relI, goal_cases)
    case 10
    then show ?case using D(10) by (simp add: insert_commute Un_commute)
  next
    case (11 u)
    then show ?case using dev_rel_tagD [OF rel, of u] same by auto
  next
    case (12 u i d)
    then have "sp_pending m u = Some (WritePage i d)" "u \<noteq> t" by (auto split: if_splits)
    moreover then have "u \<in> set ts" using D(5) by auto
    ultimately show ?case using dev_rel_opD(1) [OF rel, of u i d] same(5) slots [of u] by simp
  next
    case (13 u i)
    then show ?case using dev_rel_opD(2) [OF rel, of u i] by (auto split: if_splits)
  next
    case (14 u d)
    then show ?case
      using ans(3) dev_rel_opD(3) [OF rel, of u d] same(5) slots [of u] D(6) by (auto split: if_splits)
  next
    case (15 u)
    then show ?case using ans(2) dev_rel_opD(4) [OF rel, of u] by (auto split: if_splits)
  qed (use ok same D tn q1 q2 in auto)
qed

section \<open>Harvesting a completion\<close>

lemma tag_of_seq:
  assumes "t < unat (d :: u32)" and "unat d < 2 ^ 31"
  shows "sint ((of_nat t + 1 :: u32) - 1) = int t" "\<not> sint d \<le> int t"
proof -
  have "sint (of_nat n :: u32) = int n" if "n < 2 ^ 31" for n
    using that by (simp add: signed_of_nat signed_take_bit_int_eq_self)
  then have s: "sint (of_nat t :: u32) = int t" "sint d = int (unat d)" using assms by (force, force)
  show "sint ((of_nat t + 1 :: u32) - 1) = int t" using s(1) by simp
  show "\<not> sint d \<le> int t" unfolding s(2) using assms(1) by linarith
qed

text \<open>Giving back the slot of the oldest answer.\<close>

lemma dev_rel_release:
  assumes rel: "dev_rel ts (t # us) dev m" and ok: "kring_ok r"
    and q: "req_queue r = req_queue (dd_ring dev)" "comp_queue r = map (comp_entry (dd_pdu dev) (sp_done m)) us"
    and same: "ring_cap r = ring_cap (dd_ring dev)" "dr_daemon_connected r" "dr_staging_pages r = dr_staging_pages (dd_ring dev)"
      "dr_staging_bitmap r = dr_staging_bitmap (dd_ring dev)" "dr_staging r = dr_staging (dd_ring dev)"
  shows "dev_rel ts us (dev\<lparr>dd_ring := duvm_free_staging_slot r (cmd_staging_slot (dd_pdu dev t)),
      dd_rqs := (dd_rqs dev)(t \<mapsto> rq)\<rparr>) (m\<lparr>sp_done := (sp_done m)(t := None)\<rparr>)"
proof -
  note D = dev_relD [OF rel]
  have tn: "t \<notin> set ts" "t \<notin> set us" using D(4) by auto
  have slots: "slot_of dev u \<noteq> slot_of dev t" if "u \<in> set ts \<union> set us" for u
    using inj_onD [OF D(10), of u t] that tn by auto
  have q2: "comp_queue r = map (comp_entry (dd_pdu dev) ((sp_done m)(t := None))) us"
    using q(2) tn by (auto simp: comp_entry_def)
  have free: "duvm_free_staging_slot r (cmd_staging_slot (dd_pdu dev t)) =
    r\<lparr>dr_staging_bitmap := (dr_staging_bitmap r)[slot_of dev t := False]\<rparr>" by (simp add: duvm_free_staging_slot_def)
  show ?thesis
  proof (rule dev_relI, goal_cases)
    case 1
    then show ?case using ok by simp
  next
    case 10
    then show ?case using D(10) by (auto intro: inj_on_subset)
  next
    case (11 u)
    then have "u \<noteq> t" using tn by auto
    with 11 show ?case using dev_rel_tagD [OF rel, of u] same slots [of u] by (simp add: free)
  next
    case (12 u i d)
    then show ?case using dev_rel_opD(1) [OF rel, of u i d] same by (simp add: free)
  next
    case (13 u i)
    then show ?case using dev_rel_opD(2) [OF rel, of u i] by simp
  next
    case (14 u d)
    then show ?case using dev_rel_opD(3) [OF rel, of u d] same by (auto simp: free split: if_splits)
  next
    case (15 u)
    then show ?case using dev_rel_opD(4) [OF rel, of u] by (auto split: if_splits)
  qed (use same D tn q(1) q2 in \<open>auto simp: free\<close>)
qed

lemma harvest_empty:
  assumes "kring_ok (dd_ring dev)" and "comp_queue (dd_ring dev) = []"
  shows "harvest_one dev = Some (False, dev, [])"
  using poll_empty [OF assms] by (simp add: harvest_one_def)

lemma harvest_law:
  assumes rel: "dev_rel ts (t # us) dev m"
  obtains dev' segs a where
    "harvest_one dev = Some (True, dev', [EndRequest t (if a = Failed then BLK_STS_IOERR else BLK_STS_OK) segs])"
    "sp_done m t = Some a" "\<And>d. a = ReadBack d \<Longrightarrow> seg_bytes segs = d"
    "dev_rel ts us dev' (m\<lparr>sp_done := (sp_done m)(t := None)\<rparr>)"
proof -
  note D = dev_relD [OF rel]
  have tin: "t \<in> set ts \<union> set (t # us)" by simp
  note T = dev_rel_tagD [OF rel tin]
  from D(6) obtain a where a: "sp_done m t = Some a" by (metis domD list.set_intros(1))
  from T(4) obtain rq where rq: "dd_rqs dev t = Some rq" "is_page (seg_bytes (br_segments rq))" by blast
  let ?c = "comp_entry (dd_pdu dev) (sp_done m) t" and ?cmd = "dd_pdu dev t"
  have "comp_queue (dd_ring dev) = ?c # map (comp_entry (dd_pdu dev) (sp_done m)) us" using D(9) by simp
  from poll_some [OF D(1) this] obtain r where r: "duvm_ring_poll_completion (dd_ring dev) = Some (Inr ?c, r)" "kring_ok r"
    "comp_queue r = map (comp_entry (dd_pdu dev) (sp_done m)) us" "req_queue r = req_queue (dd_ring dev)"
    "ring_cap r = ring_cap (dd_ring dev)" "r = (dd_ring dev)\<lparr>dr_header := dr_header r\<rparr>" by metis
  have same: "dr_staging r = dr_staging (dd_ring dev)" "dr_staging_bitmap r = dr_staging_bitmap (dd_ring dev)"
    "dr_staging_pages r = dr_staging_pages (dd_ring dev)" "dr_daemon_connected r"
    by (subst r(6), simp add: D(2))+
  have fit: "slot_of dev t * PAGE_SIZE + length (seg_bytes (br_segments rq)) \<le> length (dr_staging r)"
  proof -
    have "Suc (slot_of dev t) * PAGE_SIZE \<le> unat (dr_staging_pages (dd_ring dev)) * PAGE_SIZE"
      using T(2) by (intro mult_le_mono1) simp
    then show ?thesis using rq(2) kring_okD(8) [OF D(1)] same(1) by (simp add: is_page_def)
  qed
  from copy_out_read [OF this] obtain segs where segs:
    "copy_out (br_segments rq) (slot_of dev t * PAGE_SIZE) (dr_staging r) = Some segs"
    "seg_bytes segs = slot_bytes (dr_staging r) (slot_of dev t)"
    using rq(2) by (metis is_page_def slot_bytes_def)
  define segs' where "segs' = (if cmd_is_read ?cmd \<and> rc_result ?c = 0 then segs else br_segments rq)"
  define dev' where "dev' = dev\<lparr>dd_ring := duvm_free_staging_slot r (cmd_staging_slot ?cmd),
    dd_rqs := (dd_rqs dev)(t \<mapsto> rq\<lparr>br_segments := segs'\<rparr>)\<rparr>"
  have tag: "sint (rc_seq ?c - 1) = int t" "\<not> sint (dd_queue_depth dev) \<le> int t"
    using tag_of_seq [OF T(1) D(3)] by (simp_all add: comp_entry_def)
  have "harvest_one dev = Some (True, dev', [EndRequest t (if rc_result ?c = 0 then BLK_STS_OK else BLK_STS_IOERR) segs'])"
    using r(1) tag rq(1) segs(1) by (simp add: harvest_one_def Let_def dev'_def segs'_def)
  moreover have "rc_result ?c = 0 \<longleftrightarrow> a \<noteq> Failed" using a by (simp add: comp_entry_def)
  ultimately have h: "harvest_one dev =
    Some (True, dev', [EndRequest t (if a = Failed then BLK_STS_IOERR else BLK_STS_OK) segs'])"
    by (cases "a = Failed") simp_all
  have "dev_rel ts us dev' (m\<lparr>sp_done := (sp_done m)(t := None)\<rparr>)"
    unfolding dev'_def by (rule dev_rel_release [OF rel r(2,4,3,5) same(4,3,2,1)])
  moreover have "seg_bytes segs' = d" if "a = ReadBack d" for d
    using dev_rel_opD(3) [OF rel, of t d] a that segs(2) same(1) by (simp add: segs'_def comp_entry_def)
  ultimately show thesis using h a by (intro that)
qed

section \<open>The simulation\<close>

text \<open>The machine and the specification are in step: device, engine and pages.\<close>

definition machine_rel ::
  "('b engine \<Rightarrow> 'w \<Rightarrow> bool) \<Rightarrow> ('b engine \<Rightarrow> 'w \<Rightarrow> u64 \<rightharpoonup> page) \<Rightarrow> kmod_consumer \<Rightarrow>
   ('b, 'w) machine \<Rightarrow> dev_spec \<Rightarrow> bool" where
  "machine_rel eok epages kc s m \<longleftrightarrow>
     (\<exists>ts us. dev_rel ts us (sm_dev s) m \<and> sm_busy s = set ts \<union> set us) \<and>
     kc_mask kc = hdr_capacity (dr_header (dd_ring (sm_dev s))) - 1 \<and>
     eok (sm_engine s) (sm_world s) \<and> epages (sm_engine s) (sm_world s) \<subseteq>\<^sub>m sp_pages m"

lemma slot_bytes_page:
  "kring_ok r \<Longrightarrow> s < unat (dr_staging_pages r) \<Longrightarrow> is_page (slot_bytes (dr_staging r) s) \<and> Suc s * PAGE_SIZE \<le> length (dr_staging r)"
proof -
  assume r: "kring_ok r" and s: "s < unat (dr_staging_pages r)"
  have "Suc s * PAGE_SIZE \<le> unat (dr_staging_pages r) * PAGE_SIZE" using s by (intro mult_le_mono1) simp
  then show ?thesis using kring_okD(8) [OF r] by (simp add: slot_bytes_def is_page_def)
qed

text \<open>No operation changes the capacity in the header.\<close>

abbreviation hdr_cap :: "duvm_ring \<Rightarrow> u32" where
  "hdr_cap r \<equiv> hdr_capacity (dr_header r)"

lemma submit_capacity: "duvm_ring_submit r q = Some (x, r') \<Longrightarrow> hdr_cap r' = hdr_cap r"
  by (auto simp: duvm_ring_submit_def Let_def split: if_splits)

lemma queue_capacity:
  assumes "queue_async dev rq = Some (st, dev', evs)"
  shows "hdr_cap (dd_ring dev') = hdr_cap (dd_ring dev)"
proof -
  have sub: "hdr_cap (dd_ring d') = hdr_cap (dd_ring d)" if "submit_rq d rq s = Some (st, d', evs)" for d d' s
    using that submit_capacity [of "dd_ring d"]
    by (auto simp: submit_rq_def duvm_free_staging_slot_def Let_def split: option.splits sum.splits if_splits)
  have alloc: "hdr_cap r' = hdr_cap r" if "duvm_alloc_staging_slot r = (x, r')" for r r' x
    using that by (auto simp: duvm_alloc_staging_slot_def Let_def split: if_splits)
  from assms alloc [of "dd_ring dev"] show ?thesis
    by (auto simp: queue_async_def dest!: sub split: prod.splits option.splits)
qed

lemma harvest_capacity: "harvest_one dev = Some (b, dev', evs) \<Longrightarrow> hdr_cap (dd_ring dev') = hdr_cap (dd_ring dev)"
  by (auto simp: harvest_one_def duvm_ring_poll_completion_def duvm_free_staging_slot_def Let_def
      split: option.splits if_splits)

text \<open>What carrying out the request of tag \<open>t\<close> with answer \<open>a\<close> leaves in the staging buffer and in the specification.\<close>

definition carried_out ::
  "dev_spec \<Rightarrow> duvm_device \<Rightarrow> nat \<Rightarrow> i32 \<Rightarrow> u8 list \<Rightarrow> dev_answer \<Rightarrow> (u64 \<rightharpoonup> page) \<Rightarrow> bool" where
  "carried_out m dev t res mem a pg \<longleftrightarrow>
     spec_step m Silent
       (m\<lparr>sp_pages := pg, sp_pending := (sp_pending m)(t := None), sp_done := (sp_done m)(t \<mapsto> a)\<rparr>) \<and>
     length mem = length (dr_staging (dd_ring dev)) \<and>
     (\<forall>k. k \<noteq> slot_of dev t \<longrightarrow> slot_bytes mem k = slot_bytes (dr_staging (dd_ring dev)) k) \<and>
     res = (if a = Failed then - 1 else 0) \<and> (a = Wrote \<longrightarrow> \<not> cmd_is_read (dd_pdu dev t)) \<and>
     (\<forall>d. a = ReadBack d \<longrightarrow> cmd_is_read (dd_pdu dev t) \<and> slot_bytes mem (slot_of dev t) = d)"

context engine_on
begin

lemma pages_are_pages: "ok e w \<Longrightarrow> pages e w x = Some d \<Longrightarrow> is_page d"
  by (metis ok_dom ok_tracked contents_page option.distinct(1) option.exhaust option.inject)

lemma serve_write:
  assumes it: "permutes_entries it" and ok: "ok e w" and le: "pages e w \<subseteq>\<^sub>m sp_pages m"
    and slot: "Suc (slot_of dev t) * PAGE_SIZE \<le> length (dr_staging (dd_ring dev))"
    and t: "sp_pending m t = Some (WritePage i d)" "\<not> cmd_is_read (dd_pdu dev t)" "is_page d"
      "slot_bytes (dr_staging (dd_ring dev)) (slot_of dev t) = d"
    and srv: "serve_request V now it (req_entry (dd_pdu dev) (sp_pending m) t) (dr_staging (dd_ring dev)) e w = (Some (res, mem), e', w')"
  shows "\<exists>a pg. carried_out m dev t res mem a pg \<and> ok e' w' \<and> pages e' w' \<subseteq>\<^sub>m pg"
proof -
  let ?mem = "dr_staging (dd_ring dev)"
  obtain r e1 w1 where run: "store_page V now it e i d w = (r, e1, w1)" by (metis prod_cases3)
  have "serve_request V now it (req_entry (dd_pdu dev) (sp_pending m) t) ?mem e w =
    (case r of Ok h \<Rightarrow> Some (0, ?mem) | Err er \<Rightarrow> Some (- 1, ?mem) | Panic \<Rightarrow> None, e1, w1)"
    using run mem_read_slot [OF slot] t by (cases r) (simp_all add: serve_request_def req_entry_def Let_def)
  with srv have R: "r \<noteq> Panic" "res = (if is_ok r then 0 else - 1)" "mem = ?mem" "e1 = e'" "w1 = w'" by (cases r; simp)+
  have "eng_step V now it (EStore i d) e w = (RStored r, e', w')" using run R(4,5) by simp
  from eng_step_law [OF it _ ok le this] R(1) t(3)
  have L: "ok e' w'" "pages e' w' \<subseteq>\<^sub>m written (sp_pages m) (EStore i d) (RStored r)" by (auto simp: panicked_def)
  show ?thesis
  proof (cases r)
    case (Ok h)
    with L R(2,3) t do_write [OF t(1)] have "carried_out m dev t res mem Wrote ((sp_pages m)(i \<mapsto> d))"
      by (simp add: carried_out_def)
    then show ?thesis using L Ok by auto
  next
    case (Err er)
    with L R(2,3) t fail_write [OF t(1)] have "carried_out m dev t res mem Failed ((sp_pages m)(i := None))"
      by (simp add: carried_out_def)
    then show ?thesis using L Err by auto
  qed (use R(1) in simp)
qed

lemma serve_read:
  assumes ok: "ok e w" and le: "pages e w \<subseteq>\<^sub>m sp_pages m"
    and slot: "Suc (slot_of dev t) * PAGE_SIZE \<le> length (dr_staging (dd_ring dev))"
    and t: "sp_pending m t = Some (ReadPage i)" "cmd_is_read (dd_pdu dev t)"
    and srv: "serve_request V now it (req_entry (dd_pdu dev) (sp_pending m) t) (dr_staging (dd_ring dev)) e w = (Some (res, mem), e', w')"
  shows "\<exists>a pg. carried_out m dev t res mem a pg \<and> ok e' w' \<and> pages e' w' \<subseteq>\<^sub>m pg"
proof -
  let ?mem = "dr_staging (dd_ring dev)"
  obtain r e1 w1 where run: "load_page V now e i w = (r, e1, w1)" by (metis prod_cases3)
  show ?thesis
  proof (cases r)
    case (Ok d)
    from load_page_law [OF ok run] Ok have L: "ok e1 w1" "pages e1 w1 = pages e w" "pages e w i = Some d" by simp_all
    have "length d = PAGE_SIZE" using pages_are_pages [OF ok L(3)] by (simp add: is_page_def)
    from mem_write_slot [OF slot this] obtain mem' where
      M: "mem_write ?mem (slot_of dev t * PAGE_SIZE) d = Some mem'" "length mem' = length ?mem"
      "slot_bytes mem' (slot_of dev t) = d" "\<And>k. k \<noteq> slot_of dev t \<Longrightarrow> slot_bytes mem' k = slot_bytes ?mem k" by metis
    have R: "res = 0" "mem = mem'" "e1 = e'" "w1 = w'"
      using srv run Ok M(1) t(1) by (simp_all add: serve_request_def req_entry_def Let_def)
    have "carried_out m dev t res mem (ReadBack d) (sp_pages m)"
      using do_read [OF t(1) map_le_Some [OF le L(3)]] R M(2-4) t(2) by (simp add: carried_out_def)
    then show ?thesis using L R le by auto
  next
    case (Err er)
    from load_page_law [OF ok run] Err have L: "ok e1 w1" "pages e1 w1 = pages e w" by simp_all
    have R: "res = - 1" "mem = ?mem" "e1 = e'" "w1 = w'"
      using srv run Err t(1) by (simp_all add: serve_request_def req_entry_def Let_def)
    have "carried_out m dev t res mem Failed (sp_pages m)"
      using fail_read [OF t(1)] R by (simp add: carried_out_def)
    then show ?thesis using L R le by auto
  next
    case Panic
    with srv run t(1) show ?thesis by (simp add: serve_request_def req_entry_def Let_def)
  qed
qed

lemma serve_law:
  assumes it: "permutes_entries it" and rel: "dev_rel (t # ts) us dev m" and ok: "ok e w" and le: "pages e w \<subseteq>\<^sub>m sp_pages m"
    and srv: "serve_request V now it (req_entry (dd_pdu dev) (sp_pending m) t) (dr_staging (dd_ring dev)) e w = (Some (res, mem), e', w')"
  shows "\<exists>a pg. carried_out m dev t res mem a pg \<and> ok e' w' \<and> pages e' w' \<subseteq>\<^sub>m pg"
proof -
  note D = dev_relD [OF rel]
  have "t \<in> set (t # ts) \<union> set us" by simp
  note P = slot_bytes_page [OF D(1) dev_rel_tagD(2) [OF rel this]]
  from D(5) obtain op where op: "sp_pending m t = Some op" by (metis domD list.set_intros(1))
  show ?thesis
  proof (cases op)
    case (WritePage i d)
    note W = dev_rel_opD(1) [OF rel op [unfolded WritePage]]
    with P show ?thesis by (intro serve_write [OF it ok le _ op [unfolded WritePage] _ _ _ srv]) auto
  next
    case (ReadPage i)
    from P dev_rel_opD(2) [OF rel op [unfolded ReadPage]] show ?thesis
      by (intro serve_read [OF ok le _ op [unfolded ReadPage] _ srv]) auto
  qed
qed

text \<open>One round of the consumer is one silent step of the specification.\<close>

lemma poll_law:
  assumes it: "permutes_entries it" and rel: "dev_rel ts us dev m" and ok: "ok e w" and le: "pages e w \<subseteq>\<^sub>m sp_pages m"
    and mask: "kc_mask kc = hdr_capacity (dr_header (dd_ring dev)) - 1"
    and poll: "poll_once V now it kc (dd_ring dev) e w = (Served, r, e', w')"
  shows "\<exists>m' t ts'. ts = t # ts' \<and> spec_step m Silent m' \<and> dev_rel ts' (us @ [t]) (dev\<lparr>dd_ring := r\<rparr>) m' \<and>
    ok e' w' \<and> pages e' w' \<subseteq>\<^sub>m sp_pages m' \<and> ring_cap r = ring_cap (dd_ring dev)"
proof (cases ts)
  case Nil
  then have "req_queue (dd_ring dev) = []" using dev_relD(8) [OF rel] by simp
  from poll_idle [OF dev_relD(1) [OF rel] this, of V now it kc e w] poll show ?thesis by simp
next
  case (Cons t ts')
  note rel = rel [unfolded Cons]
  note D = dev_relD [OF rel]
  let ?q = "req_entry (dd_pdu dev) (sp_pending m)"
  have q: "req_queue (dd_ring dev) = ?q t # map ?q ts'" using D(8) by simp
  have room: "length (comp_queue (dd_ring dev)) < ring_cap (dd_ring dev) - 1" using D(7,9) by simp
  obtain ans e1 w1 where srv: "serve_request V now it (?q t) (dr_staging (dd_ring dev)) e w = (ans, e1, w1)"
    by (metis prod_cases3)
  have "ans \<noteq> None"
  proof
    assume "ans = None"
    from poll_crash [OF D(1) q srv [unfolded this], of kc] poll show False by simp
  qed
  then obtain res mem where ans: "ans = Some (res, mem)" by auto
  from serve_law [OF it rel ok le srv [unfolded ans]] obtain a pg where
    A: "carried_out m dev t res mem a pg" "ok e1 w1" "pages e1 w1 \<subseteq>\<^sub>m pg" by blast
  have "length mem = length (dr_staging (dd_ring dev))" using A(1) by (simp add: carried_out_def)
  from poll_ring [OF D(1) mask q room srv [unfolded ans] this] obtain r' where
    R': "poll_once V now it kc (dd_ring dev) e w = (Served, r', e1, w1)" "kring_ok r'" "req_queue r' = map ?q ts'"
      "comp_queue r' = comp_queue (dd_ring dev) @ [served (?q t) res]" "ring_cap r' = ring_cap (dd_ring dev)"
      "r' = (dd_ring dev)\<lparr>dr_staging := mem, dr_completions := dr_completions r', dr_header := dr_header r'\<rparr>" .
  from R'(1) poll have eq: "r' = r" "e1 = e'" "w1 = w'" by simp_all
  note R = R'(2-6) [unfolded eq(1)]
  have same: "dr_daemon_connected r" "dr_staging_pages r = dr_staging_pages (dd_ring dev)"
    "dr_staging_bitmap r = dr_staging_bitmap (dd_ring dev)" "dr_staging r = mem"
    by (subst R(5), simp add: D(2))+
  let ?m = "m\<lparr>sp_pages := pg, sp_pending := (sp_pending m)(t := None), sp_done := (sp_done m)(t \<mapsto> a)\<rparr>"
  have "dev_rel ts' (us @ [t]) (dev\<lparr>dd_ring := r\<rparr>) ?m"
    using A(1) same by (intro dev_rel_served [OF rel R(1-4) same(1-3)]) (auto simp: carried_out_def)
  moreover have "spec_step m Silent ?m" using A(1) by (simp add: carried_out_def)
  ultimately show ?thesis using A(2,3) R(4) eq Cons
    by (intro exI [of _ ?m] exI [of _ t] exI [of _ ts']) auto
qed


text \<open>Every step of the machine is a step of the specification with the same event.\<close>

abbreviation in_step :: "kmod_consumer \<Rightarrow> ('a, 'b) machine \<Rightarrow> dev_spec \<Rightarrow> bool" where
  "in_step \<equiv> machine_rel ok pages"

lemma in_stepE:
  assumes "in_step kc s m"
  obtains ts us where "dev_rel ts us (sm_dev s) m" "sm_busy s = set ts \<union> set us"
    "kc_mask kc = hdr_capacity (dr_header (dd_ring (sm_dev s))) - 1"
    "ok (sm_engine s) (sm_world s)" "pages (sm_engine s) (sm_world s) \<subseteq>\<^sub>m sp_pages m"
    "card (sm_busy s) = length ts + length us"
  using assms unfolding machine_rel_def
  by (metis dev_relD(4) distinct_card length_append set_append)

end

lemma sim_queue:
  assumes R: "dev_rel ts us dev m" and rq: "swap_rq rq" "br_tag rq \<notin> set ts \<union> set us" "br_tag rq < unat (dd_queue_depth dev)"
    and q: "duvm_queue_rq alloc xa_ok junk (dev\<lparr>dd_rqs := (dd_rqs dev)(br_tag rq \<mapsto> rq)\<rparr>) rq = Some (st, dev', [])"
  shows "hdr_cap (dd_ring dev') = hdr_cap (dd_ring dev)"
    and "st = BLK_STS_RESOURCE \<Longrightarrow> dev_rel ts us dev' m"
    and "st = BLK_STS_OK \<Longrightarrow> Suc (length ts + length us) < ring_cap (dd_ring dev) \<Longrightarrow>
      dev_rel (ts @ [br_tag rq]) us dev' (m\<lparr>sp_pending := (sp_pending m)(br_tag rq \<mapsto> dev_op_of rq)\<rparr>)"
    and "spec_step m (Queued (br_tag rq) (br_write rq) (br_sector rq div 8) (seg_bytes (br_segments rq)))
      (m\<lparr>sp_pending := (sp_pending m)(br_tag rq \<mapsto> dev_op_of rq)\<rparr>)"
proof -
  have q': "queue_async (dev\<lparr>dd_rqs := (dd_rqs dev)(br_tag rq \<mapsto> rq)\<rparr>) rq = Some (st, dev', [])"
    using q dev_relD(2) [OF R] by (simp add: duvm_queue_rq_def)
  show "hdr_cap (dd_ring dev') = hdr_cap (dd_ring dev)" using queue_capacity [OF q'] by simp
  have "is_page (seg_bytes (br_segments rq))" using rq(1) by (simp add: swap_rq_def)
  note L = queue_async_law [OF R rq(2,3) this q']
  show "st = BLK_STS_RESOURCE \<Longrightarrow> dev_rel ts us dev' m" using L by simp
  show "st = BLK_STS_OK \<Longrightarrow> Suc (length ts + length us) < ring_cap (dd_ring dev) \<Longrightarrow>
      dev_rel (ts @ [br_tag rq]) us dev' (m\<lparr>sp_pending := (sp_pending m)(br_tag rq \<mapsto> dev_op_of rq)\<rparr>)"
    using L by simp
  have none: "sp_pending m (br_tag rq) = None" "sp_done m (br_tag rq) = None"
    using rq(2) dev_relD(5,6) [OF R] by auto
  show "spec_step m (Queued (br_tag rq) (br_write rq) (br_sector rq div 8) (seg_bytes (br_segments rq)))
      (m\<lparr>sp_pending := (sp_pending m)(br_tag rq \<mapsto> dev_op_of rq)\<rparr>)"
    using submit_write [OF none] submit_read [OF none] by (simp add: dev_op_of_def)
qed

lemma sim_harvest:
  assumes R: "dev_rel ts us dev m" and h: "harvest_one dev = Some (True, dev', evs)"
  obtains t us' a segs where "us = t # us'"
    "evs = [EndRequest t (if a = Failed then BLK_STS_IOERR else BLK_STS_OK) segs]"
    "hdr_cap (dd_ring dev') = hdr_cap (dd_ring dev)" "dev_rel ts us' dev' (m\<lparr>sp_done := (sp_done m)(t := None)\<rparr>)"
    "spec_step m (Ended t (a \<noteq> Failed) (seg_bytes segs)) (m\<lparr>sp_done := (sp_done m)(t := None)\<rparr>)"
proof -
  have "us \<noteq> []"
  proof
    assume "us = []"
    then have "comp_queue (dd_ring dev) = []" using dev_relD(9) [OF R] by simp
    from harvest_empty [OF dev_relD(1) [OF R] this] h show False by simp
  qed
  then obtain t us' where us: "us = t # us'" by (cases us) simp_all
  show thesis
  proof (rule harvest_law [OF R [unfolded us]])
    fix dev1 segs a
    assume A: "harvest_one dev =
        Some (True, dev1, [EndRequest t (if a = Failed then BLK_STS_IOERR else BLK_STS_OK) segs])"
      "sp_done m t = Some a" "\<And>d. a = ReadBack d \<Longrightarrow> seg_bytes segs = d"
      "dev_rel ts us' dev1 (m\<lparr>sp_done := (sp_done m)(t := None)\<rparr>)"
    from A(1) h have eq: "dev1 = dev'" "evs = [EndRequest t (if a = Failed then BLK_STS_IOERR else BLK_STS_OK) segs]"
      by simp_all
    have "spec_step m (Ended t (a \<noteq> Failed) (seg_bytes segs)) (m\<lparr>sp_done := (sp_done m)(t := None)\<rparr>)"
      using A(2,3) by (intro answer) auto
    then show thesis by (rule that [OF us eq(2) harvest_capacity [OF h] A(4) [unfolded eq(1)]])
  qed
qed

context engine_on
begin

lemma swap_simulation:
  assumes it: "permutes_entries it" and rel: "in_step kc s m" and step: "swap_step V now it kc s ev s'"
  shows "\<exists>m'. spec_step m ev m' \<and> in_step kc s' m'"
proof -
  from rel obtain ts us where R: "dev_rel ts us (sm_dev s) m" "sm_busy s = set ts \<union> set us"
    "kc_mask kc = hdr_cap (dd_ring (sm_dev s)) - 1" "ok (sm_engine s) (sm_world s)"
    "pages (sm_engine s) (sm_world s) \<subseteq>\<^sub>m sp_pages m" "card (sm_busy s) = length ts + length us" by (rule in_stepE)
  from step show ?thesis
  proof cases
    case (queue rq alloc xa_ok junk dev)
    let ?m = "m\<lparr>sp_pending := (sp_pending m)(br_tag rq \<mapsto> dev_op_of rq)\<rparr>"
    note Q = sim_queue [OF R(1) queue(3) queue(4) [unfolded R(2)] queue(5,7)]
    have "dev_rel (ts @ [br_tag rq]) us dev ?m" using Q(3) queue(6) R(6) by simp
    then have "in_step kc s' ?m"
      unfolding machine_rel_def queue(2) using R(2-5) Q(1)
      by (intro conjI exI [of _ "ts @ [br_tag rq]"] exI [of _ us]) simp_all
    with Q(4) queue(1) show ?thesis by blast
  next
    case (refuse rq alloc xa_ok junk dev)
    note Q = sim_queue [OF R(1) refuse(3) refuse(4) [unfolded R(2)] refuse(5,6)]
    have "in_step kc s' m"
      unfolding machine_rel_def refuse(2) using R(2-5) Q(1,2)
      by (intro conjI exI [of _ ts] exI [of _ us]) simp_all
    with skip refuse(1) show ?thesis by blast
  next
    case (serve r e w)
    from poll_law [OF it R(1,4,5,3) serve(3)] obtain m' t ts' where P:
      "ts = t # ts'" "spec_step m Silent m'" "dev_rel ts' (us @ [t]) ((sm_dev s)\<lparr>dd_ring := r\<rparr>) m'"
      "ok e w" "pages e w \<subseteq>\<^sub>m sp_pages m'" "ring_cap r = ring_cap (dd_ring (sm_dev s))" by blast
    from P(6) have "hdr_cap r = hdr_cap (dd_ring (sm_dev s))" by (simp add: ring_cap_def word_unat_eq_iff)
    with P have "in_step kc s' m'" unfolding machine_rel_def serve(2) using R(2,3)
      by (intro conjI exI [of _ ts'] exI [of _ "us @ [t]"]) auto
    with P(2) serve(1) show ?thesis by blast
  next
    case (harvest dev t st segs)
    from sim_harvest [OF R(1) harvest(3)] obtain us' a where H: "us = t # us'"
      "st = (if a = Failed then BLK_STS_IOERR else BLK_STS_OK)" "hdr_cap (dd_ring dev) = hdr_cap (dd_ring (sm_dev s))"
      "dev_rel ts us' dev (m\<lparr>sp_done := (sp_done m)(t := None)\<rparr>)"
      "spec_step m (Ended t (a \<noteq> Failed) (seg_bytes segs)) (m\<lparr>sp_done := (sp_done m)(t := None)\<rparr>)" by auto
    have "set ts \<union> set us - {t} = set ts \<union> set us'" using dev_relD(4) [OF R(1)] H(1) by auto
    with H have "in_step kc s' (m\<lparr>sp_done := (sp_done m)(t := None)\<rparr>)"
      unfolding machine_rel_def harvest(2) using R(2-5)
      by (intro conjI exI [of _ ts] exI [of _ us']) simp_all
    moreover have "ev = Ended t (a \<noteq> Failed) (seg_bytes segs)" using harvest(1) H(2) by simp
    ultimately show ?thesis using H(5) by blast
  next
    case (discard dev)
    from sim_harvest [OF R(1) discard(3)] show ?thesis by auto
  qed
qed

end

end
