(* ===== verification/Engine_Progress.thy ===== *)
theory Engine_Progress
  imports Engine_Spec
begin

text \<open>
  When the engine succeeds. The choice of backends is described for any method table; over
  backends that keep count (\<open>counted_backend\<close>) a store goes through whenever there is room or
  a page to evict, evicts at most one page, and never exceeds a backend's capacity.
\<close>

section \<open>The choice of a backend\<close>

definition usable :: "('b, 'w) backend_vt \<Rightarrow> 'b \<Rightarrow> bool" where
  "usable V b \<longleftrightarrow> vt_is_healthy V b \<and> has_room V b"

definition some_usable :: "('b, 'w) backend_vt \<Rightarrow> 'b engine \<Rightarrow> bool" where
  "some_usable V e \<longleftrightarrow> (\<exists>(i, b) \<in> set (eng_backends e). usable V b)"

lemma select_tier_usable:
  "select_tier p (backend_capacities V e) = None \<longleftrightarrow> \<not> some_usable V e"
  by (auto simp: select_tier_None backend_capacities_def has_capacity_def some_usable_def usable_def
      has_room_def Let_def split: prod.splits)

lemma select_tier_backend:
  assumes "select_tier p (backend_capacities V e) = Some t"
  shows "\<exists>(i, b) \<in> set (eng_backends e). vt_tier V b = t \<and> usable V b"
proof -
  have "\<exists>c \<in> set caps. bcap_tier c = t \<and> has_capacity c" if "select_tier_from ts caps = Some t" for ts caps
    using that by (induction ts) (auto simp: select_tier_from_Cons simp del: select_tier_from.simps(2) split: if_splits)
  with assms obtain c where "c \<in> set (backend_capacities V e)" "bcap_tier c = t" "has_capacity c"
    by (auto simp: select_tier_def select_tier_lru_def split: strategy.splits)
  then obtain i b where "(i, b) \<in> set (eng_backends e)" "vt_tier V b = t" "usable V b"
    by (auto simp: backend_capacities_def has_capacity_def usable_def has_room_def Let_def
        split: prod.splits)
  then show ?thesis by blast
qed

text \<open>The list the candidates are sorted from.\<close>

definition candidate_backends :: "('b, 'w) backend_vt \<Rightarrow> 'b engine \<Rightarrow> tier \<Rightarrow> (u8 \<times> 'b) list" where
  "candidate_backends V e t =
     (let exact = filter (\<lambda>(_, b). vt_tier V b = t \<and> usable V b) (eng_backends e) in
      if exact = [] then filter (\<lambda>(_, b). usable V b) (eng_backends e) else exact)"

lemma tier_backend_candidates_eq:
  "tier_backend_candidates V e t =
     map fst (sort_key (\<lambda>(i, u). (u, i)) (map (\<lambda>(i, b). (i, backend_util V b)) (candidate_backends V e t)))"
  unfolding tier_backend_candidates_def candidate_backends_def usable_def Let_def
  by (simp only: if_distrib [of "map (\<lambda>(i, b). (i, backend_util V b))"] map_is_Nil_conv)

lemma set_tier_backend_candidates:
  "set (tier_backend_candidates V e t) = fst ` set (candidate_backends V e t)"
  by (force simp: tier_backend_candidates_eq)

lemma candidate_usable:
  assumes "hm_ok (eng_backends e)" and "i \<in> set (tier_backend_candidates V e t)"
  obtains b where "map_of (eng_backends e) i = Some b" and "usable V b"
proof -
  from assms(2) obtain b where "(i, b) \<in> set (candidate_backends V e t)"
    by (auto simp: set_tier_backend_candidates)
  then have "(i, b) \<in> set (eng_backends e)" "usable V b"
    by (auto simp: candidate_backends_def Let_def split: if_splits)
  with assms(1) show thesis by (intro that) (auto simp: hm_get_iff)
qed

lemma candidates_nonempty:
  assumes "select_tier p (backend_capacities V e) = Some t"
  shows "tier_backend_candidates V e t \<noteq> []"
proof -
  from select_tier_backend [OF assms] have "candidate_backends V e t \<noteq> []"
    by (auto simp: candidate_backends_def filter_empty_conv Let_def)
  then show ?thesis by (metis image_is_empty set_empty set_tier_backend_candidates)
qed

section \<open>Progress over backends that keep count\<close>

definition within_capacity :: "('b, 'w) backend_vt \<Rightarrow> 'b engine \<Rightarrow> bool" where
  "within_capacity V e \<longleftrightarrow>
     (\<forall>i b. map_of (eng_backends e) i = Some b \<longrightarrow> snd (vt_capacity V b) \<le> fst (vt_capacity V b))"

definition none_exhausted :: "('b \<Rightarrow> bool) \<Rightarrow> 'b engine \<Rightarrow> bool" where
  "none_exhausted ex e \<longleftrightarrow> (\<forall>i b. map_of (eng_backends e) i = Some b \<longrightarrow> \<not> ex b)"

lemma capacity_simps [simp]:
  "within_capacity V (e\<lparr>eng_stats := s\<rparr>) = within_capacity V e"
  "within_capacity V (e\<lparr>eng_policy := p\<rparr>) = within_capacity V e"
  "none_exhausted ex (e\<lparr>eng_stats := s\<rparr>) = none_exhausted ex e"
  "none_exhausted ex (e\<lparr>eng_policy := p\<rparr>) = none_exhausted ex e"
  "some_usable V (e\<lparr>eng_stats := s\<rparr>) = some_usable V e"
  "some_usable V (e\<lparr>eng_policy := p\<rparr>) = some_usable V e"
  by (simp_all add: within_capacity_def none_exhausted_def some_usable_def)

lemma within_capacity_set:
  "within_capacity V e \<Longrightarrow> snd (vt_capacity V b) \<le> fst (vt_capacity V b) \<Longrightarrow>
   within_capacity V (set_backend e i b)"
  by (simp add: within_capacity_def)

lemma has_room_iff: "has_room V b \<longleftrightarrow> snd (vt_capacity V b) < fst (vt_capacity V b)"
  by (simp add: has_room_def split: prod.split)

locale engine_counted = engine_on + counted_backend
begin

text \<open>Dropping a tracked page always succeeds and makes room on its backend.\<close>

lemma drop_counted:
  assumes ok: "ok e w" and cap: "within_capacity V e" and m: "policy_lookup (eng_policy e) x = Some m"
  obtains b b' w' where "map_of (eng_backends e) (pm_backend_id m) = Some b"
    and "vt_free_page V b (pm_handle m) w = (Ok (), b', w')"
    and "within_capacity V (set_backend e (pm_backend_id m) b')"
    and "some_usable V (set_backend e (pm_backend_id m) b')"
    and "none_exhausted exhausted e \<Longrightarrow> none_exhausted exhausted (set_backend e (pm_backend_id m) b')"
proof -
  from ok_tracked [OF ok m] obtain b d where b: "map_of (eng_backends e) (pm_backend_id m) = Some b"
    "binv b w" "contents b w (ph_offset (pm_handle m)) = Some d" by blast
  from free_total [OF b(2)] obtain b' w' where f: "vt_free_page V b (pm_handle m) w = (Ok (), b', w')"
    by blast
  have c: "fst (vt_capacity V b') = fst (vt_capacity V b)"
    "unat (snd (vt_capacity V b)) = Suc (unat (snd (vt_capacity V b')))"
    using cap_free [OF b(2) _ f] b(3) by simp_all
  have "snd (vt_capacity V b) \<le> fst (vt_capacity V b)"
    using cap b(1) by (simp add: within_capacity_def)
  with c have room: "snd (vt_capacity V b') < fst (vt_capacity V b')"
    by (simp add: word_less_nat_alt word_le_nat_alt)
  have "binv b' w'" using free_law [OF b(2) f] by (simp add: backend_step_def)
  then have "usable V b'" using room healthy_law by (simp add: usable_def has_room_iff)
  moreover have "(pm_backend_id m, b') \<in> set (AList.update (pm_backend_id m) b' (eng_backends e))"
    by (rule map_of_SomeD) simp
  ultimately have "some_usable V (set_backend e (pm_backend_id m) b')"
    by (auto simp: some_usable_def)
  moreover have "within_capacity V (set_backend e (pm_backend_id m) b')"
    using room by (intro within_capacity_set [OF cap]) simp
  moreover have "none_exhausted exhausted (set_backend e (pm_backend_id m) b')"
    if "none_exhausted exhausted e"
    using that free_exhausted [OF b(2) f] b(1) by (auto simp: none_exhausted_def)
  ultimately show thesis using that b(1) f by blast
qed

lemma free_old_counted:
  assumes ok: "ok e w" and cap: "within_capacity V e" and ex: "none_exhausted exhausted e"
  obtains e' w' where "free_old_page V e x w = (Ok (), e', w')" and "within_capacity V e'"
    and "none_exhausted exhausted e'" and "policy_lookup (eng_policy e) x \<noteq> None \<Longrightarrow> some_usable V e'"
    and "policy_lookup (eng_policy e) x = None \<Longrightarrow> some_usable V e' = some_usable V e"
proof (cases "policy_lookup (eng_policy e) x")
  case None
  then show thesis
    using cap ex by (intro that [of "e\<lparr>eng_policy := snd (policy_remove (eng_policy e) x)\<rparr>" w])
      (simp_all add: free_old_page_def policy_remove_def policy_lookup_def Let_def)
next
  case (Some m)
  from drop_counted [OF ok cap Some] obtain b b' w' where
    d: "map_of (eng_backends e) (pm_backend_id m) = Some b"
    "vt_free_page V b (pm_handle m) w = (Ok (), b', w')"
    "within_capacity V (set_backend e (pm_backend_id m) b')"
    "some_usable V (set_backend e (pm_backend_id m) b')"
    "none_exhausted exhausted (set_backend e (pm_backend_id m) b')"
    using ex by metis
  let ?e = "set_backend (e\<lparr>eng_policy := snd (policy_remove (eng_policy e) x)\<rparr>) (pm_backend_id m) b'"
  have "free_old_page V e x w = (Ok (), ?e, w')"
    using Some d by (simp add: free_old_page_def policy_remove_def policy_lookup_def Let_def)
  moreover have "within_capacity V ?e" "some_usable V ?e" "none_exhausted exhausted ?e"
    using d by (simp_all add: within_capacity_def some_usable_def none_exhausted_def)
  ultimately show thesis using that Some by simp
qed

lemma evict_counted:
  assumes "permutes_entries it" and ok: "ok e w" and cap: "within_capacity V e"
    and ex: "none_exhausted exhausted e"
    and y: "i \<in> set is" "policy_lookup (eng_policy e) y = Some n" "evictable i n"
  shows "\<exists>z e' w'. evict_from V it is e w = (Ok (Some z), e', w') \<and> ok e' w' \<and>
     policy_lookup (eng_policy e) z \<noteq> None \<and>
     within_capacity V e' \<and> none_exhausted exhausted e' \<and> some_usable V e' \<and>
     pages e' w' = (pages e w)(z := None)"
  using y(1)
proof (induction "is")
  case (Cons j js)
  have pok: "policy_ok (eng_policy e)" using ok by (simp add: eng_ok_def)
  show ?case
  proof (cases "find_eviction_candidate it (eng_policy e) j")
    case None
    with eviction_candidate_None [OF assms(1) pok] y have "i \<noteq> j" by blast
    with Cons None show ?thesis by simp
  next
    case (Some z)
    with assms(1) pok obtain m where m: "policy_lookup (eng_policy e) z = Some m" "evictable j m"
      by (blast elim: find_eviction_candidate_Some)
    then have j: "j = pm_backend_id m" by (simp add: evictable_def)
    from drop_counted [OF ok cap m(1)] obtain b b' w' where
      d: "map_of (eng_backends e) j = Some b" "vt_free_page V b (pm_handle m) w = (Ok (), b', w')"
      "within_capacity V (set_backend e j b')" "some_usable V (set_backend e j b')"
      "none_exhausted exhausted (set_backend e j b')"
      using ex j by metis
    let ?e = "set_backend (e\<lparr>eng_policy := snd (policy_remove (eng_policy e) z)\<rparr>) j b'"
    have "evict_from V it (j # js) e w = (Ok (Some z), upd_stats inc_invalidated ?e, w')"
      using Some m(1) d by (simp add: policy_remove_def policy_lookup_def)
    moreover have "ok (upd_stats inc_invalidated ?e) w'"
      "pages (upd_stats inc_invalidated ?e) w' = (pages e w)(z := None)"
      using ok_drop [OF ok m(1) d(1) [unfolded j] d(2) _ refl] j
      by (simp_all only: eng_ok_stats eng_abs_stats) simp_all
    moreover have "within_capacity V (upd_stats inc_invalidated ?e)"
      "some_usable V (upd_stats inc_invalidated ?e)"
      "none_exhausted exhausted (upd_stats inc_invalidated ?e)"
      using d by (simp_all add: within_capacity_def some_usable_def none_exhausted_def)
    ultimately show ?thesis using m(1) by blast
  qed
qed simp

lemma store_to_counted:
  assumes ok: "ok e w" and cap: "within_capacity V e" and ex: "none_exhausted exhausted e"
    and d: "is_page d" and x: "policy_lookup (eng_policy e) x = None"
    and t: "select_tier (eng_policy e) (backend_capacities V e) = Some t"
  shows "\<exists>h e' w'. store_to V now x d t (tier_backend_candidates V e t) None e w = (Ok h, e', w') \<and>
     ok e' w' \<and> pages e' w' = (pages e w)(x \<mapsto> d) \<and> within_capacity V e'"
proof -
  obtain i "is" where c0: "tier_backend_candidates V e t = i # is"
    using candidates_nonempty [OF t] by (cases "tier_backend_candidates V e t") auto
  have "hm_ok (eng_backends e)" using ok by (simp add: eng_ok_def)
  then obtain b where b: "map_of (eng_backends e) i = Some b" "usable V b"
    by (rule candidate_usable [of _ i V t]) (simp add: c0)
  have inv: "binv b w" using ok_backend [OF ok b(1)] by simp
  from b ex have "\<not> exhausted b" by (simp add: none_exhausted_def)
  with alloc_room [OF inv] b(2) obtain h b1 w1 where a: "vt_alloc_page V b w = (Ok h, b1, w1)"
    by (auto simp: usable_def has_room_iff)
  have b1: "binv b1 w1" "issued b1 w1 (ph_offset h)" "contents b1 w1 (ph_offset h) = None"
    "vt_capacity V b1 = vt_capacity V b"
    using alloc_law [OF inv a] alloc_fresh [OF inv a] cap_alloc [OF inv a] by (auto simp: backend_step_def)
  from store_total [OF b1(1) d b1(2)] obtain b2 w2 where s: "vt_store_page V b1 h d w1 = (Ok (), b2, w2)"
    by blast
  have c: "fst (vt_capacity V b2) = fst (vt_capacity V b)"
    "unat (snd (vt_capacity V b2)) = Suc (unat (snd (vt_capacity V b)))"
    using cap_store [OF b1(1) d b1(2,3) s] b1(4) by simp_all
  have "snd (vt_capacity V b2) \<le> fst (vt_capacity V b2)"
    using c b(2) by (simp add: usable_def has_room_iff word_less_nat_alt word_le_nat_alt)
  then have cap2: "within_capacity V (set_backend e i b2)" by (rule within_capacity_set [OF cap])
  obtain tm w3 where n: "now w2 = (tm, w3)" by (cases "now w2")
  let ?e = "upd_stats inc_stored ((set_backend e i b2)\<lparr>eng_policy := record_store (eng_policy e) x h i t tm\<rparr>)"
  have run: "store_to V now x d t (tier_backend_candidates V e t) None e w = (Ok h, ?e, w3)"
    using c0 b(1) a s n by simp
  from store_to_law [OF d ok x run] have "ok ?e w3" "pages ?e w3 = (pages e w)(x \<mapsto> d)"
    by (simp_all add: is_ok_iff)
  moreover have "within_capacity V ?e" using cap2 by (simp add: within_capacity_def)
  ultimately show ?thesis using run by blast
qed

text \<open>
  A store succeeds when a backend has room, the offset is being overwritten, or some page is
  not pinned; it loses at most one other page, and that only when every backend is full.
\<close>

theorem store_page_progress:
  assumes it: "permutes_entries it" and ok: "ok e w" and cap: "within_capacity V e"
    and ex: "none_exhausted exhausted e" and d: "is_page d"
    and room: "some_usable V e \<or> pages e w x \<noteq> None \<or> (\<exists>y. pages e w y \<noteq> None \<and> \<not> pinned e y)"
  shows "\<exists>h e' w'. store_page V now it e x d w = (Ok h, e', w') \<and> ok e' w' \<and> within_capacity V e' \<and>
     (pages e' w' = (pages e w)(x \<mapsto> d) \<or>
      \<not> some_usable V e \<and> (\<exists>y. y \<noteq> x \<and> pages e' w' = (pages e w)(y := None, x \<mapsto> d)))"
proof -
  from free_old_counted [OF ok cap ex, where x = x] obtain e1 w1 where
    f: "free_old_page V e x w = (Ok (), e1, w1)" "within_capacity V e1" "none_exhausted exhausted e1"
    "policy_lookup (eng_policy e) x \<noteq> None \<Longrightarrow> some_usable V e1"
    "policy_lookup (eng_policy e) x = None \<Longrightarrow> some_usable V e1 = some_usable V e"
    by metis
  have old: "ok e1 w1" "pages e1 w1 = (pages e w)(x := None)"
    "policy_lookup (eng_policy e1) = (policy_lookup (eng_policy e))(x := None)"
    using free_old_page_law [OF ok f(1)] by simp_all
  show ?thesis
  proof (cases "some_usable V e1")
    case True
    then obtain t where t: "select_tier (eng_policy e1) (backend_capacities V e1) = Some t"
      using select_tier_usable by fastforce
    have "choose_tier V it e1 w1 = (Ok t, e1, w1)" using t by (simp add: choose_tier_def)
    with store_to_counted [OF old(1) f(2,3) d _ t, of x] f(1) old show ?thesis
      by (auto simp: store_page_def)
  next
    case False
    with f(4,5) have x: "policy_lookup (eng_policy e) x = None" "\<not> some_usable V e" by blast+
    with room obtain y where "policy_lookup (eng_policy e) y \<noteq> None" "\<not> pinned e y"
      by (auto simp: ok_dom [OF ok])
    moreover from this(1) x(1) have "y \<noteq> x" by auto
    ultimately obtain n where y: "policy_lookup (eng_policy e1) y = Some n"
      "\<not> pf_contains (pm_flags n) PINNED"
      by (auto simp: pinned_def old(3))
    from ok_tracked [OF old(1) y(1)] have "pm_backend_id n \<in> set (map fst (eng_backends e1))"
      by (metis list.set_map hm_keys domI)
    moreover have "evictable (pm_backend_id n) n" using y(2) by (simp add: evictable_def)
    ultimately obtain z e2 w2 where
      ev: "try_evict_one V it e1 w1 = (Ok (Some z), e2, w2)" "ok e2 w2" "within_capacity V e2"
      "none_exhausted exhausted e2" "some_usable V e2" "pages e2 w2 = (pages e1 w1)(z := None)"
      "policy_lookup (eng_policy e1) z \<noteq> None"
      using evict_counted [OF it old(1) f(2,3) _ y(1)] unfolding try_evict_one_def by metis
    then obtain t where t: "select_tier (eng_policy e2) (backend_capacities V e2) = Some t"
      using select_tier_usable by fastforce
    have "select_tier (eng_policy e1) (backend_capacities V e1) = None"
      using False by (simp add: select_tier_usable)
    then have c: "choose_tier V it e1 w1 = (Ok t, e2, w2)" using ev(1) t by (simp add: choose_tier_def)
    have "z \<noteq> x" using ev(7) old(3) by auto
    have "policy_lookup (eng_policy e2) x = None"
      using ok_dom [OF ev(2), of x] ev(6) old(2) by (auto split: if_splits)
    from store_to_counted [OF ev(2,3,4) d this t] obtain h e' w' where
      "store_to V now x d t (tier_backend_candidates V e2 t) None e2 w2 = (Ok h, e', w')"
      "ok e' w'" "pages e' w' = (pages e2 w2)(x \<mapsto> d)" "within_capacity V e'" by blast
    moreover have "(pages e2 w2)(x \<mapsto> d) = (pages e w)(z := None, x \<mapsto> d)"
      using ev(6) old(2) by (auto simp: fun_eq_iff)
    ultimately show ?thesis
      using f(1) c x(2) \<open>z \<noteq> x\<close> by (auto simp: store_page_def)
  qed
qed

theorem load_page_total:
  assumes ok: "ok e w" and x: "pages e w x = Some d"
  shows "\<exists>e' w'. load_page V now e x w = (Ok d, e', w')"
proof -
  from ok_dom [OF ok, of x] x obtain m where m: "policy_lookup (eng_policy e) x = Some m" by auto
  from ok_tracked [OF ok m] x obtain b where b: "map_of (eng_backends e) (pm_backend_id m) = Some b"
    "binv b w" "contents b w (ph_offset (pm_handle m)) = Some d" by auto
  from load_total [OF b(2,3)] m b(1) show ?thesis by (auto simp: load_page_def split: prod.splits)
qed

end

section \<open>Properties\<close>

text \<open>
  The candidates for a tier are the healthy backends of that tier with room, or, if there is
  none, all healthy backends with room; each occurs once, and they are in the order of utilization,
  least loaded first.
\<close>

theorem candidates_spec:
  assumes "hm_ok (eng_backends e)"
  shows "distinct (tier_backend_candidates V e t) \<and>
     set (tier_backend_candidates V e t) =
       (if \<exists>(i, b) \<in> set (eng_backends e). vt_tier V b = t \<and> usable V b
        then {i. \<exists>b. map_of (eng_backends e) i = Some b \<and> vt_tier V b = t \<and> usable V b}
        else {i. \<exists>b. map_of (eng_backends e) i = Some b \<and> usable V b}) \<and>
     sorted (map (\<lambda>i. backend_util V (the (map_of (eng_backends e) i))) (tier_backend_candidates V e t))"
proof -
  let ?cs = "candidate_backends V e t"
  let ?us = "map (\<lambda>(i, b). (i, backend_util V b)) ?cs"
  let ?key = "\<lambda>(i, u). (u, i)"
  have sub: "(i, b) \<in> set ?cs \<Longrightarrow> map_of (eng_backends e) i = Some b" for i b
    using assms by (auto simp: candidate_backends_def Let_def hm_get_iff split: if_splits)
  have "distinct (map fst ?cs)"
    using assms by (auto simp: candidate_backends_def Let_def hm_ok_def distinct_map_filter)
  moreover have "map fst ?us = map fst ?cs" by auto
  ultimately have dist: "distinct (tier_backend_candidates V e t)"
    unfolding tier_backend_candidates_eq by (metis (no_types, lifting) mset_map mset_sort mset_eq_imp_distinct_iff)
  have util: "backend_util V (the (map_of (eng_backends e) i)) = u" if "(i, u) \<in> set ?us" for i u
    using that sub by fastforce
  have "sorted (map ?key (sort_key ?key ?us))" by (rule sorted_sort_key)
  then have "sorted_wrt (\<lambda>x y. snd x \<le> snd y) (sort_key ?key ?us)"
    unfolding sorted_map by (rule sorted_wrt_mono_rel [rotated]) (auto simp: less_eq_prod_def split: prod.splits)
  then have srt: "sorted (map (\<lambda>i. backend_util V (the (map_of (eng_backends e) i))) (tier_backend_candidates V e t))"
    unfolding tier_backend_candidates_eq map_map sorted_map
    by (rule sorted_wrt_mono_rel [rotated]) (use util in fastforce)
  have "set (tier_backend_candidates V e t) = fst ` set ?cs" by (rule set_tier_backend_candidates)
  also have "\<dots> = (if \<exists>(i, b) \<in> set (eng_backends e). vt_tier V b = t \<and> usable V b
        then {i. \<exists>b. map_of (eng_backends e) i = Some b \<and> vt_tier V b = t \<and> usable V b}
        else {i. \<exists>b. map_of (eng_backends e) i = Some b \<and> usable V b})"
    using assms by (force simp: candidate_backends_def Let_def hm_get_iff filter_empty_conv)
  finally show ?thesis using dist srt by blast
qed

text \<open>A method table whose backends are just their count of used pages, out of four.\<close>

definition counter_vt :: "(u64, unit) backend_vt" where
  "counter_vt =
     \<lparr>vt_name = (\<lambda>_. ''counter''), vt_tier = (\<lambda>_. Compressed), vt_init = (\<lambda>b _ w. (Ok (), b, w)),
      vt_alloc_page = (\<lambda>b w. (Panic, b, w)), vt_free_page = (\<lambda>b _ w. (Panic, b, w)),
      vt_store_page = (\<lambda>b _ _ w. (Panic, b, w)), vt_load_page = (\<lambda>b _ w. (Panic, b, w)),
      vt_capacity = (\<lambda>b. (4, b)), vt_latency_ns = (\<lambda>_. 1), vt_is_healthy = (\<lambda>_. True),
      vt_shutdown = (\<lambda>b w. (Ok (), b, w))\<rparr>"

lemma counter_usable: "vt_tier counter_vt b = Compressed" "usable counter_vt b \<longleftrightarrow> b < 4"
  by (simp_all add: usable_def has_room_def counter_vt_def)

theorem candidates_spec_witness:
  "2 \<in> set (tier_backend_candidates counter_vt (with_backends default_config [(0, 3), (1, 4), (2, 1)]) Compressed) \<and>
   1 \<notin> set (tier_backend_candidates counter_vt (with_backends default_config [(0, 3), (1, 4), (2, 1)]) Compressed)"
proof -
  let ?e = "with_backends default_config [(0 :: u8, 3 :: u64), (1, 4), (2, 1)]"
  have e: "eng_backends ?e = [(0, 3), (1, 4), (2, 1)]" by (simp add: with_backends_def)
  have "hm_ok (eng_backends ?e)" by (simp add: e hm_ok_def)
  note spec = candidates_spec [OF this, of counter_vt Compressed]
  have "\<exists>(i, b) \<in> set (eng_backends ?e). vt_tier counter_vt b = Compressed \<and> usable counter_vt b"
    by (simp add: e counter_usable)
  with spec have "set (tier_backend_candidates counter_vt ?e Compressed) =
    {i. \<exists>b. map_of (eng_backends ?e) i = Some b \<and> vt_tier counter_vt b = Compressed \<and> usable counter_vt b}"
    by (simp only: if_True)
  then show ?thesis by (simp add: e counter_usable)
qed

end
