(* ===== verification/Memory_Backend.thy ===== *)
theory Memory_Backend
  imports Backend_Trait
begin

text \<open>
  The in-memory backend, \<^verbatim>\<open>crates/duvm-backend-memory/src/lib.rs\<close>: pages in a hash map, a
  counter for the next offset and a limit on the number of pages.
\<close>

section \<open>State and operations\<close>

record memory_backend =
  mb_name :: string
  mb_pages :: "(u64, page) hash_map"
  mb_next_offset :: u64
  mb_max_pages :: u64
  mb_backend_id :: u8

definition mb_new :: "u8 \<Rightarrow> memory_backend" where
  "mb_new i =
     \<lparr>mb_name = ''memory'', mb_pages = [], mb_next_offset = 0, mb_max_pages = 1024 * 1024,
      mb_backend_id = i\<rparr>"

definition mb_init :: "memory_backend \<Rightarrow> backend_config \<Rightarrow> 'w \<Rightarrow> unit res \<times> memory_backend \<times> 'w" where
  "mb_init b config w = (Ok (), b\<lparr>mb_max_pages := bc_max_pages config\<rparr>, w)"

definition mb_alloc_page :: "memory_backend \<Rightarrow> 'w \<Rightarrow> page_handle res \<times> memory_backend \<times> 'w" where
  "mb_alloc_page b w =
     (if of_nat (length (mb_pages b)) \<ge> mb_max_pages b then (Err (MemoryFull (mb_max_pages b)), b, w)
      else
        let offset = mb_next_offset b; b' = b\<lparr>mb_next_offset := mb_next_offset b + 1\<rparr> in
        (ph_new (mb_backend_id b) offset, b', w))"

definition mb_free_page ::
  "memory_backend \<Rightarrow> page_handle \<Rightarrow> 'w \<Rightarrow> unit res \<times> memory_backend \<times> 'w" where
  "mb_free_page b h w = (Ok (), b\<lparr>mb_pages := AList.delete (ph_offset h) (mb_pages b)\<rparr>, w)"

definition mb_store_page ::
  "memory_backend \<Rightarrow> page_handle \<Rightarrow> page \<Rightarrow> 'w \<Rightarrow> unit res \<times> memory_backend \<times> 'w" where
  "mb_store_page b h d w = (Ok (), b\<lparr>mb_pages := AList.update (ph_offset h) d (mb_pages b)\<rparr>, w)"

definition mb_load_page ::
  "memory_backend \<Rightarrow> page_handle \<Rightarrow> 'w \<Rightarrow> page res \<times> memory_backend \<times> 'w" where
  "mb_load_page b h w =
     (case map_of (mb_pages b) (ph_offset h) of
        Some d \<Rightarrow> (Ok d, b, w)
      | None \<Rightarrow> (Err (PageNotFound (ph_raw h)), b, w))"

definition mb_capacity :: "memory_backend \<Rightarrow> u64 \<times> u64" where
  "mb_capacity b = (mb_max_pages b, of_nat (length (mb_pages b)))"

definition mb_shutdown :: "memory_backend \<Rightarrow> 'w \<Rightarrow> unit res \<times> memory_backend \<times> 'w" where
  "mb_shutdown b w = (Ok (), b\<lparr>mb_pages := []\<rparr>, w)"

definition mb_vt :: "(memory_backend, 'w) backend_vt" where
  "mb_vt =
     \<lparr>vt_name = mb_name, vt_tier = (\<lambda>_. Compressed), vt_init = mb_init,
      vt_alloc_page = mb_alloc_page, vt_free_page = mb_free_page,
      vt_store_page = mb_store_page, vt_load_page = mb_load_page, vt_capacity = mb_capacity,
      vt_latency_ns = (\<lambda>_. 100), vt_is_healthy = (\<lambda>_. True), vt_shutdown = mb_shutdown\<rparr>"

lemmas mb_ops = mb_init_def mb_alloc_page_def mb_free_page_def mb_store_page_def mb_load_page_def
  mb_capacity_def mb_shutdown_def

lemma mb_vt_simps [simp]:
  "vt_name mb_vt = mb_name" "vt_tier mb_vt b = Compressed" "vt_init mb_vt = mb_init"
  "vt_alloc_page mb_vt = mb_alloc_page" "vt_free_page mb_vt = mb_free_page"
  "vt_store_page mb_vt = mb_store_page" "vt_load_page mb_vt = mb_load_page"
  "vt_capacity mb_vt = mb_capacity" "vt_latency_ns mb_vt b = 100"
  "vt_is_healthy mb_vt b = True" "vt_shutdown mb_vt = mb_shutdown"
  by (simp_all add: mb_vt_def)

section \<open>Invariant and contract\<close>

definition mb_contents :: "memory_backend \<Rightarrow> 'w \<Rightarrow> u64 \<rightharpoonup> page" where
  "mb_contents b w = map_of (mb_pages b)"

definition mb_issued :: "memory_backend \<Rightarrow> 'w \<Rightarrow> u64 \<Rightarrow> bool" where
  "mb_issued b w x \<longleftrightarrow> x < mb_next_offset b"

definition mb_inv :: "memory_backend \<Rightarrow> 'w \<Rightarrow> bool" where
  "mb_inv b w \<longleftrightarrow> hm_ok (mb_pages b) \<and>
     (\<forall>x d. map_of (mb_pages b) x = Some d \<longrightarrow> x < mb_next_offset b \<and> is_page d)"

lemmas mb_inv_simps = mb_inv_def mb_contents_def mb_issued_def backend_step_def

lemma mb_alloc_cases:
  assumes "mb_alloc_page b w = (r, b', w')" and "r \<noteq> Panic"
  obtains (full) "r = Err (MemoryFull (mb_max_pages b))" "b' = b" "w' = w"
  | (ok) h where "r = Ok h" "b' = b\<lparr>mb_next_offset := mb_next_offset b + 1\<rparr>" "w' = w"
      "ph_backend_id h = mb_backend_id b" "ph_offset h = mb_next_offset b"
      "mb_next_offset b < mb_next_offset b + 1" "of_nat (length (mb_pages b)) < mb_max_pages b"
proof (cases "of_nat (length (mb_pages b)) \<ge> mb_max_pages b")
  case True
  with assms show thesis by (intro full) (auto simp: mb_alloc_page_def)
next
  case False
  from assms False have r: "r = ph_new (mb_backend_id b) (mb_next_offset b)"
    "b' = b\<lparr>mb_next_offset := mb_next_offset b + 1\<rparr>" "w' = w"
    by (auto simp: mb_alloc_page_def)
  with assms(2) obtain h where h: "r = Ok h" "mb_next_offset b < push_bit 56 1"
    "ph_backend_id h = mb_backend_id b" "ph_offset h = mb_next_offset b"
    by (metis ph_new_cases)
  have "unat (mb_next_offset b + 1) = Suc (unat (mb_next_offset b))"
    using h(2) by (rule unat_inc)
  then have "mb_next_offset b < mb_next_offset b + 1" by (simp add: word_less_nat_alt)
  with False h r show thesis by (intro ok) (simp_all add: not_le)
qed

interpretation mb: reliable_backend mb_vt mb_backend_id mb_contents mb_issued mb_inv
  "\<lambda>_ _. True"
proof (unfold_locales, goal_cases)
  case (4 b w r b' w')
  from 4(2,3) have "mb_alloc_page b w = (r, b', w')" "r \<noteq> Panic" by simp_all
  then show ?case
    using 4(1) by (cases rule: mb_alloc_cases) (force simp: mb_inv_simps intro: order.strict_trans)+
qed (auto simp: mb_inv_simps mb_ops split: option.splits)

text \<open>A handle holds 56 bits of offset.\<close>

definition mb_exhausted :: "memory_backend \<Rightarrow> bool" where
  "mb_exhausted b \<longleftrightarrow> mb_next_offset b \<ge> push_bit 56 1"

text \<open>The count of used pages does not wrap, since every page has an offset of its own.\<close>

lemma mb_used: "mb_inv b w \<Longrightarrow> unat (snd (mb_capacity b)) = length (mb_pages b)"
  unfolding mb_inv_def mb_capacity_def
  using hm_length_less(2) [of "mb_pages b" "mb_next_offset b"] by simp

interpretation mb: counted_backend mb_vt mb_backend_id mb_contents mb_issued mb_inv
  "\<lambda>_ _. True" mb_exhausted
proof (unfold_locales, goal_cases)
  case (2 b w)
  then obtain h where "ph_new (mb_backend_id b) (mb_next_offset b) = Ok h"
    by (auto simp: mb_exhausted_def not_le ph_new_def)
  with 2 show ?case by (auto simp: mb_ops Let_def)
next
  case (6 b w d h r b' w')
  have "mb_inv b' w'"
    using mb.store_law [OF 6(1,2,3,5)] 6(5) by (auto simp: backend_step_def mb_ops Let_def)
  from mb_used [OF 6(1)] mb_used [OF this] 6(1,4,5) show ?case
    by (auto simp: mb_ops mb_inv_simps hm_length_insert Let_def split: option.splits)
next
  case (7 b w h r b' w')
  have "mb_inv b' w'"
    using mb.free_law [OF 7(1,3)] 7(3) by (auto simp: backend_step_def mb_ops split: option.splits)
  from mb_used [OF 7(1)] mb_used [OF this] 7 show ?case
    by (auto simp: mb_ops mb_inv_simps hm_length_remove_Some split: option.splits)
qed (auto simp: mb_ops mb_exhausted_def Let_def split: option.splits if_splits)

section \<open>Properties\<close>

text \<open>
  A page stored in the memory backend is loaded back unchanged through the same handle, other
  offsets are unaffected, and after it is freed a load through the handle fails.
\<close>

theorem mb_store_load_free:
  "fst (mb_load_page (fst (snd (mb_store_page b h d w))) h w) = Ok d \<and>
   (ph_offset g = ph_offset h \<or>
    fst (mb_load_page (fst (snd (mb_store_page b h d w))) g w) = fst (mb_load_page b g w)) \<and>
   fst (mb_load_page (fst (snd (mb_free_page b h w))) h w) = Err (PageNotFound (ph_raw h))"
  by (auto simp: mb_ops split: option.split)

text \<open>
  A page the memory backend allocates has an offset that no handle ever had before, so it is
  the offset of no stored page; when the backend is full the allocation fails and changes nothing.
\<close>

theorem mb_alloc_spec:
  assumes "mb_inv b w" and "mb_alloc_page b w = (r, b', w')" and "r \<noteq> Panic"
  shows "mb_inv b' w' \<and> mb_pages b' = mb_pages b \<and>
     (\<forall>h. r = Ok h \<longrightarrow> ph_backend_id h = mb_backend_id b \<and> \<not> mb_issued b w (ph_offset h) \<and>
        map_of (mb_pages b) (ph_offset h) = None \<and> mb_issued b' w' (ph_offset h)) \<and>
     (\<forall>er. r = Err er \<longrightarrow> b' = b \<and> mb_max_pages b \<le> of_nat (length (mb_pages b)))"
proof -
  have "backend_step mb_vt mb_backend_id mb_contents mb_issued mb_inv (\<lambda>_ _. True) b w b' w' \<and>
    (\<forall>h. r = Ok h \<longrightarrow> ph_backend_id h = mb_backend_id b \<and> \<not> mb_issued b w (ph_offset h) \<and>
        mb_issued b' w' (ph_offset h))"
    using mb.alloc_law [OF assms(1) _ assms(3)] assms(2) by simp
  moreover have "map_of (mb_pages b) (ph_offset h) = None" if "r = Ok h" for h
    using mb.alloc_fresh [OF assms(1)] assms(2) that by (simp add: mb_contents_def)
  moreover have "mb_pages b' = mb_pages b"
    "\<forall>er. r = Err er \<longrightarrow> b' = b \<and> mb_max_pages b \<le> of_nat (length (mb_pages b))"
    using assms(2) by (auto simp: mb_alloc_page_def Let_def split: if_splits)
  ultimately show ?thesis by (auto simp: backend_step_def)
qed

theorem mb_alloc_spec_witness:
  "\<exists>h b' w'. mb_alloc_page (mb_new 3) () = (Ok h, b', w') \<and> mb_issued b' w' (ph_offset h)"
proof -
  obtain h b' where a: "mb_alloc_page (mb_new 3) () = (Ok h, b', ())"
    by (auto simp: mb_alloc_page_def mb_new_def ph_new_def)
  have "mb_inv (mb_new 3) ()" by (simp add: mb_inv_def mb_new_def)
  from mb_alloc_spec [OF this a] a show ?thesis by auto
qed

end
