(* ===== verification/Compress_Backend.thy ===== *)
theory Compress_Backend
  imports Backend_Trait F64
begin

text \<open>
  The compressing backend, \<^verbatim>\<open>crates/duvm-backend-compress/src/lib.rs\<close>. The LZ4 codec is the
  crate \<^verbatim>\<open>lz4_flex\<close>, an argument of the model; what the backend relies on is that
  decompression undoes compression.
\<close>

section \<open>The codec\<close>

record lz4_codec =
  lz4_compress :: "u8 list \<Rightarrow> u8 list" \<comment> \<open>\<^verbatim>\<open>compress_prepend_size\<close>\<close>
  lz4_decompress :: "u8 list \<Rightarrow> u8 list option" \<comment> \<open>\<^verbatim>\<open>decompress_size_prepended\<close>\<close>

definition lz4_roundtrip :: "lz4_codec \<Rightarrow> bool" where
  "lz4_roundtrip lz \<longleftrightarrow> (\<forall>d. lz4_decompress lz (lz4_compress lz d) = Some d)"

section \<open>State and operations\<close>

record compress_backend =
  cb_name :: string
  cb_pages :: "(u64, u8 list) hash_map"
  cb_next_offset :: u64
  cb_max_pages :: u64
  cb_backend_id :: u8
  cb_bytes_stored_raw :: u64
  cb_bytes_stored_compressed :: u64

definition cb_new :: "u8 \<Rightarrow> compress_backend" where
  "cb_new i =
     \<lparr>cb_name = ''compress'', cb_pages = [], cb_next_offset = 0, cb_max_pages = 1024 * 1024,
      cb_backend_id = i, cb_bytes_stored_raw = 0, cb_bytes_stored_compressed = 0\<rparr>"

definition compression_ratio :: "compress_backend \<Rightarrow> f64" where
  "compression_ratio b =
     (let raw = f64_of_u64 (cb_bytes_stored_raw b);
          compressed = f64_of_u64 (cb_bytes_stored_compressed b)
      in if compressed = 0 then 1 else f64_div raw compressed)"

definition cb_init ::
  "compress_backend \<Rightarrow> backend_config \<Rightarrow> 'w \<Rightarrow> unit res \<times> compress_backend \<times> 'w" where
  "cb_init b config w = (Ok (), b\<lparr>cb_max_pages := bc_max_pages config\<rparr>, w)"

definition cb_alloc_page :: "compress_backend \<Rightarrow> 'w \<Rightarrow> page_handle res \<times> compress_backend \<times> 'w" where
  "cb_alloc_page b w =
     (if of_nat (length (cb_pages b)) \<ge> cb_max_pages b then (Err (CompressFull (cb_max_pages b)), b, w)
      else
        let offset = cb_next_offset b; b' = b\<lparr>cb_next_offset := cb_next_offset b + 1\<rparr> in
        (ph_new (cb_backend_id b) offset, b', w))"

definition cb_free_page ::
  "compress_backend \<Rightarrow> page_handle \<Rightarrow> 'w \<Rightarrow> unit res \<times> compress_backend \<times> 'w" where
  "cb_free_page b h w =
     (case map_of (cb_pages b) (ph_offset h) of
        Some data \<Rightarrow>
          (Ok (), b\<lparr>cb_pages := AList.delete (ph_offset h) (cb_pages b),
                    cb_bytes_stored_raw := cb_bytes_stored_raw b - of_nat PAGE_SIZE,
                    cb_bytes_stored_compressed :=
                      cb_bytes_stored_compressed b - of_nat (length data)\<rparr>, w)
      | None \<Rightarrow> (Ok (), b, w))"

definition cb_store_page ::
  "lz4_codec \<Rightarrow> compress_backend \<Rightarrow> page_handle \<Rightarrow> page \<Rightarrow> 'w \<Rightarrow> unit res \<times> compress_backend \<times> 'w" where
  "cb_store_page lz b h d w =
     (let compressed = lz4_compress lz d in
      (Ok (), b\<lparr>cb_pages := AList.update (ph_offset h) compressed (cb_pages b),
                cb_bytes_stored_raw := cb_bytes_stored_raw b + of_nat PAGE_SIZE,
                cb_bytes_stored_compressed :=
                  cb_bytes_stored_compressed b + of_nat (length compressed)\<rparr>, w))"

definition cb_load_page ::
  "lz4_codec \<Rightarrow> compress_backend \<Rightarrow> page_handle \<Rightarrow> 'w \<Rightarrow> page res \<times> compress_backend \<times> 'w" where
  "cb_load_page lz b h w =
     (case map_of (cb_pages b) (ph_offset h) of
        Some compressed \<Rightarrow>
          (case lz4_decompress lz compressed of
             None \<Rightarrow> (Err Lz4Failed, b, w)
           | Some decompressed \<Rightarrow>
               if length decompressed \<noteq> PAGE_SIZE then (Err (SizeMismatch (length decompressed)), b, w)
               else (Ok decompressed, b, w))
      | None \<Rightarrow> (Err (PageNotFound (ph_raw h)), b, w))"

definition cb_capacity :: "compress_backend \<Rightarrow> u64 \<times> u64" where
  "cb_capacity b = (cb_max_pages b, of_nat (length (cb_pages b)))"

definition cb_shutdown :: "compress_backend \<Rightarrow> 'w \<Rightarrow> unit res \<times> compress_backend \<times> 'w" where
  "cb_shutdown b w =
     (Ok (), b\<lparr>cb_pages := [], cb_bytes_stored_raw := 0, cb_bytes_stored_compressed := 0\<rparr>, w)"

definition cb_vt :: "lz4_codec \<Rightarrow> (compress_backend, 'w) backend_vt" where
  "cb_vt lz =
     \<lparr>vt_name = cb_name, vt_tier = (\<lambda>_. Compressed), vt_init = cb_init,
      vt_alloc_page = cb_alloc_page, vt_free_page = cb_free_page,
      vt_store_page = cb_store_page lz, vt_load_page = cb_load_page lz, vt_capacity = cb_capacity,
      vt_latency_ns = (\<lambda>_. 3000), vt_is_healthy = (\<lambda>_. True), vt_shutdown = cb_shutdown\<rparr>"

lemmas cb_ops = cb_init_def cb_alloc_page_def cb_free_page_def cb_store_page_def cb_load_page_def
  cb_capacity_def cb_shutdown_def

lemma cb_vt_simps [simp]:
  "vt_name (cb_vt lz) = cb_name" "vt_tier (cb_vt lz) b = Compressed" "vt_init (cb_vt lz) = cb_init"
  "vt_alloc_page (cb_vt lz) = cb_alloc_page" "vt_free_page (cb_vt lz) = cb_free_page"
  "vt_store_page (cb_vt lz) = cb_store_page lz" "vt_load_page (cb_vt lz) = cb_load_page lz"
  "vt_capacity (cb_vt lz) = cb_capacity" "vt_latency_ns (cb_vt lz) b = 3000"
  "vt_is_healthy (cb_vt lz) b = True" "vt_shutdown (cb_vt lz) = cb_shutdown"
  by (simp_all add: cb_vt_def)

section \<open>Invariant and contract\<close>

definition cb_contents :: "lz4_codec \<Rightarrow> compress_backend \<Rightarrow> 'w \<Rightarrow> u64 \<rightharpoonup> page" where
  "cb_contents lz b w x =
     (case map_of (cb_pages b) x of None \<Rightarrow> None | Some c \<Rightarrow> lz4_decompress lz c)"

definition cb_issued :: "compress_backend \<Rightarrow> 'w \<Rightarrow> u64 \<Rightarrow> bool" where
  "cb_issued b w x \<longleftrightarrow> x < cb_next_offset b"

text \<open>
  Every stored block is the compressed form of a page. The codec's law is part of the
  invariant, since the contract rests on it.
\<close>

definition cb_inv :: "lz4_codec \<Rightarrow> compress_backend \<Rightarrow> 'w \<Rightarrow> bool" where
  "cb_inv lz b w \<longleftrightarrow> lz4_roundtrip lz \<and> hm_ok (cb_pages b) \<and>
     (\<forall>x c. map_of (cb_pages b) x = Some c \<longrightarrow>
        x < cb_next_offset b \<and> (\<exists>d. is_page d \<and> c = lz4_compress lz d))"

lemmas cb_inv_simps = cb_inv_def cb_contents_def cb_issued_def backend_step_def lz4_roundtrip_def

lemma cb_alloc_cases:
  assumes "cb_alloc_page b w = (r, b', w')" and "r \<noteq> Panic"
  obtains (full) "r = Err (CompressFull (cb_max_pages b))" "b' = b" "w' = w"
  | (ok) h where "r = Ok h" "b' = b\<lparr>cb_next_offset := cb_next_offset b + 1\<rparr>" "w' = w"
      "ph_backend_id h = cb_backend_id b" "ph_offset h = cb_next_offset b"
      "cb_next_offset b < cb_next_offset b + 1" "of_nat (length (cb_pages b)) < cb_max_pages b"
proof (cases "of_nat (length (cb_pages b)) \<ge> cb_max_pages b")
  case True
  with assms show thesis by (intro full) (auto simp: cb_alloc_page_def)
next
  case False
  from assms False have r: "r = ph_new (cb_backend_id b) (cb_next_offset b)"
    "b' = b\<lparr>cb_next_offset := cb_next_offset b + 1\<rparr>" "w' = w"
    by (auto simp: cb_alloc_page_def)
  with assms(2) obtain h where h: "r = Ok h" "cb_next_offset b < push_bit 56 1"
    "ph_backend_id h = cb_backend_id b" "ph_offset h = cb_next_offset b"
    by (metis ph_new_cases)
  have "unat (cb_next_offset b + 1) = Suc (unat (cb_next_offset b))"
    using h(2) by (rule unat_inc)
  then have "cb_next_offset b < cb_next_offset b + 1" by (simp add: word_less_nat_alt)
  with False h r show thesis by (intro ok) (simp_all add: not_le)
qed

interpretation cb: reliable_backend "cb_vt lz" cb_backend_id "cb_contents lz" cb_issued "cb_inv lz"
  "\<lambda>_ _. True" for lz
proof (unfold_locales, goal_cases)
  case (3 b w x d)
  then show ?case by (fastforce simp: cb_inv_simps split: option.splits)
next
  case (4 b w r b' w')
  from 4(2,3) have "cb_alloc_page b w = (r, b', w')" "r \<noteq> Panic" by simp_all
  then show ?case
    using 4(1) by (cases rule: cb_alloc_cases) (force simp: cb_inv_simps intro: order.strict_trans)+
next
  case (6 b w h r b' w')
  then show ?case
    by (auto simp: cb_inv_simps cb_ops is_page_def split: option.splits if_splits)
next
  case (8 b w h d)
  then show ?case
    by (fastforce simp: cb_inv_simps cb_ops is_page_def split: option.splits)
qed (auto simp: cb_inv_simps cb_ops Let_def split: option.splits if_splits)

text \<open>A handle holds 56 bits of offset.\<close>

definition cb_exhausted :: "compress_backend \<Rightarrow> bool" where
  "cb_exhausted b \<longleftrightarrow> cb_next_offset b \<ge> push_bit 56 1"

text \<open>The count of used pages does not wrap, since every page has an offset of its own.\<close>

lemma cb_used: "cb_inv lz b w \<Longrightarrow> unat (snd (cb_capacity b)) = length (cb_pages b)"
  unfolding cb_inv_def cb_capacity_def
  using hm_length_less(2) [of "cb_pages b" "cb_next_offset b"] by simp

lemma cb_contents_None: "cb_inv lz b w \<Longrightarrow> cb_contents lz b w x = None \<longleftrightarrow> map_of (cb_pages b) x = None"
  by (fastforce simp: cb_inv_simps split: option.splits)

interpretation cb: counted_backend "cb_vt lz" cb_backend_id "cb_contents lz" cb_issued "cb_inv lz"
  "\<lambda>_ _. True" cb_exhausted for lz
proof (unfold_locales, goal_cases)
  case (2 b w)
  then obtain h where "ph_new (cb_backend_id b) (cb_next_offset b) = Ok h"
    by (auto simp: cb_exhausted_def not_le ph_new_def)
  with 2 show ?case by (auto simp: cb_ops Let_def)
next
  case (6 b w d h r b' w')
  have "cb_inv lz b' w'"
    using cb.store_law [OF 6(1,2,3,5)] 6(5) by (auto simp: backend_step_def cb_ops Let_def)
  from cb_used [OF 6(1)] cb_used [OF this] 6(4,5) show ?case
    by (auto simp: cb_ops cb_contents_None [OF 6(1)] hm_length_insert domIff Let_def)
next
  case (7 b w h r b' w')
  have "cb_inv lz b' w'"
    using cb.free_law [OF 7(1,3)] 7(3) by (auto simp: backend_step_def cb_ops split: option.splits)
  from cb_used [OF 7(1)] cb_used [OF this] 7 show ?case
    by (auto simp: cb_ops cb_inv_simps hm_length_remove_Some split: option.splits)
qed (auto simp: cb_ops cb_exhausted_def Let_def split: option.splits if_splits)

section \<open>Properties\<close>

definition plain_codec :: lz4_codec where
  "plain_codec = \<lparr>lz4_compress = (\<lambda>d. d), lz4_decompress = Some\<rparr>"

lemma lz4_roundtrip_plain: "lz4_roundtrip plain_codec"
  by (simp add: lz4_roundtrip_def plain_codec_def)

text \<open>
  C29: if the LZ4 library decompresses what it compressed, a page stored in the compression backend
  is loaded back unchanged through the same handle, and other offsets are unaffected.
\<close>

theorem cb_store_load:
  assumes "lz4_roundtrip lz" and "is_page d"
  shows "fst (cb_load_page lz (fst (snd (cb_store_page lz b h d w))) h w) = Ok d \<and>
     (ph_offset g = ph_offset h \<or>
      fst (cb_load_page lz (fst (snd (cb_store_page lz b h d w))) g w) = fst (cb_load_page lz b g w))"
  using assms by (auto simp: cb_ops Let_def lz4_roundtrip_def is_page_def split: option.split)

theorem cb_store_load_witness:
  "fst (cb_load_page plain_codec (fst (snd (cb_store_page plain_codec (cb_new 1) (PageHandle 7)
     (replicate 4096 9) ()))) (PageHandle 7) ()) = Ok (replicate 4096 9)"
  using cb_store_load [OF lz4_roundtrip_plain, of "replicate 4096 9" "cb_new 1" "PageHandle 7" "()"] by simp

text \<open>The byte counters agree with the pages.\<close>

definition cb_bytes_ok :: "compress_backend \<Rightarrow> bool" where
  "cb_bytes_ok b \<longleftrightarrow>
     cb_bytes_stored_raw b = of_nat (PAGE_SIZE * length (cb_pages b)) \<and>
     cb_bytes_stored_compressed b = of_nat (sum_list (map (length \<circ> snd) (cb_pages b)))"

lemma sum_list_insert_new:
  "map_of m k = None \<Longrightarrow>
   sum_list (map (f \<circ> snd) (AList.update k v m)) = sum_list (map (f \<circ> snd) m) + (f v :: nat)"
  by (induction m) auto

lemma sum_list_remove:
  "hm_ok m \<Longrightarrow> map_of m k = Some v \<Longrightarrow>
   sum_list (map (f \<circ> snd) m) = sum_list (map (f \<circ> snd) (AList.delete k m)) + (f v :: nat)"
proof (induction m)
  case (Cons p m)
  then have "hm_ok m" by (simp add: hm_ok_def)
  moreover have "AList.delete k m = m" if "fst p = k"
    using Cons.prems(1) that by (auto simp: hm_ok_def intro!: AList.delete_id)
  ultimately show ?case using Cons by (auto split: if_splits)
qed simp

text \<open>
  The byte counters stay exact through frees, shutdowns and stores to an offset that holds no
  page, which is all the engine does.
\<close>

theorem cb_bytes_exact:
  assumes "hm_ok (cb_pages b)" and "cb_bytes_ok b"
  shows "cb_bytes_ok (fst (snd (cb_free_page b h w))) \<and> cb_bytes_ok (fst (snd (cb_shutdown b w))) \<and>
     (map_of (cb_pages b) (ph_offset h) = None \<longrightarrow>
      cb_bytes_ok (fst (snd (cb_store_page lz b h d w))))"
proof (intro conjI impI)
  show "cb_bytes_ok (fst (snd (cb_shutdown b w)))" by (simp add: cb_ops cb_bytes_ok_def)
  show "cb_bytes_ok (fst (snd (cb_free_page b h w)))"
  proof (cases "map_of (cb_pages b) (ph_offset h)")
    case None
    then show ?thesis using assms(2) by (simp add: cb_ops)
  next
    case (Some c)
    then show ?thesis
      using assms sum_list_remove [OF assms(1) Some, of length] hm_length_remove_Some [OF assms(1) Some]
      by (simp add: cb_ops cb_bytes_ok_def)
  qed
  assume "map_of (cb_pages b) (ph_offset h) = None"
  then show "cb_bytes_ok (fst (snd (cb_store_page lz b h d w)))"
    using assms sum_list_insert_new [of "cb_pages b" "ph_offset h" length "lz4_compress lz d"]
    by (simp add: cb_ops cb_bytes_ok_def hm_length_insert domIff Let_def)
qed

theorem cb_bytes_exact_witness:
  "cb_bytes_ok (fst (snd (cb_store_page plain_codec (cb_new 1) (PageHandle 7) (replicate 4096 9) ())))"
  using cb_bytes_exact [of "cb_new 1" "PageHandle 7" "()" plain_codec]
  by (simp add: cb_new_def cb_bytes_ok_def)

text \<open>
  Overwriting a page through its handle counts it twice: after two stores and one free of the
  same handle the backend holds nothing and still counts one page of raw bytes.
\<close>

theorem cb_overwrite_miscounts:
  "\<exists>b. b = fst (snd (cb_free_page (fst (snd (cb_store_page lz (fst (snd (cb_store_page lz (cb_new i) h d w)))
     h d w))) h w)) \<and> cb_pages b = [] \<and> cb_bytes_stored_raw b = of_nat PAGE_SIZE"
  by (simp add: cb_ops cb_new_def Let_def)

end
