(* ===== verification/Memserver.thy ===== *)
theory Memserver
  imports Prelude
begin

text \<open>
  The remote memory server, \<^verbatim>\<open>crates/duvm-memserver/src/main.rs\<close>: the shared page store and
  the loop that reads requests off a connection and answers them. The connection is the
  list of bytes the client has sent; the loop stops where it would wait for more. The accept
  loop and the threads it starts are in \<open>Memserver_Threads\<close>.
\<close>

section \<open>The page store\<close>

definition OP_STORE :: u8 where "OP_STORE = 1"
definition OP_LOAD :: u8 where "OP_LOAD = 2"
definition OP_FREE :: u8 where "OP_FREE = 3"
definition OP_ALLOC :: u8 where "OP_ALLOC = 4"
definition OP_STATUS :: u8 where "OP_STATUS = 5"
definition RESP_OK :: u8 where "RESP_OK = 0"
definition RESP_ERR :: u8 where "RESP_ERR = 1"

lemmas wire_consts = OP_STORE_def OP_LOAD_def OP_FREE_def OP_ALLOC_def OP_STATUS_def RESP_OK_def
  RESP_ERR_def

record page_store =
  ps_pages :: "(u64, page) hash_map"
  ps_max_pages :: u64
  ps_used :: u64
  ps_next_offset :: u64

definition ps_new :: "u64 \<Rightarrow> page_store" where
  "ps_new n = \<lparr>ps_pages = [], ps_max_pages = n, ps_used = 0, ps_next_offset = 0\<rparr>"

text \<open>With no other thread in between, the first compare-and-exchange succeeds.\<close>

definition alloc_offset :: "page_store \<Rightarrow> u64 option \<times> page_store" where
  "alloc_offset ps =
     (if ps_used ps \<ge> ps_max_pages ps then (None, ps)
      else (Some (ps_next_offset ps),
            ps\<lparr>ps_used := ps_used ps + 1, ps_next_offset := ps_next_offset ps + 1\<rparr>))"

definition ps_store :: "page_store \<Rightarrow> u64 \<Rightarrow> page \<Rightarrow> bool \<times> page_store" where
  "ps_store ps offset data =
     (if of_nat (length (ps_pages ps)) \<ge> ps_max_pages ps \<and> map_of (ps_pages ps) offset = None
      then (False, ps)
      else (True, ps\<lparr>ps_pages := AList.update offset data (ps_pages ps)\<rparr>))"

definition ps_load :: "page_store \<Rightarrow> u64 \<Rightarrow> page option" where
  "ps_load ps offset = map_of (ps_pages ps) offset"

definition ps_free :: "page_store \<Rightarrow> u64 \<Rightarrow> bool \<times> page_store" where
  "ps_free ps offset =
     (if map_of (ps_pages ps) offset \<noteq> None
      then (True, ps\<lparr>ps_pages := AList.delete offset (ps_pages ps), ps_used := ps_used ps - 1\<rparr>)
      else (False, ps))"

definition used_pages :: "page_store \<Rightarrow> u64" where
  "used_pages ps = ps_used ps"

lemmas ps_ops = alloc_offset_def ps_store_def ps_load_def ps_free_def used_pages_def

section \<open>The request loop\<close>

text \<open>
  One round of the loop, on the bytes that have arrived: the new store, the bytes written
  back, and the bytes that are left; \<open>None\<close> when a read waits for more.
\<close>

definition handle_request :: "page_store \<Rightarrow> u8 list \<Rightarrow> (page_store \<times> u8 list \<times> u8 list) option" where
  "handle_request ps input =
     (case input of
        [] \<Rightarrow> None
      | op # rest \<Rightarrow>
          if op = OP_ALLOC then
            (case alloc_offset ps of
               (Some offset, ps') \<Rightarrow> Some (ps', RESP_OK # to_le_bytes offset, rest)
             | (None, ps') \<Rightarrow> Some (ps', RESP_ERR # replicate 8 0, rest))
          else if op = OP_STORE then
            (if length rest < 8 then None
             else
               let offset = from_le_bytes (take 8 rest); rest' = drop 8 rest in
               if length rest' < PAGE_SIZE then None
               else
                 (case ps_store ps offset (take PAGE_SIZE rest') of (stored, ps') \<Rightarrow>
                  Some (ps', [if stored then RESP_OK else RESP_ERR], drop PAGE_SIZE rest')))
          else if op = OP_LOAD then
            (if length rest < 8 then None
             else
               (case ps_load ps (from_le_bytes (take 8 rest)) of
                  Some data \<Rightarrow> Some (ps, RESP_OK # data, drop 8 rest)
                | None \<Rightarrow> Some (ps, [RESP_ERR], drop 8 rest)))
          else if op = OP_FREE then
            (if length rest < 8 then None
             else
               (case ps_free ps (from_le_bytes (take 8 rest)) of (freed, ps') \<Rightarrow>
                Some (ps', [if freed then RESP_OK else RESP_ERR], drop 8 rest)))
          else if op = OP_STATUS then
            Some (ps, RESP_OK # to_le_bytes (used_pages ps) @ to_le_bytes (ps_max_pages ps), rest)
          else Some (ps, [RESP_ERR], rest))"

lemma handle_request_shorter:
  "handle_request ps input = Some (ps', out, rest) \<Longrightarrow> length rest < length input"
  by (auto simp: handle_request_def Let_def split: list.splits if_splits prod.splits option.splits)

function handle_client :: "page_store \<Rightarrow> u8 list \<Rightarrow> page_store \<times> u8 list \<times> u8 list" where
  "handle_client ps input =
     (case handle_request ps input of
        None \<Rightarrow> (ps, [], input)
      | Some (ps', out, rest) \<Rightarrow>
          (case handle_client ps' rest of (ps'', out', rest') \<Rightarrow> (ps'', out @ out', rest')))"
  by pat_completeness auto

termination
  by (relation "measure (\<lambda>(ps, input). length input)") (auto dest: handle_request_shorter)

declare handle_client.simps [simp del]

lemma handle_client_induct [case_names wait request]:
  assumes "\<And>ps input. handle_request ps input = None \<Longrightarrow> P ps input"
    and "\<And>ps input ps' out rest. handle_request ps input = Some (ps', out, rest) \<Longrightarrow> P ps' rest \<Longrightarrow> P ps input"
  shows "P ps input"
proof (induction ps input rule: handle_client.induct)
  case (1 ps input)
  show ?case
  proof (cases "handle_request ps input")
    case (Some r)
    then show ?thesis using 1 assms(2) by (cases r) auto
  qed (rule assms(1))
qed

text \<open>The requests as the client writes them.\<close>

lemma handle_alloc:
  "handle_request ps (OP_ALLOC # rest) =
     (if ps_used ps \<ge> ps_max_pages ps then Some (ps, RESP_ERR # replicate 8 0, rest)
      else Some (ps\<lparr>ps_used := ps_used ps + 1, ps_next_offset := ps_next_offset ps + 1\<rparr>,
                 RESP_OK # to_le_bytes (ps_next_offset ps), rest))"
  by (simp add: handle_request_def alloc_offset_def)

lemma handle_store:
  "is_page d \<Longrightarrow> handle_request ps (OP_STORE # to_le_bytes x @ d @ rest) =
     (case ps_store ps x d of (stored, ps') \<Rightarrow>
      Some (ps', [if stored then RESP_OK else RESP_ERR], rest))"
  by (simp add: handle_request_def wire_consts is_page_def)

lemma handle_load:
  "handle_request ps (OP_LOAD # to_le_bytes x @ rest) =
     (case ps_load ps x of
        Some data \<Rightarrow> Some (ps, RESP_OK # data, rest) | None \<Rightarrow> Some (ps, [RESP_ERR], rest))"
  by (simp add: handle_request_def wire_consts split: option.split)

lemma handle_free:
  "handle_request ps (OP_FREE # to_le_bytes x @ rest) =
     (case ps_free ps x of (freed, ps') \<Rightarrow>
      Some (ps', [if freed then RESP_OK else RESP_ERR], rest))"
  by (simp add: handle_request_def wire_consts)

lemmas handle_requests = handle_alloc handle_store handle_load handle_free

lemma handle_request_Nil [simp]: "handle_request ps [] = None"
  by (simp add: handle_request_def)

lemma handle_client_Nil [simp]: "handle_client ps [] = (ps, [], [])"
  by (simp add: handle_client.simps)

section \<open>Invariant\<close>

text \<open>The store never holds more pages than its limit, nor anything that is not a page.\<close>

definition ps_ok :: "page_store \<Rightarrow> bool" where
  "ps_ok ps \<longleftrightarrow> hm_ok (ps_pages ps) \<and> length (ps_pages ps) \<le> unat (ps_max_pages ps) \<and>
     (\<forall>x d. map_of (ps_pages ps) x = Some d \<longrightarrow> is_page d)"

lemma ps_ok_new: "ps_ok (ps_new n)"
  by (simp add: ps_ok_def ps_new_def)

lemma ps_ok_store:
  assumes "ps_ok ps" and "is_page d"
  shows "ps_ok (snd (ps_store ps x d))"
proof (cases "map_of (ps_pages ps) x")
  case None
  have "length (ps_pages ps) < 2 ^ 64"
    using assms(1) unsigned_less [of "ps_max_pages ps", where ?'a = nat] by (simp add: ps_ok_def)
  then have "unat (of_nat (length (ps_pages ps)) :: u64) = length (ps_pages ps)"
    by (intro unat_of_nat_len) simp
  with assms None show ?thesis
    by (auto simp: ps_ok_def ps_store_def hm_length_insert domIff not_le word_less_nat_alt)
next
  case (Some c)
  with assms show ?thesis by (auto simp: ps_ok_def ps_store_def hm_length_insert domIff)
qed

lemma ps_ok_free: "ps_ok ps \<Longrightarrow> ps_ok (snd (ps_free ps x))"
  by (auto simp: ps_ok_def ps_free_def hm_length_remove split: if_splits)

lemma ps_ok_alloc: "ps_ok ps \<Longrightarrow> ps_ok (snd (alloc_offset ps))"
  by (simp add: ps_ok_def alloc_offset_def)

lemma ps_max_pages_ops [simp]:
  "ps_max_pages (snd (ps_store ps x d)) = ps_max_pages ps"
  "ps_max_pages (snd (ps_free ps x)) = ps_max_pages ps"
  "ps_max_pages (snd (alloc_offset ps)) = ps_max_pages ps"
  by (simp_all add: ps_ops)

text \<open>Whatever the bytes are, a request does one of four things to the store.\<close>

lemma handle_request_cases:
  assumes "handle_request ps input = Some (ps', out, rest)"
  obtains (same) "ps' = ps" | (alloc) "ps' = snd (alloc_offset ps)"
  | (store) x d where "is_page d" "ps' = snd (ps_store ps x d)"
  | (free) x where "ps' = snd (ps_free ps x)"
proof -
  have page: "is_page (take PAGE_SIZE xs)" if "\<not> length xs < PAGE_SIZE" for xs :: "u8 list"
    using that by (simp add: is_page_def)
  obtain op bs where i: "input = op # bs" using assms by (cases input) simp_all
  consider "op = OP_ALLOC" | "op = OP_STORE" | "op = OP_LOAD" | "op = OP_FREE"
    | "op \<notin> {OP_ALLOC, OP_STORE, OP_LOAD, OP_FREE}" by blast
  then show thesis
  proof cases
    case 1
    with assms i show thesis
      by (intro alloc) (auto simp: handle_request_def split: prod.splits option.splits)
  next
    case 2
    have "\<not> length (drop 8 bs) < PAGE_SIZE"
      "ps' = snd (ps_store ps (from_le_bytes (take 8 bs)) (take PAGE_SIZE (drop 8 bs)))"
      using assms i 2 by (auto simp: handle_request_def wire_consts Let_def split: prod.splits if_splits)
    with page [of "drop 8 bs"] show thesis by (intro store)
  next
    case 3
    with assms i show thesis
      by (intro same) (auto simp: handle_request_def wire_consts split: option.splits if_splits)
  next
    case 4
    with assms i show thesis
      by (intro free [of "from_le_bytes (take 8 bs)"])
        (auto simp: handle_request_def wire_consts split: prod.splits if_splits)
  next
    case 5
    with assms i show thesis by (intro same) (auto simp: handle_request_def split: if_splits)
  qed
qed

lemma ps_ok_request:
  assumes "handle_request ps input = Some (ps', out, rest)" and "ps_ok ps"
  shows "ps_ok ps' \<and> ps_max_pages ps' = ps_max_pages ps"
  using assms(1)
  by (cases rule: handle_request_cases) (use assms(2) ps_ok_store ps_ok_free ps_ok_alloc in auto)

section \<open>Properties\<close>

text \<open>
  Whatever bytes a client sends, in however many requests, the server holds only whole
  pages and never more of them than its limit: it refuses when full.
\<close>

theorem handle_client_bounded:
  assumes "ps_ok ps" and "handle_client ps input = (ps', out, rest)"
  shows "ps_ok ps' \<and> ps_max_pages ps' = ps_max_pages ps"
  using assms
proof (induction ps input arbitrary: out rule: handle_client_induct)
  case (wait ps input)
  then show ?case by (simp add: handle_client.simps)
next
  case (request ps input ps1 out1 rest1)
  obtain out2 where "handle_client ps1 rest1 = (ps', out2, rest)"
    using request.hyps request.prems(2) by (auto simp: handle_client.simps [of ps] split: prod.splits)
  with request.IH ps_ok_request [OF request.hyps request.prems(1)] show ?case by simp
qed

theorem handle_client_bounded_witness:
  "length (ps_pages (fst (handle_client (ps_new 0) [OP_ALLOC, OP_STATUS, 77]))) \<le> 0"
  using handle_client_bounded [OF ps_ok_new [of 0], of "[OP_ALLOC, OP_STATUS, 77]"]
  by (cases "handle_client (ps_new 0) [OP_ALLOC, OP_STATUS, 77]") (auto simp: ps_ok_def ps_new_def)

text \<open>
  A page that a client stores at an offset with room in the store, followed by a load of
  that offset as the next request of the connection, is answered with the same 4096
  bytes, and both requests are answered and consumed.
\<close>

theorem store_then_load_wire:
  assumes "is_page d" and "of_nat (length (ps_pages ps)) < ps_max_pages ps"
  shows "\<exists>ps'. handle_client ps (OP_STORE # to_le_bytes x @ d @ OP_LOAD # to_le_bytes x) =
     (ps', [RESP_OK, RESP_OK] @ d, [])"
proof -
  have st: "ps_store ps x d = (True, ps\<lparr>ps_pages := AList.update x d (ps_pages ps)\<rparr>)"
    using assms(2) by (simp add: ps_store_def not_le [symmetric])
  have "handle_request (ps\<lparr>ps_pages := AList.update x d (ps_pages ps)\<rparr>) (OP_LOAD # to_le_bytes x @ []) =
    Some (ps\<lparr>ps_pages := AList.update x d (ps_pages ps)\<rparr>, RESP_OK # d, [])"
    unfolding handle_load by (simp add: ps_load_def)
  then have "handle_client (ps\<lparr>ps_pages := AList.update x d (ps_pages ps)\<rparr>) (OP_LOAD # to_le_bytes x) =
    (ps\<lparr>ps_pages := AList.update x d (ps_pages ps)\<rparr>, RESP_OK # d, [])"
    by (simp add: handle_client.simps [of _ "OP_LOAD # _"])
  then show ?thesis
    by (simp add: handle_client.simps [of ps] handle_store [OF assms(1)] st)
qed

theorem store_then_load_wire_witness:
  "\<exists>ps'. handle_client (ps_new 1) (OP_STORE # to_le_bytes 7 @ replicate 4096 1 @ OP_LOAD # to_le_bytes 7) =
     (ps', [RESP_OK, RESP_OK] @ replicate 4096 1, [])"
  by (rule store_then_load_wire) (simp_all add: ps_new_def)

text \<open>
  C38: the count of used pages is not tied to the pages: a client that stores without
  allocating and then frees makes the count wrap around to the largest number, after which
  every allocation on the server is refused although it holds no page.
\<close>

theorem free_without_alloc_blocks_server:
  assumes "is_page d" and "0 < n"
  shows "\<exists>ps'. handle_client (ps_new n) (OP_STORE # to_le_bytes x @ d @ OP_FREE # to_le_bytes x @ [OP_ALLOC]) =
     (ps', [RESP_OK, RESP_OK, RESP_ERR] @ replicate 8 0, []) \<and> ps_pages ps' = [] \<and> ps_used ps' = - 1"
proof -
  define ps1 where "ps1 = (ps_new n)\<lparr>ps_pages := [(x, d)]\<rparr>"
  define ps2 where "ps2 = (ps_new n)\<lparr>ps_used := - 1\<rparr>"
  have st: "ps_store (ps_new n) x d = (True, ps1)"
    using assms(2) by (simp add: ps_store_def ps_new_def ps1_def not_le [symmetric])
  have fr: "ps_free ps1 x = (True, ps2)"
    by (simp add: ps_free_def ps1_def ps2_def ps_new_def)
  have al: "handle_client ps2 [OP_ALLOC] = (ps2, RESP_ERR # replicate 8 0, [])"
    unfolding handle_client.simps [of ps2] handle_alloc by (simp add: ps2_def ps_new_def)
  have "handle_client ps1 (OP_FREE # to_le_bytes x @ [OP_ALLOC]) =
      (ps2, [RESP_OK, RESP_ERR] @ replicate 8 0, [])"
    by (simp add: handle_client.simps [of ps1] handle_free fr al)
  then show ?thesis
    by (simp add: handle_client.simps [of "ps_new n"] handle_store [OF assms(1)] st)
      (simp add: ps2_def ps_new_def)
qed

theorem free_without_alloc_blocks_server_witness:
  "\<exists>ps'. handle_client (ps_new 9)
      (OP_STORE # to_le_bytes 3 @ replicate 4096 1 @ OP_FREE # to_le_bytes 3 @ [OP_ALLOC]) =
     (ps', [RESP_OK, RESP_OK, RESP_ERR] @ replicate 8 0, []) \<and> ps_pages ps' = [] \<and> ps_used ps' = - 1"
  by (rule free_without_alloc_blocks_server) simp_all

end
