(* ===== verification/Tcp_Backend.thy ===== *)
theory Tcp_Backend
  imports Backend_Trait Memserver
begin

text \<open>
  The TCP backend, \<^verbatim>\<open>crates/duvm-backend-tcp/src/lib.rs\<close>: the client side of the memory
  server's protocol, with reconnection and a circuit breaker. The socket calls and the clock
  are the fields of a record \<open>tcp_io\<close>, over a type \<open>'s\<close> of streams and a world \<open>'w\<close>; the
  network that implements them is in the theory \<open>Network\<close>. Times are in nanoseconds.
\<close>

section \<open>Sockets\<close>

record ('s, 'w) tcp_io =
  io_parse :: "string \<Rightarrow> bool"
  io_connect :: "string \<Rightarrow> 'w \<Rightarrow> 's option \<times> 'w"
  io_set_nodelay :: "'s \<Rightarrow> 'w \<Rightarrow> bool \<times> 'w"
  io_write_all :: "'s \<Rightarrow> u8 list \<Rightarrow> 'w \<Rightarrow> bool \<times> 'w"
  io_flush :: "'s \<Rightarrow> 'w \<Rightarrow> bool \<times> 'w"
  io_read_exact :: "'s \<Rightarrow> nat \<Rightarrow> 'w \<Rightarrow> u8 list option \<times> 'w"
  io_now :: "'w \<Rightarrow> nat \<times> 'w"

section \<open>State\<close>

definition MAX_CONSECUTIVE_FAILURES :: u32 where
  "MAX_CONSECUTIVE_FAILURES = 5"

definition BACKOFF_SECS :: nat where
  "BACKOFF_SECS = 5"

record 's conn_state =
  cs_stream :: "'s option"
  cs_consecutive_failures :: u32
  cs_last_attempt :: "nat option"

record 's tcp_backend =
  tb_name :: string
  tb_conn :: "'s conn_state"
  tb_addr :: string
  tb_backend_id :: u8
  tb_max_pages :: u64
  tb_pages_used :: u64
  tb_total_store_ns :: u64
  tb_total_load_ns :: u64
  tb_store_count :: u64
  tb_load_count :: u64

definition tb_new :: "u8 \<Rightarrow> string \<Rightarrow> 's tcp_backend" where
  "tb_new i addr =
     \<lparr>tb_name = ''tcp('' @ addr @ '')'',
      tb_conn = \<lparr>cs_stream = None, cs_consecutive_failures = 0, cs_last_attempt = None\<rparr>,
      tb_addr = addr, tb_backend_id = i, tb_max_pages = 1024 * 1024, tb_pages_used = 0,
      tb_total_store_ns = 0, tb_total_load_ns = 0, tb_store_count = 0, tb_load_count = 0\<rparr>"

section \<open>Connection handling\<close>

text \<open>The condition of the circuit breaker; the clock is read only when it is needed.\<close>

definition breaker_open :: "('s, 'w) tcp_io \<Rightarrow> 's conn_state \<Rightarrow> 'w \<Rightarrow> bool \<times> 'w" where
  "breaker_open io c w =
     (if cs_consecutive_failures c \<ge> MAX_CONSECUTIVE_FAILURES then
        (case cs_last_attempt c of
           Some prev \<Rightarrow>
             (case io_now io w of (t, w') \<Rightarrow> (t - prev < BACKOFF_SECS * 1000000000, w'))
         | None \<Rightarrow> (False, w))
      else (False, w))"

definition try_reconnect ::
  "('s, 'w) tcp_io \<Rightarrow> string \<Rightarrow> 's conn_state \<Rightarrow> 'w \<Rightarrow> unit res \<times> 's conn_state \<times> 'w" where
  "try_reconnect io addr c w =
     (case breaker_open io c w of (opn, w1) \<Rightarrow>
      if opn then (Err (CircuitOpen (cs_consecutive_failures c)), c, w1)
      else
        (case io_now io w1 of (t, w2) \<Rightarrow>
         let c1 = c\<lparr>cs_last_attempt := Some t\<rparr> in
         if \<not> io_parse io addr then (Err (InvalidAddress addr), c1, w2)
         else
           (case io_connect io addr w2 of
              (Some s, w3) \<Rightarrow>
                (case io_set_nodelay io s w3 of
                   (True, w4) \<Rightarrow>
                     (Ok (), c1\<lparr>cs_stream := Some s, cs_consecutive_failures := 0\<rparr>, w4)
                 | (False, w4) \<Rightarrow> (Err IoFailed, c1, w4))
            | (None, w3) \<Rightarrow>
                (Err ConnectFailed,
                 c1\<lparr>cs_consecutive_failures := cs_consecutive_failures c1 + 1\<rparr>, w3))))"

definition with_stream ::
  "('s, 'w) tcp_io \<Rightarrow> ('s \<Rightarrow> 'w \<Rightarrow> 'a res \<times> 'w) \<Rightarrow> 's tcp_backend \<Rightarrow> 'w
   \<Rightarrow> 'a res \<times> 's tcp_backend \<times> 'w" where
  "with_stream io op b w =
     (case (if cs_stream (tb_conn b) = None then try_reconnect io (tb_addr b) (tb_conn b) w
            else (Ok (), tb_conn b, w)) of
        (Err e, c, w1) \<Rightarrow> (Err e, b\<lparr>tb_conn := c\<rparr>, w1)
      | (Panic, c, w1) \<Rightarrow> (Panic, b\<lparr>tb_conn := c\<rparr>, w1)
      | (Ok u, c, w1) \<Rightarrow>
          (case cs_stream c of
             None \<Rightarrow> (Err (NotConnected (tb_addr b)), b\<lparr>tb_conn := c\<rparr>, w1)
           | Some s \<Rightarrow>
               (case op s w1 of
                  (Ok v, w2) \<Rightarrow> (Ok v, b\<lparr>tb_conn := c\<lparr>cs_consecutive_failures := 0\<rparr>\<rparr>, w2)
                | (Err e, w2) \<Rightarrow>
                    (Err e,
                     b\<lparr>tb_conn := c\<lparr>cs_stream := None,
                         cs_consecutive_failures := cs_consecutive_failures c + 1\<rparr>\<rparr>, w2)
                | (Panic, w2) \<Rightarrow> (Panic, b\<lparr>tb_conn := c\<rparr>, w2))))"

text \<open>Write a request, flush, and read a reply of \<open>n\<close> bytes: the common part of the closures.\<close>

definition exchange ::
  "('s, 'w) tcp_io \<Rightarrow> u8 list list \<Rightarrow> nat \<Rightarrow> 's \<Rightarrow> 'w \<Rightarrow> u8 list res \<times> 'w" where
  "exchange io reqs n s w =
     (case fold (\<lambda>req (good, w). if good then io_write_all io s req w else (False, w)) reqs (True, w) of
        (False, w1) \<Rightarrow> (Err IoFailed, w1)
      | (True, w1) \<Rightarrow>
          (case io_flush io s w1 of
             (False, w2) \<Rightarrow> (Err IoFailed, w2)
           | (True, w2) \<Rightarrow>
               (case io_read_exact io s n w2 of
                  (None, w3) \<Rightarrow> (Err IoFailed, w3)
                | (Some resp, w3) \<Rightarrow> (Ok resp, w3))))"

section \<open>Operations\<close>

definition alloc_op :: "('s, 'w) tcp_io \<Rightarrow> u8 \<Rightarrow> 's \<Rightarrow> 'w \<Rightarrow> page_handle res \<times> 'w" where
  "alloc_op io i s w =
     (case exchange io [[OP_ALLOC]] 9 s w of
        (Ok resp, w') \<Rightarrow>
          if resp ! 0 \<noteq> RESP_OK then (Err RemoteAllocFailed, w')
          else (ph_new i (from_le_bytes (drop 1 resp)), w')
      | (Err e, w') \<Rightarrow> (Err e, w')
      | (Panic, w') \<Rightarrow> (Panic, w'))"

definition free_op :: "('s, 'w) tcp_io \<Rightarrow> page_handle \<Rightarrow> 's \<Rightarrow> 'w \<Rightarrow> unit res \<times> 'w" where
  "free_op io h s w =
     (case exchange io [OP_FREE # to_le_bytes (ph_offset h)] 1 s w of
        (Ok resp, w') \<Rightarrow>
          if resp ! 0 \<noteq> RESP_OK then (Err (RemoteFreeFailed (ph_raw h)), w') else (Ok (), w')
      | (Err e, w') \<Rightarrow> (Err e, w')
      | (Panic, w') \<Rightarrow> (Panic, w'))"

definition store_op :: "('s, 'w) tcp_io \<Rightarrow> page_handle \<Rightarrow> page \<Rightarrow> 's \<Rightarrow> 'w \<Rightarrow> unit res \<times> 'w" where
  "store_op io h d s w =
     (case exchange io [OP_STORE # to_le_bytes (ph_offset h), d] 1 s w of
        (Ok resp, w') \<Rightarrow>
          if resp ! 0 \<noteq> RESP_OK then (Err RemoteStoreFailed, w') else (Ok (), w')
      | (Err e, w') \<Rightarrow> (Err e, w')
      | (Panic, w') \<Rightarrow> (Panic, w'))"

definition load_op :: "('s, 'w) tcp_io \<Rightarrow> page_handle \<Rightarrow> 's \<Rightarrow> 'w \<Rightarrow> page res \<times> 'w" where
  "load_op io h s w =
     (case exchange io [OP_LOAD # to_le_bytes (ph_offset h)] 1 s w of
        (Ok status, w1) \<Rightarrow>
          if status ! 0 \<noteq> RESP_OK then (Err RemoteLoadFailed, w1)
          else
            (case io_read_exact io s PAGE_SIZE w1 of
               (None, w2) \<Rightarrow> (Err IoFailed, w2)
             | (Some buf, w2) \<Rightarrow> (Ok buf, w2))
      | (Err e, w1) \<Rightarrow> (Err e, w1)
      | (Panic, w1) \<Rightarrow> (Panic, w1))"

definition tb_init ::
  "('s, 'w) tcp_io \<Rightarrow> 's tcp_backend \<Rightarrow> backend_config \<Rightarrow> 'w \<Rightarrow> unit res \<times> 's tcp_backend \<times> 'w" where
  "tb_init io b config w =
     (let b1 = b\<lparr>tb_max_pages := bc_max_pages config\<rparr> in
      if \<not> io_parse io (tb_addr b) then (Err (InvalidAddress (tb_addr b)), b1, w)
      else
        (case io_connect io (tb_addr b) w of
           (None, w1) \<Rightarrow> (Err ConnectFailed, b1, w1)
         | (Some s, w1) \<Rightarrow>
             (case io_set_nodelay io s w1 of
                (False, w2) \<Rightarrow> (Err IoFailed, b1, w2)
              | (True, w2) \<Rightarrow>
                  (Ok (), b1\<lparr>tb_conn := (tb_conn b1)\<lparr>cs_stream := Some s,
                                         cs_consecutive_failures := 0\<rparr>\<rparr>, w2))))"

text \<open>With no other thread in between, the first compare-and-exchange of the reservation succeeds.\<close>

definition tb_alloc_page ::
  "('s, 'w) tcp_io \<Rightarrow> 's tcp_backend \<Rightarrow> 'w \<Rightarrow> page_handle res \<times> 's tcp_backend \<times> 'w" where
  "tb_alloc_page io b w =
     (if tb_pages_used b \<ge> tb_max_pages b then (Err (TcpFull (tb_max_pages b)), b, w)
      else
        (case with_stream io (alloc_op io (tb_backend_id b))
                (b\<lparr>tb_pages_used := tb_pages_used b + 1\<rparr>) w of
           (Err e, b', w') \<Rightarrow> (Err e, b'\<lparr>tb_pages_used := tb_pages_used b' - 1\<rparr>, w')
         | (r, b', w') \<Rightarrow> (r, b', w')))"

definition tb_free_page ::
  "('s, 'w) tcp_io \<Rightarrow> 's tcp_backend \<Rightarrow> page_handle \<Rightarrow> 'w \<Rightarrow> unit res \<times> 's tcp_backend \<times> 'w" where
  "tb_free_page io b h w =
     (case with_stream io (free_op io h) b w of
        (Ok u, b', w') \<Rightarrow> (Ok (), b'\<lparr>tb_pages_used := tb_pages_used b' - 1\<rparr>, w')
      | (r, b', w') \<Rightarrow> (r, b', w'))"

definition tb_store_page ::
  "('s, 'w) tcp_io \<Rightarrow> 's tcp_backend \<Rightarrow> page_handle \<Rightarrow> page \<Rightarrow> 'w \<Rightarrow> unit res \<times> 's tcp_backend \<times> 'w" where
  "tb_store_page io b h d w =
     (case io_now io w of (start, w1) \<Rightarrow>
      (case with_stream io (store_op io h d) b w1 of
         (Ok u, b', w2) \<Rightarrow>
           (case io_now io w2 of (t, w3) \<Rightarrow>
            (Ok (), b'\<lparr>tb_total_store_ns := tb_total_store_ns b' + of_nat (t - start),
                       tb_store_count := tb_store_count b' + 1\<rparr>, w3))
       | (r, b', w2) \<Rightarrow> (r, b', w2)))"

definition tb_load_page ::
  "('s, 'w) tcp_io \<Rightarrow> 's tcp_backend \<Rightarrow> page_handle \<Rightarrow> 'w \<Rightarrow> page res \<times> 's tcp_backend \<times> 'w" where
  "tb_load_page io b h w =
     (case io_now io w of (start, w1) \<Rightarrow>
      (case with_stream io (load_op io h) b w1 of
         (Ok d, b', w2) \<Rightarrow>
           (case io_now io w2 of (t, w3) \<Rightarrow>
            (Ok d, b'\<lparr>tb_total_load_ns := tb_total_load_ns b' + of_nat (t - start),
                      tb_load_count := tb_load_count b' + 1\<rparr>, w3))
       | (r, b', w2) \<Rightarrow> (r, b', w2)))"

definition avg_store_ns :: "'s tcp_backend \<Rightarrow> u64" where
  "avg_store_ns b = (if tb_store_count b = 0 then 0 else tb_total_store_ns b div tb_store_count b)"

definition avg_load_ns :: "'s tcp_backend \<Rightarrow> u64" where
  "avg_load_ns b = (if tb_load_count b = 0 then 0 else tb_total_load_ns b div tb_load_count b)"

definition tb_capacity :: "'s tcp_backend \<Rightarrow> u64 \<times> u64" where
  "tb_capacity b = (tb_max_pages b, tb_pages_used b)"

definition tb_latency_ns :: "'s tcp_backend \<Rightarrow> u64" where
  "tb_latency_ns b = (let avg = avg_load_ns b in if avg > 0 then avg else 250000)"

definition tb_is_healthy :: "'s tcp_backend \<Rightarrow> bool" where
  "tb_is_healthy b \<longleftrightarrow> cs_stream (tb_conn b) \<noteq> None"

definition tb_shutdown :: "'s tcp_backend \<Rightarrow> 'w \<Rightarrow> unit res \<times> 's tcp_backend \<times> 'w" where
  "tb_shutdown b w = (Ok (), b\<lparr>tb_conn := (tb_conn b)\<lparr>cs_stream := None\<rparr>\<rparr>, w)"

definition tb_vt :: "('s, 'w) tcp_io \<Rightarrow> ('s tcp_backend, 'w) backend_vt" where
  "tb_vt io =
     \<lparr>vt_name = tb_name, vt_tier = (\<lambda>_. Rdma), vt_init = tb_init io,
      vt_alloc_page = tb_alloc_page io, vt_free_page = tb_free_page io,
      vt_store_page = tb_store_page io, vt_load_page = tb_load_page io,
      vt_capacity = tb_capacity, vt_latency_ns = tb_latency_ns, vt_is_healthy = tb_is_healthy,
      vt_shutdown = tb_shutdown\<rparr>"

lemma tb_vt_simps [simp]:
  "vt_name (tb_vt io) = tb_name" "vt_tier (tb_vt io) b = Rdma" "vt_init (tb_vt io) = tb_init io"
  "vt_alloc_page (tb_vt io) = tb_alloc_page io" "vt_free_page (tb_vt io) = tb_free_page io"
  "vt_store_page (tb_vt io) = tb_store_page io" "vt_load_page (tb_vt io) = tb_load_page io"
  "vt_capacity (tb_vt io) = tb_capacity" "vt_latency_ns (tb_vt io) = tb_latency_ns"
  "vt_is_healthy (tb_vt io) = tb_is_healthy" "vt_shutdown (tb_vt io) = tb_shutdown"
  by (simp_all add: tb_vt_def)

section \<open>Properties\<close>

lemma try_reconnect_stream:
  "try_reconnect io addr c w = (r, c', w') \<Longrightarrow> cs_stream c = None \<Longrightarrow>
   r \<noteq> Panic \<and> (is_ok r \<longrightarrow> cs_stream c' \<noteq> None \<and> cs_consecutive_failures c' = 0) \<and>
   (\<not> is_ok r \<longrightarrow> cs_stream c' = None)"
  by (auto simp: try_reconnect_def Let_def split: prod.splits if_splits option.splits bool.splits)

text \<open>
  The health of a TCP backend tells how its last call went. After a call that succeeded it is
  healthy and its failure count is zero; after a call that failed, for whatever reason, it is not
  healthy and has no stream, so that nothing is ever read from a stream that failed before.
\<close>

theorem with_stream_health:
  assumes "with_stream io op b w = (r, b', w')"
  shows "(\<forall>v. r = Ok v \<longrightarrow> tb_is_healthy b' \<and> cs_consecutive_failures (tb_conn b') = 0) \<and>
     (\<forall>e. r = Err e \<longrightarrow> \<not> tb_is_healthy b')"
proof (cases "cs_stream (tb_conn b)")
  case None
  obtain r1 c w1 where rc: "try_reconnect io (tb_addr b) (tb_conn b) w = (r1, c, w1)"
    by (cases "try_reconnect io (tb_addr b) (tb_conn b) w") auto
  from try_reconnect_stream [OF rc None] None assms rc show ?thesis
    by (cases r1) (auto simp: with_stream_def tb_is_healthy_def split: res.splits prod.splits)
next
  case (Some s)
  then show ?thesis using assms
    by (auto simp: with_stream_def tb_is_healthy_def split: res.splits prod.splits)
qed

text \<open>A socket layer that refuses every connection, with a clock that stands still.\<close>

definition refusing_io :: "(nat, nat) tcp_io" where
  "refusing_io =
     \<lparr>io_parse = (\<lambda>_. True), io_connect = (\<lambda>_ w. (None, w)), io_set_nodelay = (\<lambda>_ w. (False, w)),
      io_write_all = (\<lambda>_ _ w. (False, w)), io_flush = (\<lambda>_ w. (False, w)),
      io_read_exact = (\<lambda>_ _ w. (None, w)), io_now = (\<lambda>w. (w, w))\<rparr>"

theorem with_stream_health_witness:
  "\<not> tb_is_healthy (fst (snd (with_stream refusing_io (free_op refusing_io (PageHandle 1)) (tb_new 2 ''a'') 0)))"
proof -
  obtain b' w' where "with_stream refusing_io (free_op refusing_io (PageHandle 1)) (tb_new 2 ''a'') 0 =
    (Err ConnectFailed, b', w')"
    by (simp add: with_stream_def try_reconnect_def breaker_open_def refusing_io_def tb_new_def
        MAX_CONSECUTIVE_FAILURES_def)
  from with_stream_health [OF this] this show ?thesis by simp
qed

text \<open>
  The circuit breaker. When a disconnected backend has failed five times or more and its last
  attempt is less than five seconds old, a call fails at once with the number of failures: no
  connection is attempted, the operation does not run, and the backend stays as it was.
\<close>

theorem breaker_blocks:
  assumes "cs_stream (tb_conn b) = None" and "5 \<le> cs_consecutive_failures (tb_conn b)"
    and "cs_last_attempt (tb_conn b) = Some prev" and "io_now io w = (t, w1)"
    and "t - prev < 5 * 1000000000"
  shows "with_stream io op b w = (Err (CircuitOpen (cs_consecutive_failures (tb_conn b))), b, w1)"
  using assms
  by (simp add: with_stream_def try_reconnect_def breaker_open_def MAX_CONSECUTIVE_FAILURES_def BACKOFF_SECS_def)

theorem breaker_blocks_witness:
  "with_stream refusing_io (free_op refusing_io (PageHandle 1))
     ((tb_new 2 ''a'')\<lparr>tb_conn := \<lparr>cs_stream = None, cs_consecutive_failures = 7, cs_last_attempt = Some 3\<rparr>\<rparr>) 9 =
   (Err (CircuitOpen 7),
    (tb_new 2 ''a'')\<lparr>tb_conn := \<lparr>cs_stream = None, cs_consecutive_failures = 7, cs_last_attempt = Some 3\<rparr>\<rparr>, 9)"
  by (subst breaker_blocks [where prev = 3 and t = 9 and ?w1.0 = 9]) (simp_all add: refusing_io_def)

text \<open>
  A failed reconnection counts as a failure, so the breaker does trip: as long as the server
  refuses, each attempt adds one to the count and records its time.
\<close>

theorem refused_attempt_counts:
  assumes "cs_stream (tb_conn b) = None" and "cs_consecutive_failures (tb_conn b) < 5"
    and "io_parse io (tb_addr b)" and "io_now io w = (t, w1)" and "io_connect io (tb_addr b) w1 = (None, w2)"
  shows "with_stream io op b w =
    (Err ConnectFailed,
     b\<lparr>tb_conn := \<lparr>cs_stream = None, cs_consecutive_failures = cs_consecutive_failures (tb_conn b) + 1,
                   cs_last_attempt = Some t\<rparr>\<rparr>, w2)"
proof -
  have "\<not> 5 \<le> cs_consecutive_failures (tb_conn b)" using assms(2) by (simp add: not_le)
  with assms show ?thesis
    by (simp add: with_stream_def try_reconnect_def breaker_open_def MAX_CONSECUTIVE_FAILURES_def)
qed

theorem refused_attempt_counts_witness:
  "cs_consecutive_failures (tb_conn (fst (snd (with_stream refusing_io (free_op refusing_io (PageHandle 1))
     (tb_new 2 ''a'') 0)))) = 1"
  by (subst refused_attempt_counts) (auto simp: refusing_io_def tb_new_def)

end
