(* ===== verification/Network.thy ===== *)
theory Network
  imports Tcp_Backend
begin

text \<open>
  A network for the TCP backend: memory servers at addresses, each the \<open>page_store\<close> of
  \<open>Memserver\<close> behind its request loop, and byte streams to them. Every socket call may break
  the connection, after any number of the bytes written got through; which calls do is
  \<open>net_fate\<close>, a function of the number of the call. A server answers a request as soon as the
  last byte of it arrives. The servers themselves do not restart.
\<close>

section \<open>State\<close>

datatype fate = Fine | Broken nat

record connection =
  cn_addr :: string
  cn_in :: "u8 list"
  cn_out :: "u8 list"
  cn_open :: bool

record net =
  net_servers :: "(string, page_store) hash_map"
  net_conns :: "connection list"
  net_fate :: "nat \<Rightarrow> fate"
  net_step :: nat
  net_tick :: "nat \<Rightarrow> nat"
  net_time :: nat

abbreviation fate_now :: "net \<Rightarrow> fate" where
  "fate_now w \<equiv> net_fate w (net_step w)"

abbreviation next_step :: "net \<Rightarrow> net" where
  "next_step w \<equiv> w\<lparr>net_step := Suc (net_step w)\<rparr>"

definition set_conn :: "nat \<Rightarrow> (connection \<Rightarrow> connection) \<Rightarrow> net \<Rightarrow> net" where
  "set_conn s f w = w\<lparr>net_conns := (net_conns w)[s := f (net_conns w ! s)]\<rparr>"

abbreviation close :: "nat \<Rightarrow> net \<Rightarrow> net" where
  "close s w \<equiv> set_conn s (\<lambda>c. c\<lparr>cn_open := False\<rparr>) w"

text \<open>The server at the other end reads what arrives.\<close>

definition deliver :: "nat \<Rightarrow> u8 list \<Rightarrow> net \<Rightarrow> net" where
  "deliver s bytes w =
     (let c = net_conns w ! s in
      case map_of (net_servers w) (cn_addr c) of
        None \<Rightarrow> w
      | Some ps \<Rightarrow>
          (case handle_client ps (cn_in c @ bytes) of (ps', out, rest) \<Rightarrow>
           set_conn s (\<lambda>c. c\<lparr>cn_in := rest, cn_out := cn_out c @ out\<rparr>)
             (w\<lparr>net_servers := AList.update (cn_addr c) ps' (net_servers w)\<rparr>)))"

section \<open>The socket calls\<close>

definition net_connect :: "string \<Rightarrow> net \<Rightarrow> nat option \<times> net" where
  "net_connect addr w =
     (if fate_now w = Fine \<and> map_of (net_servers w) addr \<noteq> None then
        (Some (length (net_conns w)),
         (next_step w)\<lparr>net_conns :=
            net_conns w @ [\<lparr>cn_addr = addr, cn_in = [], cn_out = [], cn_open = True\<rparr>]\<rparr>)
      else (None, next_step w))"

definition conn_usable :: "nat \<Rightarrow> net \<Rightarrow> bool" where
  "conn_usable s w \<longleftrightarrow> s < length (net_conns w) \<and> cn_open (net_conns w ! s)"

definition net_write_all :: "nat \<Rightarrow> u8 list \<Rightarrow> net \<Rightarrow> bool \<times> net" where
  "net_write_all s bytes w =
     (if \<not> conn_usable s w then (False, next_step w)
      else (case fate_now w of
              Fine \<Rightarrow> (True, deliver s bytes (next_step w))
            | Broken n \<Rightarrow> (False, close s (deliver s (take n bytes) (next_step w)))))"

definition net_poll :: "nat \<Rightarrow> net \<Rightarrow> bool \<times> net" where
  "net_poll s w =
     (if \<not> conn_usable s w then (False, next_step w)
      else (case fate_now w of
              Fine \<Rightarrow> (True, next_step w)
            | Broken n \<Rightarrow> (False, close s (next_step w))))"

definition net_read_exact :: "nat \<Rightarrow> nat \<Rightarrow> net \<Rightarrow> u8 list option \<times> net" where
  "net_read_exact s n w =
     (case net_poll s w of
        (False, w') \<Rightarrow> (None, w')
      | (True, w') \<Rightarrow>
          let out = cn_out (net_conns w' ! s) in
          if length out < n then (None, close s w')
          else (Some (take n out), set_conn s (\<lambda>c. c\<lparr>cn_out := drop n (cn_out c)\<rparr>) w'))"

definition net_now :: "net \<Rightarrow> nat \<times> net" where
  "net_now w = (net_time w, (next_step w)\<lparr>net_time := net_time w + net_tick w (net_step w)\<rparr>)"

definition net_io :: "(string \<Rightarrow> bool) \<Rightarrow> (nat, net) tcp_io" where
  "net_io parse =
     \<lparr>io_parse = parse, io_connect = net_connect, io_set_nodelay = net_poll,
      io_write_all = net_write_all, io_flush = net_poll, io_read_exact = net_read_exact,
      io_now = net_now\<rparr>"

lemma net_io_simps [simp]:
  "io_parse (net_io parse) = parse" "io_connect (net_io parse) = net_connect"
  "io_set_nodelay (net_io parse) = net_poll" "io_write_all (net_io parse) = net_write_all"
  "io_flush (net_io parse) = net_poll" "io_read_exact (net_io parse) = net_read_exact"
  "io_now (net_io parse) = net_now"
  by (simp_all add: net_io_def)

section \<open>What a call leaves alone\<close>

text \<open>
  A call that talks to \<open>addr\<close> changes nothing at the other addresses, and connections keep
  the address they were made to.
\<close>

definition net_frame :: "string \<Rightarrow> net \<Rightarrow> net \<Rightarrow> bool" where
  "net_frame addr w w' \<longleftrightarrow>
     net_fate w' = net_fate w \<and> net_step w \<le> net_step w' \<and>
     (\<forall>a. a \<noteq> addr \<longrightarrow> map_of (net_servers w') a = map_of (net_servers w) a) \<and>
     length (net_conns w) \<le> length (net_conns w') \<and>
     (\<forall>i < length (net_conns w). cn_addr (net_conns w' ! i) = cn_addr (net_conns w ! i) \<and>
        (cn_addr (net_conns w ! i) \<noteq> addr \<longrightarrow> net_conns w' ! i = net_conns w ! i))"

lemma net_frame_refl [simp]: "net_frame addr w w"
  by (simp add: net_frame_def)

lemma net_frame_trans: "net_frame addr w w' \<Longrightarrow> net_frame addr w' w'' \<Longrightarrow> net_frame addr w w''"
  by (auto simp: net_frame_def)

lemma net_frame_step [simp]: "net_frame addr w (next_step w)"
  by (simp add: net_frame_def)

lemma net_frame_now: "net_now w = (t, w') \<Longrightarrow> net_frame addr w w'"
  by (auto simp: net_frame_def net_now_def)

lemma net_frame_set_conn:
  assumes "s < length (net_conns w)" and "cn_addr (net_conns w ! s) = addr"
    and "cn_addr (f (net_conns w ! s)) = addr"
  shows "net_frame addr w (set_conn s f w)"
  using assms by (auto simp: net_frame_def set_conn_def nth_list_update)

lemma net_frame_deliver:
  assumes "s < length (net_conns w)" and "cn_addr (net_conns w ! s) = addr"
  shows "net_frame addr w (deliver s bytes w)"
  using assms
  by (auto simp: net_frame_def deliver_def set_conn_def nth_list_update Let_def
      split: option.split prod.split)

section \<open>One exchange with a server\<close>

text \<open>
  The network goes down for good at some point, late enough for a server to have handed out
  every offset that fits into a handle: \<open>2^56\<close> calls. Offsets therefore do not wrap around.
\<close>

definition net_ok :: "net \<Rightarrow> bool" where
  "net_ok w \<longleftrightarrow> (\<forall>k \<ge> 2 ^ 56. net_fate w k = Broken 0)"

lemma net_ok_frame: "net_frame addr w w' \<Longrightarrow> net_ok w' = net_ok w"
  by (simp add: net_frame_def net_ok_def)

definition at_addr :: "nat \<Rightarrow> string \<Rightarrow> net \<Rightarrow> bool" where
  "at_addr s addr w \<longleftrightarrow> s < length (net_conns w) \<and> cn_addr (net_conns w ! s) = addr"

definition conn_is :: "nat \<Rightarrow> string \<Rightarrow> u8 list \<Rightarrow> u8 list \<Rightarrow> net \<Rightarrow> bool" where
  "conn_is s addr inp out w \<longleftrightarrow> s < length (net_conns w) \<and>
     net_conns w ! s = \<lparr>cn_addr = addr, cn_in = inp, cn_out = out, cn_open = True\<rparr>"

abbreviation server_is :: "string \<Rightarrow> page_store \<Rightarrow> net \<Rightarrow> bool" where
  "server_is addr ps w \<equiv> map_of (net_servers w) addr = Some ps"

lemma conn_is_at: "conn_is s addr inp out w \<Longrightarrow> at_addr s addr w"
  by (simp add: conn_is_def at_addr_def)

lemma conn_is_usable: "conn_is s addr inp out w \<Longrightarrow> conn_usable s w"
  by (simp add: conn_is_def conn_usable_def)

lemma conn_is_step [simp]: "conn_is s addr inp out (next_step w) = conn_is s addr inp out w"
  by (simp add: conn_is_def)

lemma close_law:
  assumes "at_addr s addr w"
  shows "net_frame addr w (close s w)" and "net_servers (close s w) = net_servers w"
  using assms by (auto simp: at_addr_def set_conn_def intro: net_frame_set_conn [unfolded set_conn_def])

lemma at_addr_frame: "net_frame addr w w' \<Longrightarrow> at_addr s a w \<Longrightarrow> at_addr s a w'"
  by (auto simp: net_frame_def at_addr_def)

text \<open>Bytes that make up exactly one request: the server waits for the last of them.\<close>

definition one_request :: "page_store \<Rightarrow> u8 list \<Rightarrow> page_store \<Rightarrow> u8 list \<Rightarrow> bool" where
  "one_request ps req ps' reply \<longleftrightarrow>
     handle_request ps req = Some (ps', reply, []) \<and>
     (\<forall>k < length req. handle_request ps (take k req) = None)"

lemma one_request_whole: "one_request ps req ps' reply \<Longrightarrow> handle_client ps req = (ps', reply, [])"
  by (simp add: one_request_def handle_client.simps [of ps])

lemma one_request_part:
  "one_request ps req ps' reply \<Longrightarrow> k < length req \<Longrightarrow> handle_client ps (take k req) = (ps, [], take k req)"
  by (simp add: one_request_def handle_client.simps [of ps])

lemma deliver_part:
  assumes "one_request ps req ps' reply" and "conn_is s addr (take j req) [] w" and "server_is addr ps w"
    and "take j req @ bytes = take k req" and "k < length req"
  shows "server_is addr ps (deliver s bytes w)" and "conn_is s addr (take k req) [] (deliver s bytes w)"
  using assms one_request_part [OF assms(1,5)]
  by (simp_all add: deliver_def conn_is_def set_conn_def Let_def)

lemma deliver_whole:
  assumes "one_request ps req ps' reply" and "conn_is s addr (take j req) [] w" and "server_is addr ps w"
    and "take j req @ bytes = req"
  shows "server_is addr ps' (deliver s bytes w)" and "conn_is s addr [] reply (deliver s bytes w)"
  using assms one_request_whole [OF assms(1)]
  by (simp_all add: deliver_def conn_is_def set_conn_def Let_def)

lemma deliver_frame: "at_addr s addr w \<Longrightarrow> net_frame addr w (deliver s bytes w)"
  by (simp add: at_addr_def net_frame_deliver)

lemma net_step_deliver [simp]: "net_step (deliver s bytes w) = net_step w"
  by (simp add: deliver_def set_conn_def Let_def split: option.split prod.split)

lemma net_step_set_conn [simp]: "net_step (set_conn s f w) = net_step w"
  by (simp add: set_conn_def)

text \<open>Writing a piece of the request.\<close>

lemma write_piece:
  assumes one: "one_request ps req ps' reply" and ok: "net_ok w"
    and c: "conn_is s addr (take j req) [] w" and sv: "server_is addr ps w"
    and piece: "take j req @ bytes = take k req" "j < length req" "k \<le> length req"
    and run: "net_write_all s bytes w = (g, w')"
  shows "net_frame addr w w'" and "net_step w < net_step w'"
    and "server_is addr ps w' \<or> server_is addr ps' w' \<and> net_step w < 2 ^ 56"
    and "g \<Longrightarrow> if k < length req then server_is addr ps w' \<and> conn_is s addr (take k req) [] w'
                else server_is addr ps' w' \<and> conn_is s addr [] reply w'"
proof -
  let ?w = "next_step w"
  have c1: "conn_is s addr (take j req) [] ?w" and sv1: "server_is addr ps ?w" using c sv by simp_all
  have at: "at_addr s addr ?w" by (rule conn_is_at [OF c1])
  have at2: "at_addr s addr (deliver s bs ?w)" for bs by (rule at_addr_frame [OF deliver_frame [OF at] at])
  have fr: "net_frame addr w (deliver s bs ?w)" for bs
    by (rule net_frame_trans [OF net_frame_step deliver_frame [OF at]])
  have part: "server_is addr ps (deliver s (take n bytes) ?w) \<or>
      take n bytes = bytes \<and> k = length req" for n
  proof (cases "j + n < k")
    case True
    then have eq: "take j req @ take n bytes = take (j + n) req"
      using arg_cong [OF piece(1), of "take (j + n)"] piece(2) by (simp add: min_def split: if_splits)
    then show ?thesis using deliver_part(1) [OF one c1 sv1 eq] True piece(3) by simp
  next
    case False
    have "length bytes = k - j"
      using arg_cong [OF piece(1), of length] piece(2,3) by (auto simp: min_def split: if_splits)
    with False have eq: "take n bytes = bytes" by simp
    then show ?thesis using deliver_part(1) [OF one c1 sv1 piece(1)] piece(3) by (cases "k < length req") auto
  qed
  have whole: "server_is addr ps' (deliver s bytes ?w)" "conn_is s addr [] reply (deliver s bytes ?w)"
    if "k = length req" using deliver_whole [OF one c1 sv1] piece(1) that by simp_all
  have low: "net_step w < 2 ^ 56" if "fate_now w \<noteq> Broken 0"
    using ok that by (auto simp: net_ok_def not_less [symmetric])
  have nil: "server_is addr ps (deliver s (take 0 bytes) ?w)"
    using deliver_part(1) [OF one c1 sv1, of "[]" j] piece(2) by simp
  show "net_frame addr w w'" and "net_step w < net_step w'"
    using run fr close_law(1) [OF at2] conn_is_usable [OF c]
    by (auto simp: net_write_all_def split: fate.splits if_splits intro: net_frame_trans)
  show "g \<Longrightarrow> if k < length req then server_is addr ps w' \<and> conn_is s addr (take k req) [] w'
                else server_is addr ps' w' \<and> conn_is s addr [] reply w'"
    using run whole deliver_part [OF one c1 sv1 piece(1)] piece(3) conn_is_usable [OF c]
    by (auto simp: net_write_all_def split: fate.splits if_splits)
  show "server_is addr ps w' \<or> server_is addr ps' w' \<and> net_step w < 2 ^ 56"
  proof (cases "fate_now w")
    case Fine
    then show ?thesis
      using run whole(1) deliver_part(1) [OF one c1 sv1 piece(1)] piece(3) conn_is_usable [OF c] low
      by (cases "k = length req") (auto simp: net_write_all_def)
  next
    case (Broken n)
    then have "net_servers w' = net_servers (deliver s (take n bytes) ?w)"
      using run conn_is_usable [OF c] close_law(2) [OF at2] by (auto simp: net_write_all_def)
    then show ?thesis
      using part [of n] whole(1) low Broken nil by (cases "n = 0") auto
  qed
qed

abbreviation write_each :: "nat \<Rightarrow> u8 list list \<Rightarrow> bool \<times> net \<Rightarrow> bool \<times> net" where
  "write_each s reqs gw \<equiv>
     fold (\<lambda>req (good, w). if good then net_write_all s req w else (False, w)) reqs gw"

lemma write_each_failed [simp]: "write_each s reqs (False, w) = (False, w)"
  by (induction reqs) simp_all

lemma write_each_law:
  assumes one: "one_request ps req ps' reply" and ok: "net_ok w"
    and c: "conn_is s addr (take j req) [] w" and sv: "server_is addr ps w"
    and j: "j < length req" "drop j req = concat reqs" "[] \<notin> set reqs"
    and run: "write_each s reqs (True, w) = (g, w')"
  shows "net_frame addr w w' \<and> net_step w < net_step w' \<and>
     (server_is addr ps w' \<or> server_is addr ps' w' \<and> net_step w < 2 ^ 56) \<and>
     (g \<longrightarrow> server_is addr ps' w' \<and> conn_is s addr [] reply w' \<and> net_step w < 2 ^ 56)"
  using ok c sv j run
proof (induction reqs arbitrary: w j)
  case Nil
  then show ?case by simp
next
  case (Cons r rs)
  let ?k = "j + length r"
  have k: "take j req @ r = take ?k req" "?k \<le> length req" "drop ?k req = concat rs"
  proof -
    have "r = take (length r) (drop j req)" "concat rs = drop (length r) (drop j req)"
      using Cons.prems(5) by simp_all
    then show "take j req @ r = take ?k req" "drop ?k req = concat rs"
      by (simp_all add: take_add add.commute)
    have "length r \<le> length (drop j req)" using Cons.prems(5) by simp
    then show "?k \<le> length req" using Cons.prems(4) by simp
  qed
  obtain g1 w1 where w1: "net_write_all s r w = (g1, w1)" by (cases "net_write_all s r w")
  note piece = write_piece [OF one Cons.prems(1,2,3) k(1) Cons.prems(4) k(2) w1]
  have low: "net_step w < 2 ^ 56" if g1
  proof (rule ccontr)
    assume "\<not> net_step w < 2 ^ 56"
    then have "fate_now w = Broken 0" using Cons.prems(1) by (simp add: net_ok_def)
    with w1 that show False by (auto simp: net_write_all_def split: if_splits)
  qed
  show ?case
  proof (cases g1)
    case False
    then have "g = False" "w' = w1" using Cons.prems(7) w1 by simp_all
    then show ?thesis using piece(1,2,3) by blast
  next
    case True
    then have run1: "write_each s rs (True, w1) = (g, w')" using Cons.prems(7) w1 by simp
    show ?thesis
    proof (cases "?k < length req")
      case True
      with piece(4) \<open>g1\<close> have "server_is addr ps w1" "conn_is s addr (take ?k req) [] w1" by auto
      from Cons.IH [OF _ this(2,1) True k(3) _ run1] Cons.prems(1,6) net_ok_frame [OF piece(1)]
      have "net_frame addr w1 w' \<and> net_step w1 < net_step w' \<and>
         (server_is addr ps w' \<or> server_is addr ps' w' \<and> net_step w1 < 2 ^ 56) \<and>
         (g \<longrightarrow> server_is addr ps' w' \<and> conn_is s addr [] reply w' \<and> net_step w1 < 2 ^ 56)"
        by simp
      then show ?thesis using piece(1,2) net_frame_trans by (meson order.strict_trans)
    next
      case False
      then have "concat rs = []" using k(3) by simp
      then have "rs = []" using Cons.prems(6) by (cases rs) auto
      then show ?thesis using run1 piece \<open>g1\<close> False low by auto
    qed
  qed
qed

lemma net_poll_law:
  assumes "at_addr s addr w" and "net_poll s w = (g, w')"
  shows "net_frame addr w w'" and "net_servers w' = net_servers w" and "net_step w \<le> net_step w'"
    and "g \<Longrightarrow> w' = next_step w"
proof -
  have "at_addr s addr (next_step w)" using assms(1) by (simp add: at_addr_def)
  from close_law [OF this] show "net_frame addr w w'" "net_servers w' = net_servers w"
    using assms(2) net_frame_trans [OF net_frame_step]
    by (auto simp: net_poll_def split: fate.splits if_splits)
  show "net_step w \<le> net_step w'" "g \<Longrightarrow> w' = next_step w"
    using assms(2) by (auto simp: net_poll_def split: fate.splits if_splits)
qed

lemma net_read_law:
  assumes "conn_is s addr [] out w" and "n \<le> length out" and "net_read_exact s n w = (r, w')"
  shows "net_frame addr w w'" and "net_servers w' = net_servers w"
    and "r = None \<or> r = Some (take n out) \<and> conn_is s addr [] (drop n out) w'"
proof -
  obtain g w1 where w1: "net_poll s w = (g, w1)" by (cases "net_poll s w")
  note poll = net_poll_law [OF conn_is_at [OF assms(1)] w1]
  have at: "at_addr s addr w1" by (rule at_addr_frame [OF poll(1) conn_is_at [OF assms(1)]])
  show "net_servers w' = net_servers w"
    using assms(3) w1 poll(2) close_law(2) [OF at]
    by (auto simp: net_read_exact_def set_conn_def Let_def split: if_splits bool.splits)
  have "net_frame addr w1 (set_conn s (\<lambda>c. c\<lparr>cn_out := drop n (cn_out c)\<rparr>) w1)"
    using at by (intro net_frame_set_conn) (simp_all add: at_addr_def)
  then show "net_frame addr w w'"
    using assms(3) w1 poll(1) close_law(1) [OF at]
    by (auto simp: net_read_exact_def Let_def split: if_splits bool.splits intro: net_frame_trans)
  show "r = None \<or> r = Some (take n out) \<and> conn_is s addr [] (drop n out) w'"
    using assms w1 poll(4)
    by (auto simp: net_read_exact_def conn_is_def set_conn_def Let_def split: if_splits bool.splits)
qed

text \<open>
  The whole exchange on an idle connection: the server has handled the request or not, and
  when the reply arrives it has.
\<close>

lemma exchange_law:
  assumes one: "one_request ps (concat reqs) ps' reply" and ok: "net_ok w"
    and c: "conn_is s addr [] [] w" and sv: "server_is addr ps w"
    and reqs: "[] \<notin> set reqs" "reqs \<noteq> []" and n: "n \<le> length reply"
    and run: "exchange (net_io parse) reqs n s w = (r, w')"
  shows "net_frame addr w w'" and "net_step w < net_step w'"
    and "server_is addr ps w' \<or> server_is addr ps' w' \<and> net_step w < 2 ^ 56"
    and "r = Err IoFailed \<or>
      r = Ok (take n reply) \<and> server_is addr ps' w' \<and> conn_is s addr [] (drop n reply) w' \<and>
        net_step w < 2 ^ 56"
proof -
  note exchange_net = run [unfolded exchange_def net_io_simps]
  have "concat reqs \<noteq> []" using reqs by (cases reqs) auto
  obtain g w1 where w1: "write_each s reqs (True, w) = (g, w1)" by (cases "write_each s reqs (True, w)")
  have wr: "net_frame addr w w1" "net_step w < net_step w1"
    "server_is addr ps w1 \<or> server_is addr ps' w1 \<and> net_step w < 2 ^ 56"
    "g \<Longrightarrow> server_is addr ps' w1 \<and> conn_is s addr [] reply w1 \<and> net_step w < 2 ^ 56"
    using write_each_law [OF one ok _ sv, of s 0 reqs g w1] c reqs(1) w1 \<open>concat reqs \<noteq> []\<close> by auto
  have "net_frame addr w w' \<and> net_step w < net_step w' \<and>
    (server_is addr ps w' \<or> server_is addr ps' w' \<and> net_step w < 2 ^ 56) \<and>
    (r = Err IoFailed \<or>
      r = Ok (take n reply) \<and> server_is addr ps' w' \<and> conn_is s addr [] (drop n reply) w' \<and>
        net_step w < 2 ^ 56)"
  proof (cases g)
    case False
    then show ?thesis using exchange_net w1 wr(1-3) by auto
  next
    case True
    note wr4 = wr(4) [OF True]
    obtain g2 w2 where w2: "net_poll s w1 = (g2, w2)" by (cases "net_poll s w1")
    have "at_addr s addr w1" using wr4 conn_is_at by blast
    note poll = net_poll_law [OF this w2]
    show ?thesis
    proof (cases g2)
      case False
      then show ?thesis
        using exchange_net w1 wr(1,2) wr4 w2 poll(1-3) True net_frame_trans by auto
    next
      case g2: True
      obtain x w3 where w3: "net_read_exact s n w2 = (x, w3)" by (cases "net_read_exact s n w2")
      have c2: "conn_is s addr [] reply w2" using wr4 poll(4) [OF g2] by simp
      note rd = net_read_law [OF c2 n w3]
      have "net_step w2 \<le> net_step w3" using rd(1) by (simp add: net_frame_def)
      moreover have "net_frame addr w w3" using wr(1) poll(1) rd(1) net_frame_trans by blast
      moreover have "w' = w3" "r = (case x of None \<Rightarrow> Err IoFailed | Some y \<Rightarrow> Ok y)"
        using exchange_net w1 True w2 g2 w3 by (auto split: option.splits)
      ultimately show ?thesis
        using wr(2) wr4 poll(2,3) rd(2,3) by auto
    qed
  qed
  then show "net_frame addr w w'" and "net_step w < net_step w'"
    and "server_is addr ps w' \<or> server_is addr ps' w' \<and> net_step w < 2 ^ 56"
    and "r = Err IoFailed \<or>
      r = Ok (take n reply) \<and> server_is addr ps' w' \<and> conn_is s addr [] (drop n reply) w' \<and>
        net_step w < 2 ^ 56"
    by blast+
qed

section \<open>A network that works\<close>

text \<open>The next \<open>n\<close> calls go through.\<close>

definition fine_for :: "nat \<Rightarrow> net \<Rightarrow> bool" where
  "fine_for n w \<longleftrightarrow> (\<forall>k < n. net_fate w (net_step w + k) = Fine)"

lemma fine_now: "fine_for (Suc n) w \<Longrightarrow> fate_now w = Fine"
  by (auto simp: fine_for_def)

lemma fine_later:
  assumes "fine_for n w" and "net_fate w' = net_fate w" and "net_step w' = net_step w + k" and "k + m \<le> n"
  shows "fine_for m w'"
  unfolding fine_for_def
proof (intro allI impI)
  fix j assume "j < m"
  with assms(1,4) have "net_fate w (net_step w + (k + j)) = Fine" unfolding fine_for_def by (metis add_less_cancel_left order.strict_trans2)
  with assms(2,3) show "net_fate w' (net_step w' + j) = Fine" by (simp add: add.assoc)
qed

lemma net_fate_deliver [simp]: "net_fate (deliver s bytes w) = net_fate w"
  by (simp add: deliver_def set_conn_def Let_def split: option.split prod.split)

lemma net_fate_set_conn [simp]: "net_fate (set_conn s f w) = net_fate w"
  by (simp add: set_conn_def)

lemma write_fine:
  assumes "fine_for (Suc n) w" and "conn_usable s w"
  shows "net_write_all s bytes w = (True, deliver s bytes (next_step w))"
  using assms fine_now [OF assms(1)] by (simp add: net_write_all_def)

lemma write_each_fine:
  assumes one: "one_request ps req ps' reply" and ok: "net_ok w"
    and c: "conn_is s addr (take j req) [] w" and sv: "server_is addr ps w"
    and j: "j < length req" "drop j req = concat reqs" "[] \<notin> set reqs" and f: "fine_for (length reqs + n) w"
  shows "\<exists>w'. write_each s reqs (True, w) = (True, w') \<and> conn_is s addr [] reply w' \<and>
     server_is addr ps' w' \<and> net_fate w' = net_fate w \<and> net_step w' = net_step w + length reqs"
  using ok c sv j f
proof (induction reqs arbitrary: w j)
  case Nil
  then show ?case by simp
next
  case (Cons r rs)
  let ?k = "j + length r" and ?w = "deliver s r (next_step w)"
  have k: "take j req @ r = take ?k req" "?k \<le> length req" "drop ?k req = concat rs"
  proof -
    have "r = take (length r) (drop j req)" "concat rs = drop (length r) (drop j req)"
      using Cons.prems(5) by simp_all
    then show "take j req @ r = take ?k req" "drop ?k req = concat rs"
      by (simp_all add: take_add add.commute)
    have "length r \<le> length (drop j req)" using Cons.prems(5) by simp
    then show "?k \<le> length req" using Cons.prems(4) by simp
  qed
  have w1: "net_write_all s r w = (True, ?w)"
    using write_fine [OF _ conn_is_usable [OF Cons.prems(2)]] Cons.prems(7) by simp
  note piece = write_piece [OF one Cons.prems(1,2,3) k(1) Cons.prems(4) k(2) w1]
  show ?case
  proof (cases "?k < length req")
    case True
    with piece(4) have "server_is addr ps ?w" "conn_is s addr (take ?k req) [] ?w" by simp_all
    moreover have "fine_for (length rs + n) ?w"
      using Cons.prems(7) by (rule fine_later [where k = 1]) simp_all
    ultimately show ?thesis
      using Cons.IH [OF _ _ _ True k(3), of ?w] Cons.prems(1,6) net_ok_frame [OF piece(1)] w1 by auto
  next
    case False
    then have "concat rs = []" using k(3) by simp
    then have "rs = []" using Cons.prems(6) by (cases rs) auto
    then show ?thesis using w1 piece(4) False by simp
  qed
qed

lemma poll_fine: "fine_for (Suc n) w \<Longrightarrow> conn_usable s w \<Longrightarrow> net_poll s w = (True, next_step w)"
  using fine_now by (simp add: net_poll_def)

lemma read_fine:
  assumes "fine_for (Suc m) w" and "conn_is s addr [] out w" and "n \<le> length out"
  shows "\<exists>w'. net_read_exact s n w = (Some (take n out), w') \<and> conn_is s addr [] (drop n out) w' \<and>
     net_servers w' = net_servers w \<and> net_fate w' = net_fate w \<and> net_step w' = Suc (net_step w)"
  using assms poll_fine [OF assms(1) conn_is_usable [OF assms(2)]]
  by (auto simp: net_read_exact_def conn_is_def set_conn_def Let_def)

text \<open>On a working network the exchange succeeds.\<close>

lemma exchange_fine:
  assumes one: "one_request ps (concat reqs) ps' reply" and ok: "net_ok w"
    and c: "conn_is s addr [] [] w" and sv: "server_is addr ps w"
    and reqs: "[] \<notin> set reqs" "reqs \<noteq> []" and n: "n \<le> length reply"
    and f: "fine_for (length reqs + 2 + m) w"
  shows "\<exists>w'. exchange (net_io parse) reqs n s w = (Ok (take n reply), w') \<and>
     conn_is s addr [] (drop n reply) w' \<and> server_is addr ps' w' \<and>
     net_fate w' = net_fate w \<and> net_step w' = net_step w + (length reqs + 2)"
proof -
  have "concat reqs \<noteq> []" using reqs by (cases reqs) auto
  then obtain w1 where w1: "write_each s reqs (True, w) = (True, w1)" "conn_is s addr [] reply w1"
    "server_is addr ps' w1" "net_fate w1 = net_fate w" "net_step w1 = net_step w + length reqs"
    using write_each_fine [OF one ok _ sv, of s 0 reqs "2 + m"] c reqs(1) f by (auto simp: add.assoc)
  have f1: "fine_for (Suc (Suc m)) w1" by (rule fine_later [OF f w1(4,5)]) simp
  have p: "net_poll s w1 = (True, next_step w1)" by (rule poll_fine [OF f1 conn_is_usable [OF w1(2)]])
  have f2: "fine_for (Suc m) (next_step w1)" using f1 by (rule fine_later [where k = 1]) simp_all
  from read_fine [OF f2 _ n, of s addr] w1(2) obtain w3 where
    r: "net_read_exact s n (next_step w1) = (Some (take n reply), w3)" "conn_is s addr [] (drop n reply) w3"
    "net_servers w3 = net_servers w1" "net_fate w3 = net_fate w1" "net_step w3 = Suc (Suc (net_step w1))"
    by auto
  then show ?thesis
    unfolding exchange_def net_io_simps using w1 p by auto
qed

end
