(* ===== verification/Tcp_Contract.thy ===== *)
theory Tcp_Contract
  imports Network
begin

text \<open>
  The TCP backend keeps the backend contract over the network of \<open>Network\<close>, whichever calls
  fail: its store is the page map of the server it is configured for, and a failed call may
  have reached the server or not. Backends for different addresses are apart.
\<close>

section \<open>Invariant\<close>

definition ps_good :: "page_store \<Rightarrow> bool" where
  "ps_good ps \<longleftrightarrow> hm_ok (ps_pages ps) \<and>
     (\<forall>x d. map_of (ps_pages ps) x = Some d \<longrightarrow> x < ps_next_offset ps \<and> is_page d)"

text \<open>A connection is idle when nothing is under way on it, or it is closed.\<close>

definition idle :: "nat \<Rightarrow> string \<Rightarrow> net \<Rightarrow> bool" where
  "idle s addr w \<longleftrightarrow> at_addr s addr w \<and> (cn_open (net_conns w ! s) \<longrightarrow> conn_is s addr [] [] w)"

definition server_ok :: "string \<Rightarrow> page_store \<Rightarrow> net \<Rightarrow> bool" where
  "server_ok addr ps w \<longleftrightarrow>
     net_ok w \<and> server_is addr ps w \<and> ps_good ps \<and> unat (ps_next_offset ps) \<le> net_step w"

definition tb_inv :: "nat tcp_backend \<Rightarrow> net \<Rightarrow> bool" where
  "tb_inv b w \<longleftrightarrow> (\<exists>ps. server_ok (tb_addr b) ps w) \<and>
     (\<forall>s. cs_stream (tb_conn b) = Some s \<longrightarrow> idle s (tb_addr b) w)"

definition tb_contents :: "nat tcp_backend \<Rightarrow> net \<Rightarrow> u64 \<rightharpoonup> page" where
  "tb_contents b w x =
     (case map_of (net_servers w) (tb_addr b) of None \<Rightarrow> None | Some ps \<Rightarrow> map_of (ps_pages ps) x)"

definition tb_issued :: "nat tcp_backend \<Rightarrow> net \<Rightarrow> u64 \<Rightarrow> bool" where
  "tb_issued b w x \<longleftrightarrow>
     (case map_of (net_servers w) (tb_addr b) of None \<Rightarrow> False | Some ps \<Rightarrow> x < ps_next_offset ps)"

definition tb_apart :: "nat tcp_backend \<Rightarrow> nat tcp_backend \<Rightarrow> bool" where
  "tb_apart b c \<longleftrightarrow> tb_addr b \<noteq> tb_addr c"

lemma idle_frame: "net_frame addr w w' \<Longrightarrow> a \<noteq> addr \<Longrightarrow> idle s a w \<Longrightarrow> idle s a w'"
  by (auto simp: net_frame_def idle_def at_addr_def conn_is_def)

lemma server_ok_frame:
  "net_frame addr w w' \<Longrightarrow> a \<noteq> addr \<Longrightarrow> server_ok a ps w \<Longrightarrow> server_ok a ps w'"
  unfolding server_ok_def using net_ok_frame [of addr w w'] by (auto simp: net_frame_def)

text \<open>What a call to one address leaves of a backend for another.\<close>

lemma tb_frame:
  assumes "net_frame addr w w'" and "tb_addr c \<noteq> addr"
  shows "tb_inv c w \<Longrightarrow> tb_inv c w'" and "tb_contents c w' = tb_contents c w"
  using assms idle_frame [OF assms] server_ok_frame [OF assms]
  by (auto simp: tb_inv_def tb_contents_def net_frame_def fun_eq_iff)

lemma frame_server_ok:
  "net_frame addr w w' \<Longrightarrow> net_servers w' = net_servers w \<Longrightarrow> server_ok addr ps w \<Longrightarrow> server_ok addr ps w'"
  unfolding server_ok_def using net_ok_frame [of addr w w'] by (auto simp: net_frame_def)

section \<open>Connection handling\<close>

lemma net_connect_law:
  assumes "net_connect addr w = (r, w')"
  shows "net_frame addr w w'" and "net_servers w' = net_servers w"
    and "r = Some s \<Longrightarrow> conn_is s addr [] [] w'"
  using assms
  by (auto simp: net_connect_def net_frame_def conn_is_def nth_append split: if_splits)

lemma net_now_law:
  assumes "net_now w = (t, w')"
  shows "net_frame addr w w'" and "net_servers w' = net_servers w" and "net_conns w' = net_conns w"
  using assms by (auto simp: net_now_def net_frame_def)

lemma breaker_open_law:
  assumes "breaker_open (net_io parse) c w = (g, w')"
  shows "net_frame addr w w'" and "net_servers w' = net_servers w" and "net_conns w' = net_conns w"
  using assms by (auto simp: breaker_open_def net_now_def net_frame_def split: if_splits option.splits)

lemma try_reconnect_law:
  assumes run: "try_reconnect (net_io parse) addr c w = (r, c', w')" and none: "cs_stream c = None"
  shows "net_frame addr w w'" and "net_servers w' = net_servers w" and "r \<noteq> Panic"
    and "is_ok r \<Longrightarrow> \<exists>s. cs_stream c' = Some s \<and> conn_is s addr [] [] w'"
    and "\<not> is_ok r \<Longrightarrow> cs_stream c' = None"
proof -
  obtain g w1 where b: "breaker_open (net_io parse) c w = (g, w1)" by (cases "breaker_open (net_io parse) c w")
  obtain t w2 where n: "net_now w1 = (t, w2)" by (cases "net_now w1")
  obtain x w3 where x: "net_connect addr w2 = (x, w3)" by (cases "net_connect addr w2")
  note B = breaker_open_law [OF b] and N = net_now_law [OF n] and X = net_connect_law [OF x]
  have F3: "net_frame addr w w3" "net_frame addr w w2" using B(1) N(1) X(1) net_frame_trans by blast+
  have "net_frame addr w w' \<and> net_servers w' = net_servers w \<and> r \<noteq> Panic \<and>
    (is_ok r \<longrightarrow> (\<exists>s. cs_stream c' = Some s \<and> conn_is s addr [] [] w')) \<and> (\<not> is_ok r \<longrightarrow> cs_stream c' = None)"
  proof (cases x)
    case None
    then show ?thesis
      using run b n x B N X F3 none by (auto simp: try_reconnect_def Let_def split: if_splits)
  next
    case (Some s)
    obtain y w4 where y: "net_poll s w3 = (y, w4)" by (cases "net_poll s w3")
    note P = net_poll_law [OF conn_is_at [OF X(3) [OF Some]] y]
    have "net_frame addr w w4" using F3 P(1) net_frame_trans by blast
    moreover have "conn_is s addr [] [] w4" if y using X(3) [OF Some] P(4) [OF that] by simp
    ultimately show ?thesis
      using run b n x y Some B N X F3 P none
      by (cases y) (auto simp: try_reconnect_def Let_def split: if_splits)
  qed
  then show "net_frame addr w w'" and "net_servers w' = net_servers w" and "r \<noteq> Panic"
    and "is_ok r \<Longrightarrow> \<exists>s. cs_stream c' = Some s \<and> conn_is s addr [] [] w'"
    and "\<not> is_ok r \<Longrightarrow> cs_stream c' = None"
    by blast+
qed

text \<open>
  What an operation on a stream does to the server, if its store satisfies \<open>Q\<close> before:
  \<open>P ps r ps'\<close> relates the store before, the result, and the store after.
\<close>

definition op_law ::
  "string \<Rightarrow> (page_store \<Rightarrow> bool) \<Rightarrow> (page_store \<Rightarrow> 'a res \<Rightarrow> page_store \<Rightarrow> bool) \<Rightarrow>
   (nat \<Rightarrow> net \<Rightarrow> 'a res \<times> net) \<Rightarrow> bool" where
  "op_law addr Q P op \<longleftrightarrow>
     (\<forall>s ps w r w'. server_ok addr ps w \<longrightarrow> Q ps \<longrightarrow> idle s addr w \<longrightarrow> op s w = (r, w') \<longrightarrow>
        net_frame addr w w' \<and> r \<noteq> Panic \<and> (is_ok r \<longrightarrow> idle s addr w') \<and>
        (\<exists>ps'. server_ok addr ps' w' \<and> P ps r ps'))"

lemma op_lawD:
  assumes "op_law addr Q P op" and "server_ok addr ps w" and "Q ps" and "idle s addr w" and "op s w = (r, w')"
  shows "net_frame addr w w'" and "r \<noteq> Panic" and "is_ok r \<Longrightarrow> idle s addr w'"
    and "\<exists>ps'. server_ok addr ps' w' \<and> P ps r ps'"
  using assms unfolding op_law_def by blast+

lemma with_stream_law:
  assumes op: "op_law (tb_addr b) Q P op" and fails: "\<And>e. P ps (Err e) ps"
    and inv: "tb_inv b w" and sv: "server_ok (tb_addr b) ps w" and Q: "Q ps"
    and run: "with_stream (net_io parse) op b w = (r, b', w')"
  shows "net_frame (tb_addr b) w w' \<and> tb_inv b' w' \<and> r \<noteq> Panic \<and> (\<exists>c. b' = b\<lparr>tb_conn := c\<rparr>) \<and>
     (\<exists>ps'. server_ok (tb_addr b) ps' w' \<and> P ps r ps')"
proof -
  obtain r1 c w1 where rc: "(if cs_stream (tb_conn b) = None then try_reconnect (net_io parse) (tb_addr b) (tb_conn b) w
      else (Ok (), tb_conn b, w)) = (r1, c, w1)"
    by (cases "if cs_stream (tb_conn b) = None then try_reconnect (net_io parse) (tb_addr b) (tb_conn b) w
      else (Ok (), tb_conn b, w)") auto
  have R: "net_frame (tb_addr b) w w1" "net_servers w1 = net_servers w" "r1 \<noteq> Panic"
    "is_ok r1 \<Longrightarrow> \<exists>s. cs_stream c = Some s \<and> idle s (tb_addr b) w1" "\<not> is_ok r1 \<Longrightarrow> cs_stream c = None"
    using rc inv try_reconnect_law [of parse "tb_addr b" "tb_conn b" w r1 c w1]
    by (auto simp: tb_inv_def idle_def dest: conn_is_at split: if_splits)
  have sv1: "server_ok (tb_addr b) ps w1" by (rule frame_server_ok [OF R(1,2) sv])
  show ?thesis
  proof (cases r1)
    case (Err e)
    then show ?thesis
      using run rc R sv1 fails by (auto simp: with_stream_def tb_inv_def)
  next
    case (Ok u)
    with R(4) obtain s where s: "cs_stream c = Some s" "idle s (tb_addr b) w1" by auto
    obtain r2 w2 where o: "op s w1 = (r2, w2)" by (cases "op s w1")
    note O = op_lawD [OF op sv1 Q s(2) o]
    from O(4) obtain ps' where ps': "server_ok (tb_addr b) ps' w2" "P ps r2 ps'" by blast
    have "net_frame (tb_addr b) w w2" using R(1) O(1) net_frame_trans by blast
    then show ?thesis
      using run rc Ok s(1) o O(2,3) ps' by (cases r2) (auto simp: with_stream_def tb_inv_def s(1))
  qed (use R(3) in simp)
qed

section \<open>The four requests\<close>

lemma one_alloc:
  "one_request ps [OP_ALLOC] (snd (alloc_offset ps))
     (if ps_used ps \<ge> ps_max_pages ps then RESP_ERR # replicate 8 0
      else RESP_OK # to_le_bytes (ps_next_offset ps))"
  by (simp add: one_request_def handle_alloc alloc_offset_def)

lemma one_requestI:
  assumes "handle_request ps (op # xs) = Some (ps', reply, [])"
    and "\<And>ys. length ys < length xs \<Longrightarrow> handle_request ps (op # ys) = None"
  shows "one_request ps (op # xs) ps' reply"
  unfolding one_request_def
proof (intro conjI allI impI)
  fix k assume k: "k < length (op # xs)"
  show "handle_request ps (take k (op # xs)) = None"
  proof (cases k)
    case (Suc j)
    then show ?thesis using k assms(2) [of "take j xs"] by simp
  qed simp
qed (rule assms(1))

lemma handle_short:
  "length ys < 8 \<Longrightarrow> handle_request ps (OP_FREE # ys) = None"
  "length ys < 8 \<Longrightarrow> handle_request ps (OP_LOAD # ys) = None"
  "length ys < 8 + PAGE_SIZE \<Longrightarrow> handle_request ps (OP_STORE # ys) = None"
  by (auto simp: handle_request_def wire_consts Let_def)

lemma one_free:
  "one_request ps (OP_FREE # to_le_bytes x) (snd (ps_free ps x))
     [if fst (ps_free ps x) then RESP_OK else RESP_ERR]"
  by (rule one_requestI) (use handle_free [of ps x "[]"] handle_short(1) in \<open>auto split: prod.splits\<close>)

lemma one_load:
  "one_request ps (OP_LOAD # to_le_bytes x) ps
     (case ps_load ps x of Some d \<Rightarrow> RESP_OK # d | None \<Rightarrow> [RESP_ERR])"
  by (rule one_requestI) (use handle_load [of ps x "[]"] handle_short(2) in \<open>auto split: option.splits\<close>)

lemma one_store:
  assumes "is_page d"
  shows "one_request ps (OP_STORE # to_le_bytes x @ d) (snd (ps_store ps x d))
     [if fst (ps_store ps x d) then RESP_OK else RESP_ERR]"
proof (rule one_requestI)
  show "handle_request ps (OP_STORE # to_le_bytes x @ d) =
    Some (snd (ps_store ps x d), [if fst (ps_store ps x d) then RESP_OK else RESP_ERR], [])"
    using handle_store [OF assms, of ps x "[]"] by (simp split: prod.splits)
  show "handle_request ps (OP_STORE # ys) = None" if "length ys < length (to_le_bytes x @ d)" for ys
    using that assms by (intro handle_short(3)) (simp add: is_page_def)
qed

lemma exchange_idle:
  assumes one: "one_request ps (concat reqs) ps' reply" and ok: "net_ok w"
    and i: "idle s addr w" and sv: "server_is addr ps w"
    and reqs: "[] \<notin> set reqs" "reqs \<noteq> []" and n: "n \<le> length reply"
    and run: "exchange (net_io parse) reqs n s w = (r, w')"
  shows "net_frame addr w w' \<and> net_step w < net_step w' \<and>
    (server_is addr ps w' \<or> server_is addr ps' w' \<and> net_step w < 2 ^ 56) \<and>
    (r = Err IoFailed \<or>
      r = Ok (take n reply) \<and> server_is addr ps' w' \<and> conn_is s addr [] (drop n reply) w' \<and>
        net_step w < 2 ^ 56)"
proof (cases "cn_open (net_conns w ! s)")
  case True
  with i have "conn_is s addr [] [] w" by (simp add: idle_def)
  from exchange_law [OF one ok this sv reqs n run] show ?thesis by blast
next
  case False
  then have "net_write_all s bs w = (False, next_step w)" for bs
    by (simp add: net_write_all_def conn_usable_def)
  then have "write_each s reqs (True, w) = (False, next_step w)" using reqs(2) by (cases reqs) simp_all
  then have "r = Err IoFailed" "w' = next_step w"
    using run [unfolded exchange_def net_io_simps] by simp_all
  with sv show ?thesis by simp
qed

lemma idleI: "conn_is s addr [] [] w \<Longrightarrow> idle s addr w"
  by (simp add: idle_def conn_is_at)

definition alloc_post :: "u8 \<Rightarrow> page_store \<Rightarrow> page_handle res \<Rightarrow> page_store \<Rightarrow> bool" where
  "alloc_post i ps r ps' \<longleftrightarrow>
     ps_pages ps' = ps_pages ps \<and> ps_next_offset ps \<le> ps_next_offset ps' \<and>
     (\<forall>h. r = Ok h \<longrightarrow> ph_backend_id h = i \<and> ph_offset h = ps_next_offset ps \<and>
        ps_next_offset ps < ps_next_offset ps')"

definition free_post :: "u64 \<Rightarrow> page_store \<Rightarrow> unit res \<Rightarrow> page_store \<Rightarrow> bool" where
  "free_post x ps r ps' \<longleftrightarrow>
     ps_next_offset ps' = ps_next_offset ps \<and>
     (\<forall>y. y \<noteq> x \<longrightarrow> map_of (ps_pages ps') y = map_of (ps_pages ps) y) \<and>
     (is_ok r \<longrightarrow> map_of (ps_pages ps') x = None)"

definition store_post :: "u64 \<Rightarrow> page \<Rightarrow> page_store \<Rightarrow> unit res \<Rightarrow> page_store \<Rightarrow> bool" where
  "store_post x d ps r ps' \<longleftrightarrow>
     ps_next_offset ps' = ps_next_offset ps \<and>
     (\<forall>y. y \<noteq> x \<longrightarrow> map_of (ps_pages ps') y = map_of (ps_pages ps) y) \<and>
     (is_ok r \<longrightarrow> map_of (ps_pages ps') x = Some d)"

definition load_post :: "u64 \<Rightarrow> page_store \<Rightarrow> page res \<Rightarrow> page_store \<Rightarrow> bool" where
  "load_post x ps r ps' \<longleftrightarrow>
     ps' = ps \<and> (\<forall>d. r = Ok d \<longrightarrow> map_of (ps_pages ps) x = Some d)"

lemma alloc_good:
  assumes "server_ok addr ps w" and "net_step w < 2 ^ 56"
  shows "ps_good (snd (alloc_offset ps))"
    and "unat (ps_next_offset (snd (alloc_offset ps))) \<le> Suc (unat (ps_next_offset ps))"
    and "ps_next_offset ps \<le> ps_next_offset (snd (alloc_offset ps))"
    and "ps_next_offset ps < ps_next_offset ps + 1"
    and "ps_next_offset ps < push_bit 56 1"
proof -
  have low: "unat (ps_next_offset ps) < 2 ^ 56" using assms by (simp add: server_ok_def)
  then show "ps_next_offset ps < push_bit 56 1" by (simp add: word_less_nat_alt)
  then have inc: "unat (ps_next_offset ps + 1) = Suc (unat (ps_next_offset ps))" by (rule unat_inc)
  then show lt: "ps_next_offset ps < ps_next_offset ps + 1" by (simp add: word_less_nat_alt)
  have "ps_good ps" using assms(1) by (simp add: server_ok_def)
  then show "ps_good (snd (alloc_offset ps))"
    using lt by (auto simp: ps_good_def alloc_offset_def intro: order.strict_trans)
  show "unat (ps_next_offset (snd (alloc_offset ps))) \<le> Suc (unat (ps_next_offset ps))"
    "ps_next_offset ps \<le> ps_next_offset (snd (alloc_offset ps))"
    using inc lt less_imp_le [OF lt] by (auto simp: alloc_offset_def)
qed

lemma alloc_op_law: "op_law addr (\<lambda>_. True) (alloc_post i) (alloc_op (net_io parse) i)"
  unfolding op_law_def
proof (intro allI impI)
  fix s ps w r w'
  assume sv: "server_ok addr ps w" and i: "idle s addr w" and run: "alloc_op (net_io parse) i s w = (r, w')"
  let ?ps = "snd (alloc_offset ps)"
  let ?reply = "if ps_used ps \<ge> ps_max_pages ps then RESP_ERR # replicate 8 0
      else RESP_OK # to_le_bytes (ps_next_offset ps)"
  obtain r1 w1 where x: "exchange (net_io parse) [[OP_ALLOC]] 9 s w = (r1, w1)"
    by (cases "exchange (net_io parse) [[OP_ALLOC]] 9 s w")
  have ok: "net_ok w" "server_is addr ps w" using sv by (simp_all add: server_ok_def)
  have E: "net_frame addr w w1" "net_step w < net_step w1"
    "server_is addr ps w1 \<or> server_is addr ?ps w1 \<and> net_step w < 2 ^ 56"
    "r1 = Err IoFailed \<or> r1 = Ok ?reply \<and> server_is addr ?ps w1 \<and> conn_is s addr [] [] w1 \<and> net_step w < 2 ^ 56"
    using exchange_idle [OF _ ok(1) i ok(2) _ _ _ x, of ?ps ?reply] one_alloc [of ps] by (auto split: if_splits)
  have "net_ok w1" using ok(1) net_ok_frame [OF E(1)] by simp
  then have new: "server_ok addr ?ps w1" if "server_is addr ?ps w1" "net_step w < 2 ^ 56"
    using that alloc_good [OF sv that(2)] E(2) sv by (simp add: server_ok_def)
  have old: "server_ok addr ps w1" if "server_is addr ps w1"
    using that \<open>net_ok w1\<close> E(2) sv by (simp add: server_ok_def)
  show "net_frame addr w w' \<and> r \<noteq> Panic \<and> (is_ok r \<longrightarrow> idle s addr w') \<and>
        (\<exists>ps'. server_ok addr ps' w' \<and> alloc_post i ps r ps')"
  proof (cases "is_ok r1")
    case False
    with E(4) have "r1 = Err IoFailed" by auto
    then have "r = Err IoFailed" "w' = w1" using run x by (auto simp: alloc_op_def)
    moreover have "\<exists>ps'. server_ok addr ps' w1 \<and> alloc_post i ps (Err IoFailed) ps'"
      using E(3) old new alloc_good(3) [OF sv] by (auto simp: alloc_post_def alloc_offset_def)
    ultimately show ?thesis using E(1) by simp
  next
    case True
    with E(4) have r1: "r1 = Ok ?reply" "server_is addr ?ps w1" "conn_is s addr [] [] w1" "net_step w < 2 ^ 56"
      by auto
    note G = alloc_good [OF sv r1(4)]
    obtain h where h: "ph_new i (ps_next_offset ps) = Ok h"
      using G(5) by (auto simp: ph_new_def)
    then have hs: "ph_backend_id h = i" "ph_offset h = ps_next_offset ps" by (simp_all add: ph_new_Ok_iff)
    have "w' = w1" "r = (if ps_used ps \<ge> ps_max_pages ps then Err RemoteAllocFailed else Ok h)"
      using run x r1(1) h by (auto simp: alloc_op_def wire_consts split: if_splits)
    moreover have "alloc_post i ps r ?ps"
      using calculation(2) hs G(3,4) by (auto simp: alloc_post_def alloc_offset_def split: if_splits)
    ultimately show ?thesis using E(1) new [OF r1(2,4)] idleI [OF r1(3)] by auto
  qed
qed

text \<open>A request that does not hand out offsets.\<close>

lemma request_law:
  assumes sv: "server_ok addr ps w" and i: "idle s addr w"
    and one: "one_request ps (concat reqs) ps' reply" "[] \<notin> set reqs" "reqs \<noteq> []" "n \<le> length reply"
    and good: "ps_good ps'" "ps_next_offset ps' = ps_next_offset ps"
    and x: "exchange (net_io parse) reqs n s w = (r, w')"
  shows "net_frame addr w w'"
    and "r = Err IoFailed \<and> (server_ok addr ps w' \<or> server_ok addr ps' w') \<or>
      r = Ok (take n reply) \<and> server_ok addr ps' w' \<and> conn_is s addr [] (drop n reply) w'"
proof -
  have ok: "net_ok w" "server_is addr ps w" using sv by (simp_all add: server_ok_def)
  note E = exchange_idle [OF one(1) ok(1) i ok(2) one(2-4) x]
  then show "net_frame addr w w'" by blast
  have "net_ok w'" "unat (ps_next_offset ps) \<le> net_step w'"
    using E ok(1) net_ok_frame [of addr w w'] sv by (simp_all add: server_ok_def)
  then show "r = Err IoFailed \<and> (server_ok addr ps w' \<or> server_ok addr ps' w') \<or>
      r = Ok (take n reply) \<and> server_ok addr ps' w' \<and> conn_is s addr [] (drop n reply) w'"
    using E good sv by (auto simp: server_ok_def)
qed

lemma free_good: "ps_good ps \<Longrightarrow> ps_good (snd (ps_free ps x))"
  by (auto simp: ps_good_def ps_free_def split: if_splits)

lemma store_good: "ps_good ps \<Longrightarrow> is_page d \<Longrightarrow> x < ps_next_offset ps \<Longrightarrow> ps_good (snd (ps_store ps x d))"
  by (auto simp: ps_good_def ps_store_def split: if_splits)

lemma next_offset_ops [simp]:
  "ps_next_offset (snd (ps_free ps x)) = ps_next_offset ps"
  "ps_next_offset (snd (ps_store ps x d)) = ps_next_offset ps"
  by (simp_all add: ps_free_def ps_store_def)

lemma free_post_ps_free: "free_post x ps r (snd (ps_free ps x))"
  by (auto simp: free_post_def ps_free_def)

lemma free_op_law: "op_law addr (\<lambda>_. True) (free_post (ph_offset h)) (free_op (net_io parse) h)"
  unfolding op_law_def
proof (intro allI impI)
  fix s ps w r w'
  assume sv: "server_ok addr ps w" and i: "idle s addr w" and run: "free_op (net_io parse) h s w = (r, w')"
  let ?x = "ph_offset h" and ?req = "OP_FREE # to_le_bytes (ph_offset h)"
  let ?ps = "snd (ps_free ps ?x)" and ?ok = "fst (ps_free ps ?x)"
  obtain r1 w1 where x: "exchange (net_io parse) [?req] 1 s w = (r1, w1)"
    by (cases "exchange (net_io parse) [?req] 1 s w")
  have good: "ps_good ?ps" using sv free_good by (simp add: server_ok_def)
  note E = request_law [OF sv i _ _ _ _ good next_offset_ops(1) x, of "[if ?ok then RESP_OK else RESP_ERR]"]
  have E1: "net_frame addr w w1" "r1 = Err IoFailed \<and> (server_ok addr ps w1 \<or> server_ok addr ?ps w1) \<or>
      r1 = Ok [if ?ok then RESP_OK else RESP_ERR] \<and> server_ok addr ?ps w1 \<and> conn_is s addr [] [] w1"
    using E one_free [of ps ?x] by auto
  have post: "free_post ?x ps r ?ps" by (rule free_post_ps_free)
  have keep: "free_post ?x ps (Err er) ps" for er by (simp add: free_post_def)
  show "net_frame addr w w' \<and> r \<noteq> Panic \<and> (is_ok r \<longrightarrow> idle s addr w') \<and>
        (\<exists>ps'. server_ok addr ps' w' \<and> free_post (ph_offset h) ps r ps')"
    using run x E1 post keep by (auto simp: free_op_def wire_consts idleI split: if_splits) blast+
qed

lemma store_op_law:
  assumes "is_page d"
  shows "op_law addr (\<lambda>ps. ph_offset h < ps_next_offset ps) (store_post (ph_offset h) d)
    (store_op (net_io parse) h d)"
  unfolding op_law_def
proof (intro allI impI)
  fix s ps w r w'
  assume sv: "server_ok addr ps w" and Q: "ph_offset h < ps_next_offset ps" and i: "idle s addr w"
    and run: "store_op (net_io parse) h d s w = (r, w')"
  let ?x = "ph_offset h" and ?reqs = "[OP_STORE # to_le_bytes (ph_offset h), d]"
  let ?ps = "snd (ps_store ps ?x d)" and ?ok = "fst (ps_store ps ?x d)"
  obtain r1 w1 where x: "exchange (net_io parse) ?reqs 1 s w = (r1, w1)"
    by (cases "exchange (net_io parse) ?reqs 1 s w")
  have good: "ps_good ?ps" using sv store_good [OF _ assms Q] by (simp add: server_ok_def)
  have "d \<noteq> []" using assms by (auto simp: is_page_def PAGE_SIZE_def)
  then have E: "net_frame addr w w1" "r1 = Err IoFailed \<and> (server_ok addr ps w1 \<or> server_ok addr ?ps w1) \<or>
      r1 = Ok [if ?ok then RESP_OK else RESP_ERR] \<and> server_ok addr ?ps w1 \<and> conn_is s addr [] [] w1"
    using request_law [OF sv i _ _ _ _ good next_offset_ops(2) x, of "[if ?ok then RESP_OK else RESP_ERR]"]
      one_store [OF assms, of ps ?x] by auto
  have post: "store_post ?x d ps r ?ps" if "is_ok r \<Longrightarrow> ?ok"
    using that by (auto simp: store_post_def ps_store_def split: if_splits)
  have keep: "store_post ?x d ps (Err er) ps" "store_post ?x d ps (Err er) ?ps" for er
    by (auto simp: store_post_def ps_store_def)
  show "net_frame addr w w' \<and> r \<noteq> Panic \<and> (is_ok r \<longrightarrow> idle s addr w') \<and>
        (\<exists>ps'. server_ok addr ps' w' \<and> store_post (ph_offset h) d ps r ps')"
    using run x E post keep by (auto simp: store_op_def wire_consts idleI split: if_splits) blast+
qed

lemma load_op_law: "op_law addr (\<lambda>_. True) (load_post (ph_offset h)) (load_op (net_io parse) h)"
  unfolding op_law_def
proof (intro allI impI)
  fix s ps w r w'
  assume sv: "server_ok addr ps w" and i: "idle s addr w" and run: "load_op (net_io parse) h s w = (r, w')"
  let ?x = "ph_offset h" and ?req = "OP_LOAD # to_le_bytes (ph_offset h)"
  let ?reply = "case ps_load ps ?x of Some d \<Rightarrow> RESP_OK # d | None \<Rightarrow> [RESP_ERR]"
  obtain r1 w1 where x: "exchange (net_io parse) [?req] 1 s w = (r1, w1)"
    by (cases "exchange (net_io parse) [?req] 1 s w")
  have good: "ps_good ps" using sv by (simp add: server_ok_def)
  have E: "net_frame addr w w1" "r1 = Err IoFailed \<and> server_ok addr ps w1 \<or>
      r1 = Ok (take 1 ?reply) \<and> server_ok addr ps w1 \<and> conn_is s addr [] (drop 1 ?reply) w1"
    using request_law [OF sv i _ _ _ _ good refl x, of ?reply] one_load [of ps ?x]
    by (auto split: option.splits)
  show "net_frame addr w w' \<and> r \<noteq> Panic \<and> (is_ok r \<longrightarrow> idle s addr w') \<and>
        (\<exists>ps'. server_ok addr ps' w' \<and> load_post (ph_offset h) ps r ps')"
  proof (cases "\<exists>d. r1 = Ok [RESP_OK] \<and> ps_load ps ?x = Some d")
    case False
    then have "r \<in> {Err IoFailed, Err RemoteLoadFailed}" "w' = w1"
      using run x E(2) by (auto simp: load_op_def wire_consts split: option.splits)
    then show ?thesis using E by (auto simp: load_post_def)
  next
    case True
    then obtain d where d: "r1 = Ok [RESP_OK]" "ps_load ps ?x = Some d" by blast
    then have c: "conn_is s addr [] d w1" and sv1: "server_ok addr ps w1" using E(2) by auto
    have page: "length d = PAGE_SIZE"
      using good d(2) by (simp add: ps_good_def ps_load_def is_page_def)
    obtain y w2 where y: "net_read_exact s PAGE_SIZE w1 = (y, w2)"
      by (cases "net_read_exact s PAGE_SIZE w1")
    note R = net_read_law [OF c _ y, unfolded page, OF order.refl]
    have "w' = w2" "r = (case y of None \<Rightarrow> Err IoFailed | Some buf \<Rightarrow> Ok buf)"
      using run x d y by (auto simp: load_op_def split: option.splits)
    moreover have "server_ok addr ps w2" by (rule frame_server_ok [OF R(1,2) sv1])
    moreover have "net_frame addr w w2" using E(1) R(1) net_frame_trans by blast
    moreover have "y = None \<or> y = Some d \<and> conn_is s addr [] [] w2" using R(3) page by auto
    ultimately show ?thesis using d(2) by (auto simp: load_post_def ps_load_def idleI)
  qed
qed

section \<open>The contract\<close>

lemma tb_inv_upd [simp]:
  "tb_inv (b\<lparr>tb_pages_used := n\<rparr>) w = tb_inv b w"
  "tb_inv (b\<lparr>tb_total_store_ns := n, tb_store_count := m\<rparr>) w = tb_inv b w"
  "tb_inv (b\<lparr>tb_total_load_ns := n, tb_load_count := m\<rparr>) w = tb_inv b w"
  by (simp_all add: tb_inv_def)

lemma tb_inv_now:
  assumes "net_now w = (t, w')" and "tb_inv b w"
  shows "tb_inv b w'"
proof -
  note N = net_now_law [OF assms(1)]
  have "idle s a w' = idle s a w" for s a using N(3) by (simp add: idle_def at_addr_def conn_is_def)
  with assms(2) show ?thesis unfolding tb_inv_def using frame_server_ok [OF N(1,2)] by metis
qed

lemma server_ok_now: "net_now w = (t, w') \<Longrightarrow> server_ok addr ps w \<Longrightarrow> server_ok addr ps w'"
  using net_now_law frame_server_ok by blast

lemma tb_step:
  assumes "net_frame (tb_addr b) w w'" and "tb_inv b' w'" and "tb_addr b' = tb_addr b"
    and "tb_backend_id b' = tb_backend_id b"
    and "server_ok (tb_addr b) ps w" and "server_ok (tb_addr b) ps' w'"
    and "ps_next_offset ps \<le> ps_next_offset ps'"
  shows "backend_step (tb_vt (net_io parse)) tb_backend_id tb_contents tb_issued tb_inv tb_apart b w b' w'"
  using assms tb_frame [OF assms(1)]
  by (auto simp: backend_step_def tb_issued_def tb_apart_def server_ok_def)

lemma tb_contents_server: "server_ok (tb_addr b) ps w \<Longrightarrow> tb_contents b w = map_of (ps_pages ps)"
  by (simp add: tb_contents_def server_ok_def fun_eq_iff)

lemma tb_issued_server: "server_ok (tb_addr b) ps w \<Longrightarrow> tb_issued b w x \<longleftrightarrow> x < ps_next_offset ps"
  by (simp add: tb_issued_def server_ok_def)

lemma tb_alloc_law:
  assumes inv: "tb_inv b w" and run: "tb_alloc_page (net_io parse) b w = (r, b', w')"
  shows "backend_step (tb_vt (net_io parse)) tb_backend_id tb_contents tb_issued tb_inv tb_apart b w b' w' \<and>
    r \<noteq> Panic \<and> tb_contents b' w' = tb_contents b w \<and>
    (\<forall>h. r = Ok h \<longrightarrow> ph_backend_id h = tb_backend_id b \<and>
       \<not> tb_issued b w (ph_offset h) \<and> tb_issued b' w' (ph_offset h))"
proof (cases "tb_pages_used b \<ge> tb_max_pages b")
  case True
  then show ?thesis
    using inv run by (auto simp: tb_alloc_page_def backend_step_def)
next
  case False
  let ?b = "b\<lparr>tb_pages_used := tb_pages_used b + 1\<rparr>"
  from inv obtain ps where sv: "server_ok (tb_addr b) ps w" by (auto simp: tb_inv_def)
  obtain r1 b1 w1 where ws: "with_stream (net_io parse) (alloc_op (net_io parse) (tb_backend_id b)) ?b w = (r1, b1, w1)"
    by (cases "with_stream (net_io parse) (alloc_op (net_io parse) (tb_backend_id b)) ?b w") auto
  have "net_frame (tb_addr ?b) w w1 \<and> tb_inv b1 w1 \<and> r1 \<noteq> Panic \<and> (\<exists>c. b1 = ?b\<lparr>tb_conn := c\<rparr>) \<and>
     (\<exists>ps'. server_ok (tb_addr ?b) ps' w1 \<and> alloc_post (tb_backend_id b) ps r1 ps')"
    by (rule with_stream_law [OF alloc_op_law _ _ _ _ ws]) (use inv sv in \<open>simp_all add: alloc_post_def\<close>)
  then obtain c ps' where W: "net_frame (tb_addr b) w w1" "tb_inv b1 w1" "r1 \<noteq> Panic"
    "b1 = ?b\<lparr>tb_conn := c\<rparr>" "server_ok (tb_addr b) ps' w1" "alloc_post (tb_backend_id b) ps r1 ps'"
    by auto
  have res: "r = r1" "w' = w1" "tb_inv b' w1" "tb_addr b' = tb_addr b" "tb_backend_id b' = tb_backend_id b"
    using run False ws W(2-4) by (auto simp: tb_alloc_page_def tb_inv_def split: res.splits)
  have "backend_step (tb_vt (net_io parse)) tb_backend_id tb_contents tb_issued tb_inv tb_apart b w b' w'"
    using res W by (intro tb_step [OF _ _ _ _ sv]) (auto simp: alloc_post_def)
  then show ?thesis
    using res W sv by (auto simp: tb_contents_server tb_issued_server alloc_post_def)
qed

lemma tb_free_law:
  assumes inv: "tb_inv b w" and run: "tb_free_page (net_io parse) b h w = (r, b', w')"
  shows "backend_step (tb_vt (net_io parse)) tb_backend_id tb_contents tb_issued tb_inv tb_apart b w b' w' \<and>
    r \<noteq> Panic \<and> (\<forall>x. x \<noteq> ph_offset h \<longrightarrow> tb_contents b' w' x = tb_contents b w x) \<and>
    (is_ok r \<longrightarrow> tb_contents b' w' (ph_offset h) = None)"
proof -
  from inv obtain ps where sv: "server_ok (tb_addr b) ps w" by (auto simp: tb_inv_def)
  obtain r1 b1 w1 where ws: "with_stream (net_io parse) (free_op (net_io parse) h) b w = (r1, b1, w1)"
    by (cases "with_stream (net_io parse) (free_op (net_io parse) h) b w") auto
  have "net_frame (tb_addr b) w w1 \<and> tb_inv b1 w1 \<and> r1 \<noteq> Panic \<and> (\<exists>c. b1 = b\<lparr>tb_conn := c\<rparr>) \<and>
     (\<exists>ps'. server_ok (tb_addr b) ps' w1 \<and> free_post (ph_offset h) ps r1 ps')"
    by (rule with_stream_law [OF free_op_law _ inv sv _ ws]) (simp_all add: free_post_def)
  then obtain c ps' where W: "net_frame (tb_addr b) w w1" "tb_inv b1 w1" "r1 \<noteq> Panic"
    "b1 = b\<lparr>tb_conn := c\<rparr>" "server_ok (tb_addr b) ps' w1" "free_post (ph_offset h) ps r1 ps'"
    by auto
  have res: "r = r1" "w' = w1" "tb_inv b' w1" "tb_addr b' = tb_addr b" "tb_backend_id b' = tb_backend_id b"
    using run ws W(2-4) by (auto simp: tb_free_page_def split: res.splits)
  have "backend_step (tb_vt (net_io parse)) tb_backend_id tb_contents tb_issued tb_inv tb_apart b w b' w'"
    using res W by (intro tb_step [OF _ _ _ _ sv]) (auto simp: free_post_def)
  then show ?thesis using res W sv by (auto simp: tb_contents_server free_post_def)
qed

text \<open>Stores and loads read the clock before and, when they succeed, after.\<close>

lemma tb_store_law:
  assumes inv: "tb_inv b w" and d: "is_page d" and iss: "tb_issued b w (ph_offset h)"
    and run: "tb_store_page (net_io parse) b h d w = (r, b', w')"
  shows "backend_step (tb_vt (net_io parse)) tb_backend_id tb_contents tb_issued tb_inv tb_apart b w b' w' \<and>
    r \<noteq> Panic \<and> (\<forall>x. x \<noteq> ph_offset h \<longrightarrow> tb_contents b' w' x = tb_contents b w x) \<and>
    (is_ok r \<longrightarrow> tb_contents b' w' (ph_offset h) = Some d)"
proof -
  from inv obtain ps where sv: "server_ok (tb_addr b) ps w" by (auto simp: tb_inv_def)
  obtain t0 w0 where n0: "net_now w = (t0, w0)" by (cases "net_now w")
  obtain r1 b1 w1 where ws: "with_stream (net_io parse) (store_op (net_io parse) h d) b w0 = (r1, b1, w1)"
    by (cases "with_stream (net_io parse) (store_op (net_io parse) h d) b w0") auto
  obtain t2 w2 where n2: "net_now w1 = (t2, w2)" by (cases "net_now w1")
  have "net_frame (tb_addr b) w0 w1 \<and> tb_inv b1 w1 \<and> r1 \<noteq> Panic \<and> (\<exists>c. b1 = b\<lparr>tb_conn := c\<rparr>) \<and>
     (\<exists>ps'. server_ok (tb_addr b) ps' w1 \<and> store_post (ph_offset h) d ps r1 ps')"
    using iss sv
    by (intro with_stream_law [OF store_op_law [OF d] _ tb_inv_now [OF n0 inv] server_ok_now [OF n0 sv] _ ws])
      (simp_all add: store_post_def tb_issued_server)
  then obtain c ps' where W: "net_frame (tb_addr b) w0 w1" "tb_inv b1 w1" "r1 \<noteq> Panic"
    "b1 = b\<lparr>tb_conn := c\<rparr>" "server_ok (tb_addr b) ps' w1" "store_post (ph_offset h) d ps r1 ps'"
    by auto
  have F: "net_frame (tb_addr b) w w1" "net_frame (tb_addr b) w w2"
    using net_now_law(1) [OF n0] W(1) net_now_law(1) [OF n2] net_frame_trans by blast+
  have "r = r1" "w' = (if is_ok r1 then w2 else w1)" "tb_inv b' w'" "tb_addr b' = tb_addr b"
    "tb_backend_id b' = tb_backend_id b" "server_ok (tb_addr b) ps' w'"
    using run n0 ws n2 W(2-5) tb_inv_now [OF n2] server_ok_now [OF n2]
    by (auto simp: tb_store_page_def split: res.splits)
  note res = this
  have "backend_step (tb_vt (net_io parse)) tb_backend_id tb_contents tb_issued tb_inv tb_apart b w b' w'"
    using res W F by (intro tb_step [OF _ _ _ _ sv]) (auto simp: store_post_def)
  then show ?thesis using res W sv by (auto simp: tb_contents_server store_post_def)
qed

lemma tb_load_law:
  assumes inv: "tb_inv b w" and run: "tb_load_page (net_io parse) b h w = (r, b', w')"
  shows "backend_step (tb_vt (net_io parse)) tb_backend_id tb_contents tb_issued tb_inv tb_apart b w b' w' \<and>
    r \<noteq> Panic \<and> tb_contents b' w' = tb_contents b w \<and>
    (\<forall>d. r = Ok d \<longrightarrow> tb_contents b w (ph_offset h) = Some d)"
proof -
  from inv obtain ps where sv: "server_ok (tb_addr b) ps w" by (auto simp: tb_inv_def)
  obtain t0 w0 where n0: "net_now w = (t0, w0)" by (cases "net_now w")
  obtain r1 b1 w1 where ws: "with_stream (net_io parse) (load_op (net_io parse) h) b w0 = (r1, b1, w1)"
    by (cases "with_stream (net_io parse) (load_op (net_io parse) h) b w0") auto
  obtain t2 w2 where n2: "net_now w1 = (t2, w2)" by (cases "net_now w1")
  have "net_frame (tb_addr b) w0 w1 \<and> tb_inv b1 w1 \<and> r1 \<noteq> Panic \<and> (\<exists>c. b1 = b\<lparr>tb_conn := c\<rparr>) \<and>
     (\<exists>ps'. server_ok (tb_addr b) ps' w1 \<and> load_post (ph_offset h) ps r1 ps')"
    by (rule with_stream_law [OF load_op_law _ tb_inv_now [OF n0 inv] server_ok_now [OF n0 sv] _ ws])
      (simp_all add: load_post_def)
  then obtain c where W: "net_frame (tb_addr b) w0 w1" "tb_inv b1 w1" "r1 \<noteq> Panic"
    "b1 = b\<lparr>tb_conn := c\<rparr>" "server_ok (tb_addr b) ps w1"
    "\<forall>d. r1 = Ok d \<longrightarrow> map_of (ps_pages ps) (ph_offset h) = Some d"
    by (auto simp: load_post_def)
  have F: "net_frame (tb_addr b) w w1" "net_frame (tb_addr b) w w2"
    using net_now_law(1) [OF n0] W(1) net_now_law(1) [OF n2] net_frame_trans by blast+
  have res: "r = r1" "w' = (if is_ok r1 then w2 else w1)" "tb_inv b' w'" "tb_addr b' = tb_addr b"
    "tb_backend_id b' = tb_backend_id b" "server_ok (tb_addr b) ps w'"
    using run n0 ws n2 W(2-5) tb_inv_now [OF n2] server_ok_now [OF n2]
    by (auto simp: tb_load_page_def split: res.splits)
  have "backend_step (tb_vt (net_io parse)) tb_backend_id tb_contents tb_issued tb_inv tb_apart b w b' w'"
    using res F by (intro tb_step [OF _ _ _ _ sv]) auto
  then show ?thesis using res W sv by (auto simp: tb_contents_server)
qed

interpretation tb: page_backend "tb_vt (net_io parse)" tb_backend_id tb_contents tb_issued tb_inv tb_apart
  for parse
proof (unfold_locales, goal_cases)
  case (1 b c)
  then show ?case by (auto simp: tb_apart_def)
next
  case (2 b w x d)
  then show ?case by (auto simp: tb_inv_def tb_contents_server tb_issued_server server_ok_def ps_good_def)
next
  case (3 b w x d)
  then show ?case by (auto simp: tb_inv_def tb_contents_server server_ok_def ps_good_def)
next
  case (4 b w r b' w')
  then show ?case using tb_alloc_law [of b w parse r b' w'] by auto
next
  case (5 b w d h r b' w')
  then show ?case using tb_store_law [of b w d h parse r b' w'] by auto
next
  case (6 b w h r b' w')
  then show ?case using tb_load_law [of b w parse h r b' w'] by auto
next
  case (7 b w h r b' w')
  then show ?case using tb_free_law [of b w parse h r b' w'] by auto
qed

section \<open>Properties\<close>

lemma now_keeps:
  assumes "net_now w = (t, w')"
  shows "conn_is s addr i out w' = conn_is s addr i out w" and "net_servers w' = net_servers w"
    and "net_fate w' = net_fate w" and "net_step w' = Suc (net_step w)" and "net_ok w' = net_ok w"
  using assms by (auto simp: net_now_def conn_is_def net_ok_def)

lemma with_stream_connected:
  assumes "cs_stream (tb_conn b) = Some s" and "op s w = (Ok v, w')"
  shows "with_stream io op b w = (Ok v, b\<lparr>tb_conn := (tb_conn b)\<lparr>cs_consecutive_failures := 0\<rparr>\<rparr>, w')"
  using assms by (simp add: with_stream_def)

lemma store_op_fine:
  assumes "net_ok w" and "conn_is s addr [] [] w" and "server_is addr ps w" and "is_page d"
    and "of_nat (length (ps_pages ps)) < ps_max_pages ps" and "fine_for (4 + m) w"
  shows "\<exists>w'. store_op (net_io parse) h d s w = (Ok (), w') \<and> conn_is s addr [] [] w' \<and>
     server_is addr (ps\<lparr>ps_pages := AList.update (ph_offset h) d (ps_pages ps)\<rparr>) w' \<and>
     net_fate w' = net_fate w \<and> net_step w' = net_step w + 4"
proof -
  let ?reqs = "[OP_STORE # to_le_bytes (ph_offset h), d]"
  have st: "ps_store ps (ph_offset h) d = (True, ps\<lparr>ps_pages := AList.update (ph_offset h) d (ps_pages ps)\<rparr>)"
    using assms(5) by (simp add: ps_store_def not_le [symmetric])
  have "d \<noteq> []" using assms(4) by (auto simp: is_page_def PAGE_SIZE_def)
  then obtain w' where "exchange (net_io parse) ?reqs 1 s w = (Ok [RESP_OK], w')" "conn_is s addr [] [] w'"
    "server_is addr (ps\<lparr>ps_pages := AList.update (ph_offset h) d (ps_pages ps)\<rparr>) w'"
    "net_fate w' = net_fate w" "net_step w' = net_step w + 4"
    using exchange_fine [of ps ?reqs "ps\<lparr>ps_pages := AList.update (ph_offset h) d (ps_pages ps)\<rparr>" "[RESP_OK]"
        w s addr 1 m parse] one_store [OF assms(4), of ps "ph_offset h"] assms st
    by (auto simp: numeral_eq_Suc)
  then show ?thesis by (auto simp: store_op_def)
qed

lemma load_op_fine:
  assumes "net_ok w" and "conn_is s addr [] [] w" and "server_is addr ps w"
    and "map_of (ps_pages ps) (ph_offset h) = Some d" and "is_page d" and "fine_for (4 + m) w"
  shows "\<exists>w'. load_op (net_io parse) h s w = (Ok d, w')"
proof -
  let ?reqs = "[OP_LOAD # to_le_bytes (ph_offset h)]"
  from exchange_fine [of ps ?reqs ps "RESP_OK # d" w s addr 1 "Suc m" parse] one_load [of ps "ph_offset h"] assms
  obtain w1 where x: "exchange (net_io parse) ?reqs 1 s w = (Ok [RESP_OK], w1)" "conn_is s addr [] d w1"
    "net_fate w1 = net_fate w" "net_step w1 = net_step w + 3"
    by (auto simp: ps_load_def numeral_eq_Suc)
  have "fine_for (Suc m) w1" by (rule fine_later [OF assms(6) x(3,4)]) simp
  from read_fine [OF this x(2), of PAGE_SIZE] assms(5) obtain w2 where
    "net_read_exact s PAGE_SIZE w1 = (Some d, w2)" by (auto simp: is_page_def)
  with x(1) show ?thesis by (simp add: load_op_def)
qed

lemma tb_roundtrip_fine:
  assumes "tb_inv b w" and "cs_stream (tb_conn b) = Some s" and "cn_open (net_conns w ! s)"
    and "fine_for 12 w" and "is_page d" and "server_is (tb_addr b) ps w"
    and "of_nat (length (ps_pages ps)) < ps_max_pages ps"
  shows "\<exists>b1 w1 b2 w2. tb_store_page (net_io parse) b h d w = (Ok (), b1, w1) \<and>
     tb_load_page (net_io parse) b1 h w1 = (Ok d, b2, w2)"
proof -
  let ?a = "tb_addr b" and ?ps = "ps\<lparr>ps_pages := AList.update (ph_offset h) d (ps_pages ps)\<rparr>"
  have c: "conn_is s ?a [] [] w" and ok: "net_ok w"
    using assms(1-3) by (auto simp: tb_inv_def idle_def server_ok_def)
  obtain t0 w0 where n0: "net_now w = (t0, w0)" by (cases "net_now w")
  note N0 = now_keeps [OF n0]
  have f0: "fine_for (4 + 7) w0" by (rule fine_later [OF assms(4) N0(3), of 1]) (use N0(4) in simp_all)
  have "net_ok w0" "conn_is s ?a [] [] w0" "server_is ?a ps w0" using N0 ok c assms(6) by simp_all
  from store_op_fine [OF this assms(5,7) f0, of parse h] obtain w1 where
    s1: "store_op (net_io parse) h d s w0 = (Ok (), w1)" "conn_is s ?a [] [] w1" "server_is ?a ?ps w1"
    "net_fate w1 = net_fate w0" "net_step w1 = net_step w0 + 4" by blast
  obtain t1 w2 where n1: "net_now w1 = (t1, w2)" by (cases "net_now w1")
  obtain t2 w3 where n2: "net_now w2 = (t2, w3)" by (cases "net_now w2")
  note N1 = now_keeps [OF n1] and N2 = now_keeps [OF n2]
  define b1 where "b1 = b\<lparr>tb_conn := (tb_conn b)\<lparr>cs_consecutive_failures := 0\<rparr>,
    tb_total_store_ns := tb_total_store_ns b + of_nat (t1 - t0), tb_store_count := tb_store_count b + 1\<rparr>"
  have st: "tb_store_page (net_io parse) b h d w = (Ok (), b1, w2)"
    by (simp add: tb_store_page_def n0 with_stream_connected [where op = "store_op (net_io parse) h d", OF assms(2) s1(1)] n1 b1_def)
  have fate3: "net_fate w3 = net_fate w0" and step3: "net_step w3 = net_step w0 + 6"
    using s1(4,5) N1(3,4) N2(3,4) by simp_all
  have f3: "fine_for (4 + 1) w3" by (rule fine_later [OF f0 fate3 step3]) simp
  have "net_ok w3" using ok N0(3) fate3 by (simp add: net_ok_def)
  moreover have "conn_is s ?a [] [] w3" "server_is ?a ?ps w3" using s1(2,3) N1(1,2) N2(1,2) by simp_all
  moreover have "map_of (ps_pages ?ps) (ph_offset h) = Some d" by simp
  ultimately obtain w4 where l: "load_op (net_io parse) h s w3 = (Ok d, w4)"
    using load_op_fine [OF _ _ _ _ assms(5) f3] by blast
  have b1s: "cs_stream (tb_conn b1) = Some s" using assms(2) by (simp add: b1_def)
  obtain t4 w5 where "net_now w4 = (t4, w5)" by (cases "net_now w4")
  then have "\<exists>b2 w'. tb_load_page (net_io parse) b1 h w2 = (Ok d, b2, w')"
    by (simp add: tb_load_page_def n2 with_stream_connected [where op = "load_op (net_io parse) h", OF b1s l])
  with st show ?thesis by blast
qed

text \<open>A connected backend and its server, which has handed out one offset.\<close>

definition sample_server :: page_store where
  "sample_server = \<lparr>ps_pages = [], ps_max_pages = 4, ps_used = 1, ps_next_offset = 1\<rparr>"

definition sample_world :: net where
  "sample_world = \<lparr>net_servers = [(''a'', sample_server)],
     net_conns = [\<lparr>cn_addr = ''a'', cn_in = [], cn_out = [], cn_open = True\<rparr>],
     net_fate = (\<lambda>k. if k < 100 then Fine else Broken 0), net_step = 2, net_tick = (\<lambda>_. 1), net_time = 0\<rparr>"

definition sample_tcp :: "nat tcp_backend" where
  "sample_tcp = (tb_new 3 ''a'')\<lparr>tb_conn := \<lparr>cs_stream = Some 0, cs_consecutive_failures = 0,
     cs_last_attempt = None\<rparr>\<rparr>"

lemma sample_tcp_facts:
  "tb_inv sample_tcp sample_world" "cs_stream (tb_conn sample_tcp) = Some 0"
  "cn_open (net_conns sample_world ! 0)" "fine_for 12 sample_world"
  "server_is (tb_addr sample_tcp) sample_server sample_world"
  "of_nat (length (ps_pages sample_server)) < ps_max_pages sample_server"
  "tb_issued sample_tcp sample_world 0"
  by (auto simp: tb_inv_def server_ok_def idle_def at_addr_def conn_is_def net_ok_def ps_good_def fine_for_def
      tb_issued_def sample_tcp_def sample_world_def sample_server_def tb_new_def)

fun try_loads :: "(string \<Rightarrow> bool) \<Rightarrow> page_handle \<Rightarrow> nat \<Rightarrow> nat tcp_backend \<Rightarrow> net \<Rightarrow> page res list" where
  "try_loads parse h 0 b w = []"
| "try_loads parse h (Suc n) b w =
     (case tb_load_page (net_io parse) b h w of (r, b', w') \<Rightarrow> r # try_loads parse h n b' w')"

lemma try_loads_law:
  "tb_inv b w \<Longrightarrow> tb_contents b w (ph_offset h) = Some d \<Longrightarrow> Ok d' \<in> set (try_loads parse h n b w) \<Longrightarrow> d' = d"
proof (induction n arbitrary: b w)
  case (Suc n)
  obtain r b' w' where l: "tb_load_page (net_io parse) b h w = (r, b', w')"
    by (cases "tb_load_page (net_io parse) b h w") auto
  from tb_load_law [OF Suc.prems(1) l] Suc.prems l Suc.IH [of b' w'] show ?case
    by (auto simp: backend_step_def)
qed simp

text \<open>
  C15: a remote page is read back as it was written. If a store to an allocated page succeeds, and
  then any number of loads of it are tried, some of which may fail, every load that succeeds returns
  the stored page.
\<close>

theorem tcp_store_load:
  assumes "tb_inv b w" and "is_page d" and "tb_issued b w (ph_offset h)"
    and "tb_store_page (net_io parse) b h d w = (Ok u, b', w')"
    and "Ok d' \<in> set (try_loads parse h n b' w')"
  shows "d' = d"
  using tb_store_law [OF assms(1-4)] try_loads_law [of b' w' h d d' parse n] assms(5)
  by (auto simp: backend_step_def)

theorem tcp_store_load_witness:
  "\<exists>b' w' d'. tb_store_page (net_io (\<lambda>_. True)) sample_tcp (PageHandle 0) (replicate 4096 5) sample_world =
       (Ok (), b', w') \<and>
     Ok d' \<in> set (try_loads (\<lambda>_. True) (PageHandle 0) 1 b' w') \<and> d' = replicate 4096 5"
proof -
  have page: "is_page (replicate 4096 5)" by simp
  from tb_roundtrip_fine [OF sample_tcp_facts(1-4) page sample_tcp_facts(5,6)] obtain b1 w1 b2 w2 where
    s: "tb_store_page (net_io (\<lambda>_. True)) sample_tcp (PageHandle 0) (replicate 4096 5) sample_world = (Ok (), b1, w1)"
    "tb_load_page (net_io (\<lambda>_. True)) b1 (PageHandle 0) w1 = (Ok (replicate 4096 5), b2, w2)" by blast
  then obtain d' where d': "Ok d' \<in> set (try_loads (\<lambda>_. True) (PageHandle 0) 1 b1 w1)" by auto
  have "ph_offset (PageHandle 0) = 0" by (simp add: ph_offset_def)
  with tcp_store_load [OF sample_tcp_facts(1) page _ s(1) d'] sample_tcp_facts(7) s(1) d' show ?thesis by auto
qed



end
