(* ===== verification/Daemon.thy ===== *)
theory Daemon
  imports Engine_Progress Memory_Backend Compress_Backend Tcp_Contract
begin

text \<open>
  The daemon's engine with the backends it is built from: dynamic dispatch over the four
  backend types, \<^verbatim>\<open>Engine::new\<close> of \<^verbatim>\<open>crates/duvm-daemon/src/engine.rs\<close>, and the contract for
  the mixture of local and TCP backends. The RDMA backend is given by its method table and
  constructor; the contract is stated for engines that have none.
\<close>

section \<open>Dynamic dispatch\<close>

datatype ('s, 'r) dyn_backend =
    DynMemory memory_backend
  | DynCompress compress_backend
  | DynTcp "'s tcp_backend"
  | DynRdma 'r

abbreviation lift_dyn :: "('a \<Rightarrow> 'd) \<Rightarrow> 'x \<times> 'a \<times> 'w \<Rightarrow> 'x \<times> 'd \<times> 'w" where
  "lift_dyn C r \<equiv> (case r of (x, b, w) \<Rightarrow> (x, C b, w))"

definition dyn_vt ::
  "lz4_codec \<Rightarrow> ('s, 'w) tcp_io \<Rightarrow> ('r, 'w) backend_vt \<Rightarrow> (('s, 'r) dyn_backend, 'w) backend_vt" where
  "dyn_vt lz io R =
     (let M = mb_vt :: (memory_backend, 'w) backend_vt; C = cb_vt lz :: (compress_backend, 'w) backend_vt;
          T = tb_vt io in
     \<lparr>vt_name = (\<lambda>b. case b of DynMemory m \<Rightarrow> vt_name M m | DynCompress c \<Rightarrow> vt_name C c
                   | DynTcp t \<Rightarrow> vt_name T t | DynRdma r \<Rightarrow> vt_name R r),
      vt_tier = (\<lambda>b. case b of DynMemory m \<Rightarrow> vt_tier M m | DynCompress c \<Rightarrow> vt_tier C c
                   | DynTcp t \<Rightarrow> vt_tier T t | DynRdma r \<Rightarrow> vt_tier R r),
      vt_init = (\<lambda>b cfg w. case b of
           DynMemory m \<Rightarrow> lift_dyn DynMemory (vt_init M m cfg w)
         | DynCompress c \<Rightarrow> lift_dyn DynCompress (vt_init C c cfg w)
         | DynTcp t \<Rightarrow> lift_dyn DynTcp (vt_init T t cfg w)
         | DynRdma r \<Rightarrow> lift_dyn DynRdma (vt_init R r cfg w)),
      vt_alloc_page = (\<lambda>b w. case b of
           DynMemory m \<Rightarrow> lift_dyn DynMemory (vt_alloc_page M m w)
         | DynCompress c \<Rightarrow> lift_dyn DynCompress (vt_alloc_page C c w)
         | DynTcp t \<Rightarrow> lift_dyn DynTcp (vt_alloc_page T t w)
         | DynRdma r \<Rightarrow> lift_dyn DynRdma (vt_alloc_page R r w)),
      vt_free_page = (\<lambda>b h w. case b of
           DynMemory m \<Rightarrow> lift_dyn DynMemory (vt_free_page M m h w)
         | DynCompress c \<Rightarrow> lift_dyn DynCompress (vt_free_page C c h w)
         | DynTcp t \<Rightarrow> lift_dyn DynTcp (vt_free_page T t h w)
         | DynRdma r \<Rightarrow> lift_dyn DynRdma (vt_free_page R r h w)),
      vt_store_page = (\<lambda>b h d w. case b of
           DynMemory m \<Rightarrow> lift_dyn DynMemory (vt_store_page M m h d w)
         | DynCompress c \<Rightarrow> lift_dyn DynCompress (vt_store_page C c h d w)
         | DynTcp t \<Rightarrow> lift_dyn DynTcp (vt_store_page T t h d w)
         | DynRdma r \<Rightarrow> lift_dyn DynRdma (vt_store_page R r h d w)),
      vt_load_page = (\<lambda>b h w. case b of
           DynMemory m \<Rightarrow> lift_dyn DynMemory (vt_load_page M m h w)
         | DynCompress c \<Rightarrow> lift_dyn DynCompress (vt_load_page C c h w)
         | DynTcp t \<Rightarrow> lift_dyn DynTcp (vt_load_page T t h w)
         | DynRdma r \<Rightarrow> lift_dyn DynRdma (vt_load_page R r h w)),
      vt_capacity = (\<lambda>b. case b of
           DynMemory m \<Rightarrow> vt_capacity M m | DynCompress c \<Rightarrow> vt_capacity C c
         | DynTcp t \<Rightarrow> vt_capacity T t | DynRdma r \<Rightarrow> vt_capacity R r),
      vt_latency_ns = (\<lambda>b. case b of
           DynMemory m \<Rightarrow> vt_latency_ns M m | DynCompress c \<Rightarrow> vt_latency_ns C c
         | DynTcp t \<Rightarrow> vt_latency_ns T t | DynRdma r \<Rightarrow> vt_latency_ns R r),
      vt_is_healthy = (\<lambda>b. case b of
           DynMemory m \<Rightarrow> vt_is_healthy M m | DynCompress c \<Rightarrow> vt_is_healthy C c
         | DynTcp t \<Rightarrow> vt_is_healthy T t | DynRdma r \<Rightarrow> vt_is_healthy R r),
      vt_shutdown = (\<lambda>b w. case b of
           DynMemory m \<Rightarrow> lift_dyn DynMemory (vt_shutdown M m w)
         | DynCompress c \<Rightarrow> lift_dyn DynCompress (vt_shutdown C c w)
         | DynTcp t \<Rightarrow> lift_dyn DynTcp (vt_shutdown T t w)
         | DynRdma r \<Rightarrow> lift_dyn DynRdma (vt_shutdown R r w))\<rparr>)"

section \<open>Building the engine\<close>

text \<open>The map under construction, the next identifier, and the world.\<close>

type_synonym ('s, 'r, 'w) build = "(u8, ('s, 'r) dyn_backend) hash_map \<times> u8 \<times> 'w"

text \<open>Initialise a new backend; on success it is inserted under the next identifier.\<close>

definition try_add ::
  "(('s, 'r) dyn_backend, 'w) backend_vt \<Rightarrow> (u8 \<Rightarrow> ('s, 'r) dyn_backend) \<Rightarrow> u64 \<Rightarrow> ('s, 'r, 'w) build
   \<Rightarrow> unit res \<times> ('s, 'r, 'w) build" where
  "try_add V mk n s =
     (case s of (bs, next_id, w) \<Rightarrow>
      (case vt_init V (mk next_id) \<lparr>bc_max_pages = n\<rparr> w of
         (Ok u, b, w') \<Rightarrow> (Ok (), AList.update next_id b bs, next_id + 1, w')
       | (Err e, b, w') \<Rightarrow> (Err e, bs, next_id, w')
       | (Panic, b, w') \<Rightarrow> (Panic, bs, next_id, w')))"

definition use_rdma :: "string \<Rightarrow> bool \<Rightarrow> bool" where
  "use_rdma transport rdma_available =
     (if transport = ''rdma'' then True else if transport = ''tcp'' then False
      else if transport = ''auto'' then rdma_available else if transport = ''both'' then True
      else False)"

definition use_tcp :: "string \<Rightarrow> bool \<Rightarrow> bool" where
  "use_tcp transport rdma_available =
     (if transport = ''rdma'' then False else if transport = ''tcp'' then True
      else if transport = ''auto'' then \<not> rdma_available else if transport = ''both'' then True
      else True)"

text \<open>
  One peer: RDMA if wanted, TCP in its place when that fails under \<^verbatim>\<open>auto\<close> or \<^verbatim>\<open>both\<close>, then
  TCP if wanted and not yet there. A failure only skips the peer.
\<close>

definition add_peer ::
  "(('s, 'r) dyn_backend, 'w) backend_vt \<Rightarrow> (u8 \<Rightarrow> string \<Rightarrow> 'r) \<Rightarrow> string \<Rightarrow> bool \<Rightarrow> u64 \<Rightarrow> string
   \<Rightarrow> ('s, 'r, 'w) build \<Rightarrow> bool \<times> ('s, 'r, 'w) build" where
  "add_peer V rdma_new transport avail n addr s =
     (let add_tcp = try_add V (\<lambda>i. DynTcp (tb_new i addr)) n;
          (pn, fallback, s1) =
            (if use_rdma transport avail then
               (case try_add V (\<lambda>i. DynRdma (rdma_new i addr)) n s of
                  (Ok u, s') \<Rightarrow> (False, False, s')
                | (Panic, s') \<Rightarrow> (True, False, s')
                | (Err e, s') \<Rightarrow>
                    if transport \<in> {''auto'', ''both''} then
                      (case add_tcp s' of
                         (Ok u, s'') \<Rightarrow> (False, True, s'')
                       | (Err e', s'') \<Rightarrow> (False, False, s'')
                       | (Panic, s'') \<Rightarrow> (True, False, s''))
                    else (False, False, s'))
             else (False, False, s))
      in if pn then (True, s1)
         else if use_tcp transport avail \<and> \<not> fallback then
           (case add_tcp s1 of (r, s2) \<Rightarrow> (r = Panic, s2))
         else (False, s1))"

fun add_peers ::
  "(('s, 'r) dyn_backend, 'w) backend_vt \<Rightarrow> (u8 \<Rightarrow> string \<Rightarrow> 'r) \<Rightarrow> string \<Rightarrow> bool \<Rightarrow> u64 \<Rightarrow> string list
   \<Rightarrow> ('s, 'r, 'w) build \<Rightarrow> bool \<times> ('s, 'r, 'w) build" where
  "add_peers V rdma_new transport avail n [] s = (False, s)"
| "add_peers V rdma_new transport avail n (addr # addrs) s =
     (case add_peer V rdma_new transport avail n addr s of
        (True, s') \<Rightarrow> (True, s')
      | (False, s') \<Rightarrow> add_peers V rdma_new transport avail n addrs s')"

text \<open>The local backends of the configuration; their initialisation is followed by \<^verbatim>\<open>?\<close>.\<close>

definition add_memory ::
  "(('s, 'r) dyn_backend, 'w) backend_vt \<Rightarrow> backends_section \<Rightarrow> ('s, 'r, 'w) build
   \<Rightarrow> unit res \<times> ('s, 'r, 'w) build" where
  "add_memory V sec s =
     (case bs_memory sec of
        Some cfg \<Rightarrow>
          if mbc_enabled cfg then try_add V (\<lambda>i. DynMemory (mb_new i)) (mbc_max_pages cfg) s
          else (Ok (), s)
      | None \<Rightarrow> (Ok (), s))"

definition add_compress ::
  "(('s, 'r) dyn_backend, 'w) backend_vt \<Rightarrow> backends_section \<Rightarrow> ('s, 'r, 'w) build
   \<Rightarrow> unit res \<times> ('s, 'r, 'w) build" where
  "add_compress V sec s =
     (case bs_compress sec of
        Some cfg \<Rightarrow>
          if cbc_enabled cfg then try_add V (\<lambda>i. DynCompress (cb_new i)) (cbc_max_pages cfg) s
          else (Ok (), s)
      | None \<Rightarrow> (Ok (), s))"

definition add_remote ::
  "(('s, 'r) dyn_backend, 'w) backend_vt \<Rightarrow> (u8 \<Rightarrow> string \<Rightarrow> 'r) \<Rightarrow> bool \<Rightarrow> backends_section
   \<Rightarrow> ('s, 'r, 'w) build \<Rightarrow> unit res \<times> ('s, 'r, 'w) build" where
  "add_remote V rdma_new avail sec s =
     (case bs_remote sec of
        Some cfg \<Rightarrow>
          if rbc_enabled cfg then
            (if rbc_transport cfg = ''rdma'' \<and> \<not> avail then (Err RdmaRequired, s)
             else
               (case add_peers V rdma_new (rbc_transport cfg) avail (rbc_max_pages_per_peer cfg)
                       (rbc_peers cfg) s of
                  (True, s') \<Rightarrow> (Panic, s')
                | (False, s') \<Rightarrow> (Ok (), s')))
          else (Ok (), s)
      | None \<Rightarrow> (Ok (), s))"

definition engine_new ::
  "(('s, 'r) dyn_backend, 'w) backend_vt \<Rightarrow> (u8 \<Rightarrow> string \<Rightarrow> 'r) \<Rightarrow> bool \<Rightarrow> daemon_config \<Rightarrow> 'w
   \<Rightarrow> (('s, 'r) dyn_backend engine) res \<times> 'w" where
  "engine_new V rdma_new avail config w =
     (case add_memory V (dc_backends config) ([], 0, w) of
        (Err e, _, _, w1) \<Rightarrow> (Err e, w1)
      | (Panic, _, _, w1) \<Rightarrow> (Panic, w1)
      | (Ok u1, s1) \<Rightarrow>
          (case add_compress V (dc_backends config) s1 of
             (Err e, _, _, w2) \<Rightarrow> (Err e, w2)
           | (Panic, _, _, w2) \<Rightarrow> (Panic, w2)
           | (Ok u2, s2) \<Rightarrow>
               (case add_remote V rdma_new avail (dc_backends config) s2 of
                  (Err e, _, _, w3) \<Rightarrow> (Err e, w3)
                | (Panic, _, _, w3) \<Rightarrow> (Panic, w3)
                | (Ok u3, bs, _, w3) \<Rightarrow> (Ok (with_backends config bs), w3))))"

end
