(* ===== verification/Daemon_Contract.thy ===== *)
theory Daemon_Contract
  imports Daemon
begin

text \<open>
  The mixture of local and TCP backends keeps the backend contract over the network, and so
  the engine's laws hold for the engine the daemon builds. An engine with an RDMA backend is
  outside: that backend does not keep the contract.
\<close>

section \<open>The contract of the mixture\<close>

type_synonym 'r net_backend = "(nat, 'r) dyn_backend"

fun dyn_bid :: "('s, 'r) dyn_backend \<Rightarrow> u8" where
  "dyn_bid (DynMemory m) = mb_backend_id m"
| "dyn_bid (DynCompress c) = cb_backend_id c"
| "dyn_bid (DynTcp t) = tb_backend_id t"
| "dyn_bid (DynRdma r) = 0"

fun dyn_contents :: "lz4_codec \<Rightarrow> 'r net_backend \<Rightarrow> net \<Rightarrow> u64 \<rightharpoonup> page" where
  "dyn_contents lz (DynMemory m) w = mb_contents m w"
| "dyn_contents lz (DynCompress c) w = cb_contents lz c w"
| "dyn_contents lz (DynTcp t) w = tb_contents t w"
| "dyn_contents lz (DynRdma r) w = Map.empty"

fun dyn_issued :: "'r net_backend \<Rightarrow> net \<Rightarrow> u64 \<Rightarrow> bool" where
  "dyn_issued (DynMemory m) w x = mb_issued m w x"
| "dyn_issued (DynCompress c) w x = cb_issued c w x"
| "dyn_issued (DynTcp t) w x = tb_issued t w x"
| "dyn_issued (DynRdma r) w x = False"

fun dyn_inv :: "lz4_codec \<Rightarrow> 'r net_backend \<Rightarrow> net \<Rightarrow> bool" where
  "dyn_inv lz (DynMemory m) w = mb_inv m w"
| "dyn_inv lz (DynCompress c) w = cb_inv lz c w"
| "dyn_inv lz (DynTcp t) w = tb_inv t w"
| "dyn_inv lz (DynRdma r) w = False"

fun dyn_apart :: "'r net_backend \<Rightarrow> 'r net_backend \<Rightarrow> bool" where
  "dyn_apart (DynTcp s) (DynTcp t) = tb_apart s t"
| "dyn_apart b c = True"

text \<open>The local backends do not touch the world, and do not depend on it.\<close>

lemma local_world:
  "mb_alloc_page m w = (ra, m', w') \<Longrightarrow> w' = w" "mb_free_page m h w = (rf, m', w') \<Longrightarrow> w' = w"
  "mb_store_page m h d w = (rs, m', w') \<Longrightarrow> w' = w" "mb_load_page m h w = (rl, m', w') \<Longrightarrow> w' = w"
  "cb_alloc_page c w = (ra, c', w') \<Longrightarrow> w' = w" "cb_free_page c h w = (rf, c', w') \<Longrightarrow> w' = w"
  "cb_store_page lz c h d w = (rs, c', w') \<Longrightarrow> w' = w" "cb_load_page lz c h w = (rl, c', w') \<Longrightarrow> w' = w"
  by (auto simp: mb_ops cb_ops Let_def split: option.splits if_splits)

lemmas local_any_world = mb_contents_def mb_inv_def cb_contents_def cb_inv_def

abbreviation dyn_step :: "lz4_codec \<Rightarrow> (string \<Rightarrow> bool) \<Rightarrow> ('r, net) backend_vt \<Rightarrow>
    'r net_backend \<Rightarrow> net \<Rightarrow> 'r net_backend \<Rightarrow> net \<Rightarrow> bool" where
  "dyn_step lz parse R \<equiv>
     backend_step (dyn_vt lz (net_io parse) R) dyn_bid (dyn_contents lz) dyn_issued (dyn_inv lz) dyn_apart"

lemma dyn_step_memory:
  "backend_step mb_vt mb_backend_id mb_contents mb_issued mb_inv (\<lambda>_ _. True) m w m' w \<Longrightarrow>
   dyn_step lz parse R (DynMemory m) w (DynMemory m') w"
  by (simp add: backend_step_def dyn_vt_def Let_def)

lemma dyn_step_compress:
  "backend_step (cb_vt lz) cb_backend_id (cb_contents lz) cb_issued (cb_inv lz) (\<lambda>_ _. True) c w c' w \<Longrightarrow>
   dyn_step lz parse R (DynCompress c) w (DynCompress c') w"
  by (simp add: backend_step_def dyn_vt_def Let_def)

lemma dyn_step_tcp:
  assumes "backend_step (tb_vt (net_io parse)) tb_backend_id tb_contents tb_issued tb_inv tb_apart t w t' w'"
  shows "dyn_step lz parse R (DynTcp t) w (DynTcp t') w'"
proof -
  have "dyn_apart (DynTcp t') c \<and> (dyn_inv lz c w \<longrightarrow> dyn_contents lz c w' = dyn_contents lz c w \<and> dyn_inv lz c w')"
    if "dyn_apart (DynTcp t) c" for c :: "'a net_backend"
    using assms that unfolding backend_step_def by (cases c) (auto simp: local_any_world)
  with assms show ?thesis by (auto simp: backend_step_def dyn_vt_def Let_def)
qed

lemmas dyn_steps = dyn_step_memory dyn_step_compress dyn_step_tcp

lemma dyn_vt_simps [simp]:
  "vt_alloc_page (dyn_vt lz io R) (DynMemory m) w = lift_dyn DynMemory (mb_alloc_page m w)"
  "vt_alloc_page (dyn_vt lz io R) (DynCompress c) w = lift_dyn DynCompress (cb_alloc_page c w)"
  "vt_alloc_page (dyn_vt lz io R) (DynTcp t) w = lift_dyn DynTcp (tb_alloc_page io t w)"
  "vt_free_page (dyn_vt lz io R) (DynMemory m) h w = lift_dyn DynMemory (mb_free_page m h w)"
  "vt_free_page (dyn_vt lz io R) (DynCompress c) h w = lift_dyn DynCompress (cb_free_page c h w)"
  "vt_free_page (dyn_vt lz io R) (DynTcp t) h w = lift_dyn DynTcp (tb_free_page io t h w)"
  "vt_store_page (dyn_vt lz io R) (DynMemory m) h d w = lift_dyn DynMemory (mb_store_page m h d w)"
  "vt_store_page (dyn_vt lz io R) (DynCompress c) h d w = lift_dyn DynCompress (cb_store_page lz c h d w)"
  "vt_store_page (dyn_vt lz io R) (DynTcp t) h d w = lift_dyn DynTcp (tb_store_page io t h d w)"
  "vt_load_page (dyn_vt lz io R) (DynMemory m) h w = lift_dyn DynMemory (mb_load_page m h w)"
  "vt_load_page (dyn_vt lz io R) (DynCompress c) h w = lift_dyn DynCompress (cb_load_page lz c h w)"
  "vt_load_page (dyn_vt lz io R) (DynTcp t) h w = lift_dyn DynTcp (tb_load_page io t h w)"
  "vt_capacity (dyn_vt lz io R) (DynMemory m) = mb_capacity m"
  "vt_capacity (dyn_vt lz io R) (DynCompress c) = cb_capacity c"
  "vt_capacity (dyn_vt lz io R) (DynTcp t) = tb_capacity t"
  "vt_is_healthy (dyn_vt lz io R) (DynMemory m) = True"
  "vt_is_healthy (dyn_vt lz io R) (DynCompress c) = True"
  "vt_is_healthy (dyn_vt lz io R) (DynTcp t) = tb_is_healthy t"
  "vt_tier (dyn_vt lz io R) (DynMemory m) = Compressed"
  "vt_tier (dyn_vt lz io R) (DynCompress c) = Compressed"
  "vt_tier (dyn_vt lz io R) (DynTcp t) = Rdma"
  by (simp_all add: dyn_vt_def Let_def)

lemma dyn_alloc_law:
  assumes "dyn_inv lz b w" and "vt_alloc_page (dyn_vt lz (net_io parse) R) b w = (r, b', w')" and "r \<noteq> Panic"
  shows "dyn_step lz parse R b w b' w' \<and> dyn_contents lz b' w' = dyn_contents lz b w \<and>
     (\<forall>h. r = Ok h \<longrightarrow> ph_backend_id h = dyn_bid b \<and>
        \<not> dyn_issued b w (ph_offset h) \<and> dyn_issued b' w' (ph_offset h))"
proof (cases b)
  case (DynMemory m)
  then obtain m' where "mb_alloc_page m w = (r, m', w')" "b' = DynMemory m'"
    using assms(2) by (auto split: prod.splits)
  then show ?thesis
    using DynMemory assms(1,3) local_world(1) [of m w r m' w'] mb.alloc_law [of m w r m' w']
    by (auto intro: dyn_step_memory)
next
  case (DynCompress c)
  then obtain c' where "cb_alloc_page c w = (r, c', w')" "b' = DynCompress c'"
    using assms(2) by (auto split: prod.splits)
  then show ?thesis
    using DynCompress assms(1,3) local_world(5) [of c w r c' w'] cb.alloc_law [of lz c w r c' w']
    by (auto intro: dyn_step_compress)
next
  case (DynTcp t)
  then obtain t' where "tb_alloc_page (net_io parse) t w = (r, t', w')" "b' = DynTcp t'"
    using assms(2) by (auto split: prod.splits)
  then show ?thesis
    using DynTcp assms(1,3) tb.alloc_law [of t w parse r t' w'] by (auto intro: dyn_step_tcp)
qed (use assms(1) in simp)

lemma dyn_store_law:
  assumes "dyn_inv lz b w" and "is_page d" and "dyn_issued b w (ph_offset h)"
    and "vt_store_page (dyn_vt lz (net_io parse) R) b h d w = (r, b', w')" and "r \<noteq> Panic"
  shows "dyn_step lz parse R b w b' w' \<and>
     (\<forall>x. x \<noteq> ph_offset h \<longrightarrow> dyn_contents lz b' w' x = dyn_contents lz b w x) \<and>
     (is_ok r \<longrightarrow> dyn_contents lz b' w' (ph_offset h) = Some d)"
proof (cases b)
  case (DynMemory m)
  then obtain m' where "mb_store_page m h d w = (r, m', w')" "b' = DynMemory m'"
    using assms(4) by (auto split: prod.splits)
  then show ?thesis
    using DynMemory assms(1,2,3,5) local_world(3) [of m h d w r m' w'] mb.store_law [of m w d h r m' w']
    by (auto intro: dyn_step_memory)
next
  case (DynCompress c)
  then obtain c' where "cb_store_page lz c h d w = (r, c', w')" "b' = DynCompress c'"
    using assms(4) by (auto split: prod.splits)
  then show ?thesis
    using DynCompress assms(1,2,3,5) local_world(7) [of lz c h d w r c' w'] cb.store_law [of lz c w d h r c' w']
    by (auto intro: dyn_step_compress)
next
  case (DynTcp t)
  then obtain t' where "tb_store_page (net_io parse) t h d w = (r, t', w')" "b' = DynTcp t'"
    using assms(4) by (auto split: prod.splits)
  then show ?thesis
    using DynTcp assms(1,2,3,5) tb.store_law [of t w d h parse r t' w'] by (auto intro: dyn_step_tcp)
qed (use assms(1) in simp)

lemma dyn_load_law:
  assumes "dyn_inv lz b w" and "vt_load_page (dyn_vt lz (net_io parse) R) b h w = (r, b', w')" and "r \<noteq> Panic"
  shows "dyn_step lz parse R b w b' w' \<and> dyn_contents lz b' w' = dyn_contents lz b w \<and>
     (\<forall>d. r = Ok d \<longrightarrow> dyn_contents lz b w (ph_offset h) = Some d)"
proof (cases b)
  case (DynMemory m)
  then obtain m' where "mb_load_page m h w = (r, m', w')" "b' = DynMemory m'"
    using assms(2) by (auto split: prod.splits)
  then show ?thesis
    using DynMemory assms(1,3) local_world(4) [of m h w r m' w'] mb.load_law [of m w h r m' w']
    by (auto intro: dyn_step_memory)
next
  case (DynCompress c)
  then obtain c' where "cb_load_page lz c h w = (r, c', w')" "b' = DynCompress c'"
    using assms(2) by (auto split: prod.splits)
  then show ?thesis
    using DynCompress assms(1,3) local_world(8) [of lz c h w r c' w'] cb.load_law [of lz c w h r c' w']
    by (auto intro: dyn_step_compress)
next
  case (DynTcp t)
  then obtain t' where "tb_load_page (net_io parse) t h w = (r, t', w')" "b' = DynTcp t'"
    using assms(2) by (auto split: prod.splits)
  then show ?thesis
    using DynTcp assms(1,3) tb.load_law [of t w parse h r t' w'] by (auto intro: dyn_step_tcp)
qed (use assms(1) in simp)

lemma dyn_free_law:
  assumes "dyn_inv lz b w" and "vt_free_page (dyn_vt lz (net_io parse) R) b h w = (r, b', w')" and "r \<noteq> Panic"
  shows "dyn_step lz parse R b w b' w' \<and>
     (\<forall>x. x \<noteq> ph_offset h \<longrightarrow> dyn_contents lz b' w' x = dyn_contents lz b w x) \<and>
     (is_ok r \<longrightarrow> dyn_contents lz b' w' (ph_offset h) = None)"
proof (cases b)
  case (DynMemory m)
  then obtain m' where "mb_free_page m h w = (r, m', w')" "b' = DynMemory m'"
    using assms(2) by (auto split: prod.splits)
  then show ?thesis
    using DynMemory assms(1,3) local_world(2) [of m h w r m' w'] mb.free_law [of m w h r m' w']
    by (auto intro: dyn_step_memory)
next
  case (DynCompress c)
  then obtain c' where "cb_free_page c h w = (r, c', w')" "b' = DynCompress c'"
    using assms(2) by (auto split: prod.splits)
  then show ?thesis
    using DynCompress assms(1,3) local_world(6) [of c h w r c' w'] cb.free_law [of lz c w h r c' w']
    by (auto intro: dyn_step_compress)
next
  case (DynTcp t)
  then obtain t' where "tb_free_page (net_io parse) t h w = (r, t', w')" "b' = DynTcp t'"
    using assms(2) by (auto split: prod.splits)
  then show ?thesis
    using DynTcp assms(1,3) tb.free_law [of t w parse h r t' w'] by (auto intro: dyn_step_tcp)
qed (use assms(1) in simp)

interpretation dyn: engine_on "dyn_vt lz (net_io parse) R" dyn_bid "dyn_contents lz" dyn_issued
  "dyn_inv lz" dyn_apart net_now
  for lz parse R
proof (unfold_locales, goal_cases)
  case (1 b c)
  then show ?case by (cases "(b, c)" rule: dyn_apart.cases) (auto dest: tb.apart_sym)
next
  case (2 b w x d)
  then show ?case by (cases b) (auto intro: mb.contents_issued cb.contents_issued tb.contents_issued)
next
  case (3 b w x d)
  then show ?case by (cases b) (auto intro: mb.contents_page cb.contents_page tb.contents_page)
next
  case (4 b w r b' w')
  then show ?case by (rule dyn_alloc_law)
next
  case (5 b w d h r b' w')
  then show ?case by (rule dyn_store_law)
next
  case (6 b w h r b' w')
  then show ?case by (rule dyn_load_law)
next
  case (7 b w h r b' w')
  then show ?case by (rule dyn_free_law)
next
  case (8 w tm w' b)
  then show ?case
    using net_now_law(2) [OF 8] tb_inv_now [OF 8]
    by (cases b) (auto simp: tb_contents_def fun_eq_iff local_any_world)
qed

section \<open>Local backends\<close>

text \<open>The memory and compression backends alone also keep count and do not fail.\<close>

fun is_local :: "('s, 'r) dyn_backend \<Rightarrow> bool" where
  "is_local (DynMemory m) = True"
| "is_local (DynCompress c) = True"
| "is_local b = False"

definition local_inv :: "lz4_codec \<Rightarrow> 'r net_backend \<Rightarrow> net \<Rightarrow> bool" where
  "local_inv lz b w \<longleftrightarrow> is_local b \<and> dyn_inv lz b w"

fun dyn_exhausted :: "('s, 'r) dyn_backend \<Rightarrow> bool" where
  "dyn_exhausted (DynMemory m) = mb_exhausted m"
| "dyn_exhausted (DynCompress c) = cb_exhausted c"
| "dyn_exhausted b = False"

lemma local_cases:
  assumes "local_inv lz b w"
  obtains (memory) m where "b = DynMemory m" "mb_inv m w"
  | (compress) c where "b = DynCompress c" "cb_inv lz c w"
  using assms by (cases b) (auto simp: local_inv_def)

lemma local_keeps_world:
  assumes "is_local b"
  shows "vt_alloc_page (dyn_vt lz io R) b w = (ra, b', w') \<Longrightarrow> w' = w \<and> is_local b'"
    and "vt_free_page (dyn_vt lz io R) b h w = (rf, b', w') \<Longrightarrow> w' = w \<and> is_local b'"
    and "vt_store_page (dyn_vt lz io R) b h d w = (rs, b', w') \<Longrightarrow> w' = w \<and> is_local b'"
    and "vt_load_page (dyn_vt lz io R) b h w = (rl, b', w') \<Longrightarrow> w' = w \<and> is_local b'"
  using assms by (cases b; auto split: prod.splits dest: local_world)+

lemma local_step:
  assumes "dyn_step lz parse R b w b' w'" and "w' = w \<and> is_local b'"
  shows "backend_step (dyn_vt lz (net_io parse) R) dyn_bid (dyn_contents lz) dyn_issued (local_inv lz)
    dyn_apart b w b' w'"
  using assms by (auto simp: backend_step_def local_inv_def)

interpretation local: engine_on "dyn_vt lz (net_io parse) R" dyn_bid "dyn_contents lz" dyn_issued
  "local_inv lz" dyn_apart net_now
  for lz parse R
proof (unfold_locales, goal_cases)
  case (1 b c)
  then show ?case by (rule dyn.apart_sym)
next
  case (2 b w x d)
  then show ?case by (auto simp: local_inv_def intro: dyn.contents_issued)
next
  case (3 b w x d)
  then show ?case by (auto simp: local_inv_def intro: dyn.contents_page)
next
  case (4 b w r b' w')
  then have "is_local b" "dyn_inv lz b w" by (simp_all add: local_inv_def)
  with dyn_alloc_law [OF _ 4(2,3)] local_keeps_world(1) [OF _ 4(2)] local_step show ?case by blast
next
  case (5 b w d h r b' w')
  then have "is_local b" "dyn_inv lz b w" by (simp_all add: local_inv_def)
  with dyn_store_law [OF _ 5(2-5)] local_keeps_world(3) [OF _ 5(4)] local_step show ?case by blast
next
  case (6 b w h r b' w')
  then have "is_local b" "dyn_inv lz b w" by (simp_all add: local_inv_def)
  with dyn_load_law [OF _ 6(2,3)] local_keeps_world(4) [OF _ 6(2)] local_step show ?case by blast
next
  case (7 b w h r b' w')
  then have "is_local b" "dyn_inv lz b w" by (simp_all add: local_inv_def)
  with dyn_free_law [OF _ 7(2,3)] local_keeps_world(2) [OF _ 7(2)] local_step show ?case by blast
next
  case (8 w tm w' b)
  then show ?case using dyn.clock_law [OF 8] by (auto simp: local_inv_def)
qed

interpretation local: engine_counted "dyn_vt lz (net_io parse) R" dyn_bid "dyn_contents lz" dyn_issued
  "local_inv lz" dyn_apart net_now dyn_exhausted
  for lz parse R
proof (unfold_locales, goal_cases)
  case (1 b w h d)
  then show ?case
    by (cases rule: local_cases) (auto dest: mb.load_total cb.load_total split: prod.splits)
next
  case (2 b w d h)
  then show ?case
    by (cases rule: local_cases) (auto dest: mb.store_total cb.store_total split: prod.splits)
next
  case (3 b w h)
  then show ?case
    by (cases rule: local_cases) (auto simp: mb_free_page_def cb_free_page_def split: option.splits)
next
  case (4 b w)
  then show ?case by (cases rule: local_cases) auto
next
  case (5 b w)
  then show ?case
    by (cases rule: local_cases) (auto dest: mb.alloc_room cb.alloc_room split: prod.splits)
next
  case (6 b w h r b' w')
  then show ?case
    by (cases rule: local_cases) (auto dest: mb.free_exhausted cb.free_exhausted split: prod.splits)
next
  case (7 b w r b' w')
  then show ?case
    by (cases rule: local_cases) (auto dest: mb.cap_alloc cb.cap_alloc split: prod.splits)
next
  case (8 b w h r b' w')
  then show ?case
    by (cases rule: local_cases) (auto dest: mb.cap_load cb.cap_load split: prod.splits)
next
  case (9 b w d h r b' w')
  then show ?case
    by (cases rule: local_cases) (auto dest: mb.cap_store cb.cap_store split: prod.splits)
next
  case (10 b w h r b' w')
  then show ?case
    by (cases rule: local_cases) (auto dest: mb.cap_free cb.cap_free split: prod.splits)
qed

end
