(* ===== verification/Daemon_Start.thy ===== *)
theory Daemon_Start
  imports Daemon_Contract
begin

text \<open>
  The engine that \<^verbatim>\<open>Engine::new\<close> builds satisfies the engine's invariant: for configurations
  that do not use RDMA, with distinct peers, few enough of them for the eight-bit backend
  identifiers.
\<close>

section \<open>The network at start\<close>

definition net_ready :: "net \<Rightarrow> bool" where
  "net_ready w \<longleftrightarrow> net_ok w \<and>
     (\<forall>addr ps. map_of (net_servers w) addr = Some ps \<longrightarrow>
        ps_good ps \<and> unat (ps_next_offset ps) \<le> net_step w)"

lemma net_ready_frame:
  "net_frame addr w w' \<Longrightarrow> net_servers w' = net_servers w \<Longrightarrow> net_ready w \<Longrightarrow> net_ready w'"
  unfolding net_ready_def using net_ok_frame [of addr w w'] by (auto simp: net_frame_def intro: order.trans)

lemma tb_init_law:
  assumes ready: "net_ready w" and run: "tb_init (net_io parse) b cfg w = (r, b', w')"
    and fresh: "cs_stream (tb_conn b) = None"
  shows "net_frame (tb_addr b) w w' \<and> net_servers w' = net_servers w \<and> r \<noteq> Panic \<and>
     (is_ok r \<longrightarrow> tb_inv b' w') \<and> tb_addr b' = tb_addr b \<and> tb_backend_id b' = tb_backend_id b"
proof -
  obtain x w1 where x: "net_connect (tb_addr b) w = (x, w1)" by (cases "net_connect (tb_addr b) w")
  note X = net_connect_law [OF x]
  show ?thesis
  proof (cases x)
    case None
    then show ?thesis using run x X fresh by (auto simp: tb_init_def Let_def split: if_splits)
  next
    case (Some s)
    obtain y w2 where y: "net_poll s w1 = (y, w2)" by (cases "net_poll s w1")
    note P = net_poll_law [OF conn_is_at [OF X(3) [OF Some]] y]
    have F: "net_frame (tb_addr b) w w2" using X(1) P(1) net_frame_trans by blast
    have S: "net_servers w2 = net_servers w" using X(2) P(2) by simp
    from x Some obtain ps where "map_of (net_servers w) (tb_addr b) = Some ps"
      by (auto simp: net_connect_def split: if_splits)
    with net_ready_frame [OF F S ready] S have sv: "server_ok (tb_addr b) ps w2"
      by (simp add: net_ready_def server_ok_def)
    have c: "idle s (tb_addr b) w2" if y using X(3) [OF Some] P(4) [OF that] by (simp add: idleI)
    show ?thesis
      using run x y Some X P F S sv c
      by (cases y) (auto simp: tb_init_def tb_inv_def Let_def split: if_splits)
  qed
qed

section \<open>The map under construction\<close>

text \<open>The TCP backends of the map are for addresses of \<open>A\<close>, and \<open>n\<close> is the next identifier.\<close>

definition build_ok :: "lz4_codec \<Rightarrow> string set \<Rightarrow> (nat, 'r, net) build \<Rightarrow> bool" where
  "build_ok lz A s \<longleftrightarrow>
     (case s of (bs, n, w) \<Rightarrow>
      net_ready w \<and> hm_ok bs \<and>
      (\<forall>i b. map_of bs i = Some b \<longrightarrow> i < n \<and> dyn_bid b = i \<and> dyn_inv lz b w) \<and>
      (\<forall>i t. map_of bs i = Some (DynTcp t) \<longrightarrow> tb_addr t \<in> A) \<and>
      (\<forall>i j b c. map_of bs i = Some b \<longrightarrow> map_of bs j = Some c \<longrightarrow> i \<noteq> j \<longrightarrow> dyn_apart b c))"

lemma build_ok_insert:
  assumes ok: "build_ok lz A (bs, n, w)" and n: "n < n + 1" and b: "dyn_bid b = n" "dyn_inv lz b w'"
    and w: "net_ready w'"
    and keep: "\<And>i c. map_of bs i = Some c \<Longrightarrow> dyn_inv lz c w \<Longrightarrow> dyn_inv lz c w' \<and> dyn_apart b c \<and> dyn_apart c b"
    and A: "A \<subseteq> B" "\<And>t. b = DynTcp t \<Longrightarrow> tb_addr t \<in> B"
  shows "build_ok lz B (AList.update n b bs, n + 1, w')"
  unfolding build_ok_def prod.case
proof (intro conjI allI impI)
  have le: "i < n + 1" if "i < n" for i using that n by (rule order.strict_trans)
  show "net_ready w'" by (rule w)
  show "hm_ok (AList.update n b bs)" using ok by (simp add: build_ok_def)
  fix i c assume "map_of (AList.update n b bs) i = Some c"
  then show "i < n + 1" "dyn_bid c = i" "dyn_inv lz c w'"
    using ok b n le keep by (auto simp: build_ok_def split: if_splits)
next
  fix i t assume "map_of (AList.update n b bs) i = Some (DynTcp t)"
  then show "tb_addr t \<in> B" using ok A by (auto simp: build_ok_def split: if_splits)
next
  fix i j c d assume "map_of (AList.update n b bs) i = Some c" "map_of (AList.update n b bs) j = Some d" "i \<noteq> j"
  then show "dyn_apart c d" using ok keep by (auto simp: build_ok_def split: if_splits)
qed

text \<open>Adding a local backend always succeeds.\<close>

lemma try_add_local:
  assumes ok: "build_ok lz A (bs, n, w)" and n: "n < n + 1" and mk: "mk n = DynMemory (mb_new n) \<or>
      mk n = DynCompress (cb_new n) \<and> lz4_roundtrip lz"
  shows "\<exists>b. try_add (dyn_vt lz (net_io parse) R) mk k (bs, n, w) = (Ok (), AList.update n b bs, n + 1, w) \<and>
     build_ok lz A (AList.update n b bs, n + 1, w)"
proof -
  have ready: "net_ready w" using ok by (simp add: build_ok_def)
  let ?b = "if mk n = DynMemory (mb_new n) then DynMemory ((mb_new n)\<lparr>mb_max_pages := k\<rparr>)
    else DynCompress ((cb_new n)\<lparr>cb_max_pages := k\<rparr>) :: 'a net_backend"
  have "try_add (dyn_vt lz (net_io parse) R) mk k (bs, n, w) = (Ok (), AList.update n ?b bs, n + 1, w)"
    using mk by (auto simp: try_add_def dyn_vt_def Let_def mb_init_def cb_init_def)
  moreover have "build_ok lz A (AList.update n ?b bs, n + 1, w)"
  proof (rule build_ok_insert [OF ok n _ _ ready])
    show "dyn_bid ?b = n" using mk by (auto simp: mb_new_def cb_new_def)
    show "dyn_inv lz ?b w" using mk by (auto simp: mb_new_def cb_new_def mb_inv_def cb_inv_def)
    show "dyn_inv lz c w \<and> dyn_apart ?b c \<and> dyn_apart c ?b" if "dyn_inv lz c w" for c
      using that by (cases c) auto
  qed (auto split: if_splits)
  ultimately show ?thesis by blast
qed

text \<open>Adding a TCP backend for a new address succeeds or changes nothing but the world.\<close>

lemma try_add_tcp:
  assumes ok: "build_ok lz A (bs, n, w)" and n: "n < n + 1" and new: "addr \<notin> A"
    and run: "try_add (dyn_vt lz (net_io parse) R) (\<lambda>i. DynTcp (tb_new i addr)) k (bs, n, w) = (r, bs', n', w')"
  shows "r \<noteq> Panic \<and> build_ok lz (insert addr A) (bs', n', w') \<and> (n' = n \<or> n' = n + 1)"
proof -
  let ?t = "tb_new n addr :: nat tcp_backend"
  have ready: "net_ready w" using ok by (simp add: build_ok_def)
  obtain r1 t w1 where i: "tb_init (net_io parse) ?t \<lparr>bc_max_pages = k\<rparr> w = (r1, t, w1)"
    by (cases "tb_init (net_io parse) ?t \<lparr>bc_max_pages = k\<rparr> w") auto
  have T: "net_frame addr w w1" "net_servers w1 = net_servers w" "r1 \<noteq> Panic" "is_ok r1 \<Longrightarrow> tb_inv t w1"
    "tb_addr t = addr" "tb_backend_id t = n"
    using tb_init_law [OF ready i] by (auto simp: tb_new_def)
  have ready1: "net_ready w1" by (rule net_ready_frame [OF T(1,2) ready])
  have keep: "dyn_inv lz c w1 \<and> dyn_apart (DynTcp t) c \<and> dyn_apart c (DynTcp t)"
    if "map_of bs i = Some c" "dyn_inv lz c w" for i c
  proof (cases c)
    case (DynTcp u)
    then have "tb_addr u \<noteq> addr" using ok that new by (auto simp: build_ok_def)
    then show ?thesis using DynTcp that(2) tb_frame(1) [OF T(1)] T(5) by (auto simp: tb_apart_def)
  qed (use that in \<open>auto simp: local_any_world\<close>)
  show ?thesis
  proof (cases r1)
    case (Ok u)
    then have "r = Ok ()" "bs' = AList.update n (DynTcp t) bs" "n' = n + 1" "w' = w1"
      using run i by (auto simp: try_add_def dyn_vt_def Let_def)
    moreover have "build_ok lz (insert addr A) (AList.update n (DynTcp t) bs, n + 1, w1)"
      using T Ok by (intro build_ok_insert [OF ok n _ _ ready1 keep]) auto
    ultimately show ?thesis by simp
  next
    case (Err e)
    then have "r = Err e" "bs' = bs" "n' = n" "w' = w1"
      using run i by (auto simp: try_add_def dyn_vt_def Let_def)
    then show ?thesis using ok keep ready1 by (auto simp: build_ok_def)
  qed (use T(3) in simp)
qed

lemma id_room: "unat n < 255 \<Longrightarrow> n < n + 1 \<and> unat (n + 1) = Suc (unat (n :: u8))"
proof -
  assume "unat n < 255"
  then have "n < 255" by (simp add: word_less_nat_alt)
  then have "unat (n + 1) = Suc (unat n)" by (rule unat_inc)
  then show ?thesis by (simp add: word_less_nat_alt)
qed

lemma add_peers_ok:
  assumes "build_ok lz A (bs, n, w)" and "\<not> use_rdma transport avail" and "distinct addrs"
    and "set addrs \<inter> A = {}" and "unat n + length addrs \<le> 255"
  shows "\<exists>B bs' n' w'. add_peers (dyn_vt lz (net_io parse) R) rdma_new transport avail k addrs (bs, n, w) =
     (False, bs', n', w') \<and> build_ok lz B (bs', n', w')"
  using assms
proof (induction addrs arbitrary: A bs n w)
  case Nil
  then show ?case by auto
next
  case (Cons addr addrs)
  let ?V = "dyn_vt lz (net_io parse) R :: ('a net_backend, net) backend_vt"
  obtain r bs1 n1 w1 where add: "try_add ?V (\<lambda>i. DynTcp (tb_new i addr)) k (bs, n, w) = (r, bs1, n1, w1)"
    by (cases "try_add ?V (\<lambda>i. DynTcp (tb_new i addr)) k (bs, n, w)") auto
  have room: "n < n + 1" "unat (n + 1) = Suc (unat n)" using id_room [of n] Cons.prems(5) by auto
  have A: "r \<noteq> Panic" "build_ok lz (insert addr A) (bs1, n1, w1)" "n1 = n \<or> n1 = n + 1"
    using try_add_tcp [OF Cons.prems(1) room(1) _ add] Cons.prems(4) by auto
  have "use_tcp transport avail"
    using Cons.prems(2) by (auto simp: use_rdma_def use_tcp_def split: if_splits)
  then have "add_peer ?V rdma_new transport avail k addr (bs, n, w) = (False, bs1, n1, w1)"
    using Cons.prems(2) add A(1) by (simp add: add_peer_def Let_def)
  moreover have "\<exists>B bs' n' w'. add_peers ?V rdma_new transport avail k addrs (bs1, n1, w1) =
     (False, bs', n', w') \<and> build_ok lz B (bs', n', w')"
    using Cons.prems A(3) room(2) by (intro Cons.IH [OF A(2)]) auto
  ultimately show ?case by simp
qed

section \<open>Starting the engine\<close>

text \<open>Configurations that use no RDMA, with distinct peers and identifiers for all of them.\<close>

definition tcp_only :: "bool \<Rightarrow> daemon_config \<Rightarrow> bool" where
  "tcp_only avail config \<longleftrightarrow>
     (case bs_remote (dc_backends config) of
        None \<Rightarrow> True
      | Some cfg \<Rightarrow> rbc_enabled cfg \<longrightarrow>
          \<not> use_rdma (rbc_transport cfg) avail \<and> distinct (rbc_peers cfg) \<and> length (rbc_peers cfg) \<le> 253)"

lemma add_memory_ok:
  assumes "build_ok lz A (bs, 0, w)"
  shows "\<exists>bs' n'. add_memory (dyn_vt lz (net_io parse) R) sec (bs, 0, w) = (Ok (), bs', n', w) \<and>
     build_ok lz A (bs', n', w) \<and> unat n' \<le> 1"
  using try_add_local [OF assms, of "\<lambda>i. DynMemory (mb_new i)"] assms
  by (fastforce simp: add_memory_def split: option.splits)

lemma add_compress_ok:
  assumes "build_ok lz A (bs, n, w)" and "unat n \<le> 1" and "lz4_roundtrip lz"
  shows "\<exists>bs' n'. add_compress (dyn_vt lz (net_io parse) R) sec (bs, n, w) = (Ok (), bs', n', w) \<and>
     build_ok lz A (bs', n', w) \<and> unat n' \<le> 2"
  using try_add_local [OF assms(1), of "\<lambda>i. DynCompress (cb_new i)"] assms id_room [of n]
  by (fastforce simp: add_compress_def split: option.splits)

lemma add_remote_ok:
  assumes ok: "build_ok lz {} (bs, n, w)" and n: "unat n \<le> 2" and cfg: "tcp_only avail config"
  shows "\<exists>B bs' n' w'. add_remote (dyn_vt lz (net_io parse) R) rdma_new avail (dc_backends config) (bs, n, w) =
     (Ok (), bs', n', w') \<and> build_ok lz B (bs', n', w')"
proof (cases "bs_remote (dc_backends config)")
  case None
  then show ?thesis using ok by (auto simp: add_remote_def)
next
  case (Some r)
  show ?thesis
  proof (cases "rbc_enabled r")
    case False
    then show ?thesis using Some ok by (auto simp: add_remote_def)
  next
    case True
    with cfg Some have r: "\<not> use_rdma (rbc_transport r) avail" "distinct (rbc_peers r)" "length (rbc_peers r) \<le> 253"
      by (auto simp: tcp_only_def)
    then have "rbc_transport r \<noteq> ''rdma''" by (auto simp: use_rdma_def)
    with True Some add_peers_ok [OF ok r(1,2), of parse R rdma_new "rbc_max_pages_per_peer r"] n r(3)
    show ?thesis by (fastforce simp: add_remote_def)
  qed
qed

lemma engine_new_ok:
  assumes ready: "net_ready w" and lz: "lz4_roundtrip lz" and cfg: "tcp_only avail config"
  shows "\<exists>e w'. engine_new (dyn_vt lz (net_io parse) R) rdma_new avail config w = (Ok e, w') \<and>
     eng_ok dyn_bid (dyn_contents lz) (dyn_inv lz) dyn_apart e w' \<and>
     eng_abs (dyn_contents lz) e w' = Map.empty \<and> eng_policy e = policy_new Lru \<and> eng_stats e = stats_new"
proof -
  let ?V = "dyn_vt lz (net_io parse) R :: ('a net_backend, net) backend_vt"
  have "build_ok lz {} ([], 0, w)" using ready by (simp add: build_ok_def)
  from add_memory_ok [OF this, of parse R "dc_backends config"] obtain bs1 n1 where
    m: "add_memory ?V (dc_backends config) ([], 0, w) = (Ok (), bs1, n1, w)"
    "build_ok lz {} (bs1, n1, w)" "unat n1 \<le> 1" by blast
  from add_compress_ok [OF m(2,3) lz, of parse R "dc_backends config"] obtain bs2 n2 where
    c: "add_compress ?V (dc_backends config) (bs1, n1, w) = (Ok (), bs2, n2, w)"
    "build_ok lz {} (bs2, n2, w)" "unat n2 \<le> 2" by blast
  from add_remote_ok [OF c(2,3) cfg, of parse R rdma_new] obtain B bs3 n3 w3 where
    r: "add_remote ?V rdma_new avail (dc_backends config) (bs2, n2, w) = (Ok (), bs3, n3, w3)"
    "build_ok lz B (bs3, n3, w3)" by blast
  let ?e = "with_backends config bs3"
  have "engine_new ?V rdma_new avail config w = (Ok ?e, w3)"
    by (simp add: engine_new_def m(1) c(1) r(1))
  moreover have "eng_ok dyn_bid (dyn_contents lz) (dyn_inv lz) dyn_apart ?e w3"
    using r(2) by (intro eng_okI) (auto simp: build_ok_def with_backends_def policy_lookup_def policy_new_def policy_ok_def)
  moreover have "eng_abs (dyn_contents lz) ?e w3 = Map.empty"
    by (simp add: eng_abs_def with_backends_def policy_lookup_def policy_new_def fun_eq_iff)
  ultimately show ?thesis by (auto simp: with_backends_def)
qed

end
