(* ===== verification/Swap_System.thy ===== *)
theory Swap_System
  imports Swap_Device Daemon_Start
begin

unbundle bit_operations_syntax

text \<open>
  Runs of the swap device from its start: \<^verbatim>\<open>duvm_init\<close> sets up the ring, the daemon builds its
  engine and opens the control device, and then requests, service and completions interleave. Also
  the layout of the region the two sides share.
\<close>


section \<open>Runs\<close>

inductive swap_run ::
  "('b, 'w) backend_vt \<Rightarrow> ('w \<Rightarrow> instant \<times> 'w) \<Rightarrow> page_order \<Rightarrow> kmod_consumer \<Rightarrow>
   ('b, 'w) machine \<Rightarrow> swap_event list \<Rightarrow> ('b, 'w) machine \<Rightarrow> bool"
  for V now it kc where
  run_nil: "swap_run V now it kc s [] s"
| run_step: "swap_step V now it kc s ev s' \<Longrightarrow> swap_run V now it kc s' evs s'' \<Longrightarrow>
    swap_run V now it kc s (ev # evs) s''"

inductive spec_run :: "dev_spec \<Rightarrow> swap_event list \<Rightarrow> dev_spec \<Rightarrow> bool" where
  spec_nil: "spec_run m [] m"
| spec_cons: "spec_step m ev m' \<Longrightarrow> spec_run m' evs m'' \<Longrightarrow> spec_run m (ev # evs) m''"

context engine_on
begin

lemma swap_run_refines:
  assumes "swap_run V now it kc s evs s'" and "permutes_entries it" and "in_step kc s m"
  shows "\<exists>m'. spec_run m evs m' \<and> in_step kc s' m'"
  using assms
proof (induction arbitrary: m rule: swap_run.induct)
  case (run_nil s)
  then show ?case using spec_nil by blast
next
  case (run_step s ev s' evs s'')
  then obtain m' where "spec_step m ev m'" "in_step kc s' m'" using swap_simulation by blast
  with run_step.IH [OF run_step.prems(1)] show ?case using spec_cons by blast
qed

end

section \<open>The ring at the start\<close>

definition empty_spec :: dev_spec where
  "empty_spec = \<lparr>sp_pages = Map.empty, sp_pending = Map.empty, sp_done = Map.empty\<rparr>"

lemma unat_ucast_u64: "unat (ucast (c :: u32) :: u64) = unat c"
proof -
  have "unat c < 2 ^ 64" using unsigned_less [of c, where ?'a = nat] by simp
  then show ?thesis by (simp add: unsigned_ucast_eq take_bit_nat_eq_self)
qed

lemma unat_ucast_mult:
  assumes "unat c * k < 2 ^ 64"
  shows "unat (ucast (c :: u32) * of_nat k :: u64) = unat c * k"
proof -
  have "(ucast c * of_nat k :: u64) = of_nat (unat c * k)" by simp
  then show ?thesis using unat_of_nat_len [of "unat c * k", where ?'a = 64] assms by simp
qed

lemma ucast_ucast_u32 [simp]: "(ucast (ucast (c :: u32) :: u64) :: u32) = c"
  by (rule bit_word_eqI) (simp add: bit_simps)

lemma ring_init_facts:
  assumes init: "duvm_ring_init ok cap (ucast cap) = (Inr r, ps)" and cap: "is_power_of_2 cap" "unat cap < 2 ^ 31"
  shows "kring_ok r" "req_queue r = []" "comp_queue r = []" "\<not> dr_daemon_connected r" "ring_cap r = unat cap"
    "hdr_capacity (dr_header r) = cap" "hdr_version (dr_header r) = 2" "hdr_staging_pages (dr_header r) = cap"
    "ring_sizes cap (ucast cap) = (4096, PAGE_ALIGN (ucast cap * 64), PAGE_ALIGN (ucast cap * 64), ucast cap * 4096, dr_ring_size r)"
proof -
  have pos: "0 < unat cap" using cap(1) by (rule power_of_2_cases) simp
  then have pos': "0 < cap" by (simp add: word_less_nat_alt)
  have u: "unat (ucast cap :: u64) = unat cap" by (rule unat_ucast_u64)
  have "unat ((ucast cap :: u64) * 4096) = unat cap * 4096"
    using unat_ucast_mult [of cap 4096] cap(2) by simp
  then have len: "unat ((ucast cap :: u64) * 4096) = unat (ucast cap :: u64) * PAGE_SIZE" using u by (simp add: PAGE_SIZE_def)
  show "kring_ok r" "req_queue r = []" "comp_queue r = []" "\<not> dr_daemon_connected r" "ring_cap r = unat cap"
    "hdr_capacity (dr_header r) = cap" "hdr_version (dr_header r) = 2" "hdr_staging_pages (dr_header r) = cap"
    "ring_sizes cap (ucast cap) = (4096, PAGE_ALIGN (ucast cap * 64), PAGE_ALIGN (ucast cap * 64), ucast cap * 4096, dr_ring_size r)"
    using init pos' cap u len pos
    by (auto simp: duvm_ring_init_def ring_sizes_def Let_def kring_ok_def req_queue_def comp_queue_def ring_cap_def
        split: if_splits)
qed


section \<open>Layout of the shared region\<close>

lemma unat_PAGE_ALIGN:
  assumes "unat x + 4095 < 2 ^ 64"
  shows "unat (PAGE_ALIGN x) = (unat x + 4095) div 4096 * 4096"
proof -
  have "unat (x + 4095) = unat x + 4095" using assms by (simp add: unat_word_ariths)
  then show ?thesis using unat_page_start [of "x + 4095"] by (simp add: PAGE_ALIGN_def)
qed

lemma align_up_page: "align_up x 4096 = PAGE_ALIGN x"
  by (simp add: align_up_def PAGE_ALIGN_def add_diff_eq [symmetric])


lemma ring_size_nat:
  assumes "unat (cap :: u32) < 2 ^ 31"
  shows "unat (PAGE_ALIGN (ucast cap * 64)) = (unat cap * 64 + 4095) div 4096 * 4096"
    and "unat (4096 + PAGE_ALIGN (ucast cap * 64)) = 4096 + (unat cap * 64 + 4095) div 4096 * 4096"
    and "unat (4096 + PAGE_ALIGN (ucast cap * 64) + PAGE_ALIGN (ucast cap * 64)) = 4096 + 2 * ((unat cap * 64 + 4095) div 4096 * 4096)"
    and "unat (4096 + PAGE_ALIGN (ucast cap * 64) + PAGE_ALIGN (ucast cap * 64) + ucast cap * 4096 :: u64) =
      4096 + 2 * ((unat cap * 64 + 4095) div 4096 * 4096) + unat cap * 4096"
proof -
  have "unat (ucast cap * 64 :: u64) = unat cap * 64" using unat_ucast_mult [of cap 64] assms by simp
  then show a: "unat (PAGE_ALIGN (ucast cap * 64)) = (unat cap * 64 + 4095) div 4096 * 4096"
    using assms by (subst unat_PAGE_ALIGN) simp_all
  let ?a = "(unat cap * 64 + 4095) div 4096 * 4096"
  have le: "?a \<le> unat cap * 64 + 4095" by simp
  have m: "unat (ucast cap * 4096 :: u64) = unat cap * 4096" using unat_ucast_mult [of cap 4096] assms by simp
  show b: "unat (4096 + PAGE_ALIGN (ucast cap * 64)) = 4096 + ?a"
    using le assms by (subst unat_add_lem [THEN iffD1]) (simp_all add: a)
  show c: "unat (4096 + PAGE_ALIGN (ucast cap * 64) + PAGE_ALIGN (ucast cap * 64)) = 4096 + 2 * ?a"
    using le assms by (subst unat_add_lem [THEN iffD1]) (simp_all add: a b)
  show "unat (4096 + PAGE_ALIGN (ucast cap * 64) + PAGE_ALIGN (ucast cap * 64) + ucast cap * 4096 :: u64) =
      4096 + 2 * ?a + unat cap * 4096"
    using le assms c m by (subst unat_add_lem [THEN iffD1]) simp_all
qed


lemma consumer_open_ring:
  assumes init: "duvm_ring_init ok cap (ucast cap) = (Inr r, ps)" and cap: "is_power_of_2 cap" "unat cap < 2 ^ 31"
  shows "consumer_open True (\<lambda>n. n \<le> dr_ring_size r) (dr_header r) =
    Inr \<lparr>kc_mmap_len = dr_ring_size r, kc_requests = 4096, kc_completions = 4096 + PAGE_ALIGN (ucast cap * 64),
      kc_staging = 4096 + PAGE_ALIGN (ucast cap * 64) + PAGE_ALIGN (ucast cap * 64),
      kc_capacity = cap, kc_mask = cap - 1\<rparr>"
proof -
  note F = ring_init_facts [OF assms]
  have total: "dr_ring_size r = 4096 + PAGE_ALIGN (ucast cap * 64) + PAGE_ALIGN (ucast cap * 64) + ucast cap * 4096"
    using F(9) by (simp add: ring_sizes_def Let_def)
  have "(4096 :: u64) \<le> dr_ring_size r"
    unfolding word_le_nat_alt total ring_size_nat(4) [OF cap(2)] by simp
  then show ?thesis using F(6-8) total
    by (simp add: consumer_open_def read_u32_def HDR_CAPACITY_def HDR_VERSION_def HDR_STAGING_PAGES_def align_up_page Let_def)
qed

section \<open>The system at the start\<close>

definition boot :: "u32 \<Rightarrow> duvm_ring \<Rightarrow> 'b engine \<Rightarrow> 'w \<Rightarrow> ('b, 'w) machine" where
  "boot cap r e w =
     \<lparr>sm_dev = snd (duvm_ctl_open Thread (initial_device cap r)), sm_busy = {}, sm_engine = e, sm_world = w\<rparr>"

lemma boot_rel:
  assumes init: "duvm_ring_init ok cap (ucast cap) = (Inr r, ps)" and cap: "is_power_of_2 cap" "unat cap < 2 ^ 31"
    and kc: "consumer_open True (\<lambda>n. n \<le> dr_ring_size r) (dr_header r) = Inr kc"
    and e: "eok e w" "epages e w = Map.empty"
  shows "machine_rel eok epages kc (boot cap r e w) empty_spec"
proof -
  note F = ring_init_facts [OF init cap]
  let ?r = "r\<lparr>dr_daemon_connected := True\<rparr>"
  have dev: "sm_dev (boot cap r e w) = (initial_device cap r)\<lparr>dd_ring := ?r, dd_comp_thread := Thread\<rparr>"
    using F(4) by (simp add: boot_def duvm_ctl_open_def initial_device_def Let_def)
  have q: "kring_ok ?r" "req_queue ?r = []" "comp_queue ?r = []" "ring_cap ?r = unat cap"
    using F(1-3,5) by (simp_all add: kring_ok_def req_queue_def comp_queue_def ring_cap_def)
  have "0 < unat cap" using cap(1) by (rule power_of_2_cases) simp
  then have "dev_rel [] [] (sm_dev (boot cap r e w)) empty_spec"
    unfolding dev using q cap(2) by (intro dev_relI) (simp_all add: empty_spec_def initial_device_def)
  moreover have "kc_mask kc = cap - 1" using consumer_open_ring [OF init cap] kc by auto
  ultimately show ?thesis using e F(6)
    unfolding machine_rel_def by (intro conjI exI [of _ "[]"]) (simp_all add: dev, simp_all add: boot_def empty_spec_def)
qed

section \<open>Slots are not lost\<close>

definition slots_exact :: "nat set \<Rightarrow> duvm_device \<Rightarrow> bool" where
  "slots_exact busy dev \<longleftrightarrow>
     (\<forall>k < unat (dr_staging_pages (dd_ring dev)). dr_staging_bitmap (dd_ring dev) ! k \<longleftrightarrow> k \<in> slot_of dev ` busy)"

lemma submit_same:
  "duvm_ring_submit r q = Some (x, r') \<Longrightarrow> dr_staging_bitmap r' = dr_staging_bitmap r \<and> dr_staging_pages r' = dr_staging_pages r"
  by (auto simp: duvm_ring_submit_def Let_def split: if_splits)

lemma queue_slots:
  assumes ex: "slots_exact busy dev" and t: "br_tag rq \<notin> busy" and ok: "kring_ok (dd_ring dev)"
    and q: "queue_async (dev\<lparr>dd_rqs := f\<rparr>) rq = Some (st, dev', [])"
  shows "st = BLK_STS_OK \<Longrightarrow> slots_exact (insert (br_tag rq) busy) dev'"
    and "st = BLK_STS_RESOURCE \<Longrightarrow> slots_exact busy dev'"
    and "st \<noteq> BLK_STS_IOERR"
proof -
  obtain slot r where Pair: "duvm_alloc_staging_slot (dd_ring dev) = (slot, r)" by (rule prod.exhaust)
  have "(st = BLK_STS_OK \<longrightarrow> slots_exact (insert (br_tag rq) busy) dev') \<and>
    (st = BLK_STS_RESOURCE \<longrightarrow> slots_exact busy dev') \<and> st \<noteq> BLK_STS_IOERR"
  proof (cases slot)
    case None
    have "r = dd_ring dev" by (rule alloc_slot_None(1) [OF ok Pair [unfolded None]])
    with q Pair None ex show ?thesis by (auto simp: queue_async_def slots_exact_def)
  next
    case (Some s)
    note S = alloc_slot_Some [OF ok Pair [unfolded Some]]
    from q Pair Some obtain mem where st: "stage_rq rq s (dr_staging r) = Some mem"
      by (auto simp: queue_async_def split: option.splits)
    let ?d = "dev\<lparr>dd_rqs := f, dd_ring := r\<lparr>dr_staging := mem\<rparr>, dd_pdu := (dd_pdu dev)(br_tag rq := rq_cmd rq s)\<rparr>"
    from q Pair Some st have sub: "submit_rq ?d rq s = Some (st, dev', [])" by (simp add: queue_async_def)
    then obtain x r' where x: "duvm_ring_submit (dd_ring ?d) (rq_request rq s) = Some (x, r')"
      by (auto simp: submit_rq_def split: option.splits)
    have bits: "dr_staging_bitmap r' = (dr_staging_bitmap (dd_ring dev))[s := True]"
      "dr_staging_pages r' = dr_staging_pages (dd_ring dev)"
      using submit_same [OF x] S(3) by simp_all
    have us: "unat (of_nat s :: u32) = s" by (rule unat_slot [OF S(1) kring_okD(10) [OF ok]])
    have len: "length (dr_staging_bitmap (dd_ring dev)) = unat (dr_staging_pages (dd_ring dev))" by (rule kring_okD(9) [OF ok])
    let ?pdu = "(dd_pdu dev)(br_tag rq := rq_cmd rq s)"
    have slot: "(\<lambda>u. unat (cmd_staging_slot (?pdu u))) ` busy = slot_of dev ` busy"
      "unat (cmd_staging_slot (?pdu (br_tag rq))) = s"
      using us t by (auto intro!: image_cong simp: rq_cmd_def)
    show ?thesis
    proof (cases x)
      case (Inr u)
      with sub x have d: "st = BLK_STS_OK" "dev' = ?d\<lparr>dd_ring := r'\<rparr>" by (simp_all add: submit_rq_def)
      have "slots_exact (insert (br_tag rq) busy) dev'"
        unfolding slots_exact_def image_insert using ex bits len S(1)
        by (simp add: d(2) slot slots_exact_def nth_list_update del: fun_upd_apply)
      with d show ?thesis by simp
    next
      case (Inl er)
      with sub x have d: "er = EAGAIN" "st = BLK_STS_RESOURCE"
        "dev' = ?d\<lparr>dd_ring := duvm_free_staging_slot r' (of_nat s)\<rparr>"
        by (auto simp: submit_rq_def Let_def split: if_splits)
      have "slots_exact busy dev'"
        unfolding slots_exact_def using ex bits len S(1,2) us
        by (simp add: d(3) slot slots_exact_def nth_list_update duvm_free_staging_slot_def del: fun_upd_apply)
      with d show ?thesis by simp
    qed
  qed
  then show "st = BLK_STS_OK \<Longrightarrow> slots_exact (insert (br_tag rq) busy) dev'"
    and "st = BLK_STS_RESOURCE \<Longrightarrow> slots_exact busy dev'" and "st \<noteq> BLK_STS_IOERR" by blast+
qed


lemma harvest_slots:
  assumes rel: "dev_rel ts us dev m" and h: "harvest_one dev = Some (True, dev', evs)"
    and ex: "slots_exact (set ts \<union> set us) dev"
  shows "\<exists>t us'. us = t # us' \<and> slots_exact (set ts \<union> set us') dev'"
proof -
  from sim_harvest [OF rel h] obtain t us' where us: "us = t # us'" by blast
  note D = dev_relD [OF rel] and T = dev_rel_tagD [OF rel, of t]
  let ?c = "comp_entry (dd_pdu dev) (sp_done m) t"
  have "comp_queue (dd_ring dev) = ?c # map (comp_entry (dd_pdu dev) (sp_done m)) us'" using D(9) us by simp
  from poll_some [OF D(1) this] obtain r where r: "duvm_ring_poll_completion (dd_ring dev) = Some (Inr ?c, r)"
    "r = (dd_ring dev)\<lparr>dr_header := dr_header r\<rparr>" by metis
  have same: "dr_staging_bitmap r = dr_staging_bitmap (dd_ring dev)" "dr_staging_pages r = dr_staging_pages (dd_ring dev)"
    by (subst r(2), simp)+
  have "sint (rc_seq ?c - 1) = int t" "\<not> sint (dd_queue_depth dev) \<le> int t"
    using tag_of_seq [OF _ D(3), of t] T(1) us by (simp_all add: comp_entry_def)
  with h r(1) T(4) us have dev': "dd_pdu dev' = dd_pdu dev"
    "dd_ring dev' = r\<lparr>dr_staging_bitmap := (dr_staging_bitmap (dd_ring dev))[slot_of dev t := False]\<rparr>"
    by (auto simp: harvest_one_def Let_def duvm_free_staging_slot_def same split: option.splits if_splits)
  have "slot_of dev ` (set ts \<union> set us') = slot_of dev ` (set ts \<union> set us) - {slot_of dev t}"
    using inj_on_image_set_diff [OF D(10), of "set ts \<union> set us" "{t}"] D(4) us by auto
  then have "slots_exact (set ts \<union> set us') dev'"
    using ex T(2) kring_okD(9) [OF D(1)] us same by (auto simp: slots_exact_def dev' nth_list_update)
  with us show ?thesis by blast
qed

text \<open>With room in the ring the device takes the next request.\<close>

lemma queue_accepts:
  assumes rel: "dev_rel ts us dev m" and ex: "slots_exact (set ts \<union> set us) dev"
    and pg: "is_page (seg_bytes (br_segments rq))" and t: "br_tag rq \<notin> set ts \<union> set us" "br_tag rq < unat (dd_queue_depth dev)"
    and room: "Suc (length ts + length us) < ring_cap (dd_ring dev)"
      "ring_cap (dd_ring dev) \<le> unat (dr_staging_pages (dd_ring dev))"
  shows "\<exists>dev'. queue_async (dev\<lparr>dd_rqs := (dd_rqs dev)(br_tag rq \<mapsto> rq)\<rparr>) rq = Some (BLK_STS_OK, dev', [])"
proof -
  note D = dev_relD [OF rel]
  obtain slot r where Pair: "duvm_alloc_staging_slot (dd_ring dev) = (slot, r)" by (rule prod.exhaust)
  have "card (slot_of dev ` (set ts \<union> set us)) < unat (dr_staging_pages (dd_ring dev))"
  proof -
    have "card (slot_of dev ` (set ts \<union> set us)) \<le> card (set (ts @ us))" by (simp add: card_image_le)
    also have "\<dots> \<le> length (ts @ us)" by (rule card_length)
    finally show ?thesis using room by simp
  qed
  moreover have "{..<unat (dr_staging_pages (dd_ring dev))} \<subseteq> slot_of dev ` (set ts \<union> set us)" if "slot = None"
  proof
    fix k assume "k \<in> {..<unat (dr_staging_pages (dd_ring dev))}"
    then show "k \<in> slot_of dev ` (set ts \<union> set us)"
      using alloc_slot_None(2) [OF D(1) Pair [unfolded that]] ex kring_okD(9) [OF D(1)]
      by (metis lessThan_iff nth_mem slots_exact_def)
  qed
  ultimately have "slot \<noteq> None"
    using card_mono [of "slot_of dev ` (set ts \<union> set us)" "{..<unat (dr_staging_pages (dd_ring dev))}"] by auto
  then obtain s where Some: "slot = Some s" by blast
  note S = alloc_slot_Some [OF D(1) Pair [unfolded Some]]
  have S2: "s < unat (dr_staging_pages r)" using S(1,3) by simp
  from staged [OF S(4) S2 pg] obtain mem where mem: "stage_rq rq s (dr_staging r) = Some mem" "length mem = length (dr_staging r)"
    by metis
  let ?r = "r\<lparr>dr_staging := mem\<rparr>"
  have "kring_ok ?r" using kring_ok_staging [OF S(4)] mem(2) by simp
  moreover have "dr_daemon_connected ?r" "length (req_queue ?r) < ring_cap ?r - 1" using S(3) D(2,8) room(1) by simp_all
  ultimately obtain r' where "duvm_ring_submit ?r (rq_request rq s) = Some (Inr (), r')" by (rule submit_space)
  then show ?thesis using Pair Some mem(1) by (simp add: queue_async_def submit_rq_def)
qed


section \<open>The machine invariant\<close>

definition machine_ok ::
  "('b engine \<Rightarrow> 'w \<Rightarrow> bool) \<Rightarrow> ('b engine \<Rightarrow> 'w \<Rightarrow> u64 \<rightharpoonup> page) \<Rightarrow> kmod_consumer \<Rightarrow>
   ('b, 'w) machine \<Rightarrow> dev_spec \<Rightarrow> bool" where
  "machine_ok eok epages kc s m \<longleftrightarrow>
     machine_rel eok epages kc s m \<and> slots_exact (sm_busy s) (sm_dev s) \<and>
     dd_queue_depth (sm_dev s) = hdr_cap (dd_ring (sm_dev s)) \<and>
     ring_cap (dd_ring (sm_dev s)) = unat (dr_staging_pages (dd_ring (sm_dev s)))"

lemma machine_okE:
  assumes "machine_ok eok epages kc s m"
  obtains ts us where "dev_rel ts us (sm_dev s) m" "sm_busy s = set ts \<union> set us" "card (sm_busy s) = length ts + length us"
  using assms unfolding machine_ok_def machine_rel_def by (metis dev_relD(4) distinct_card length_append set_append)

text \<open>What no step changes.\<close>

lemma submit_fixed: "duvm_ring_submit r q = Some (x, r') \<Longrightarrow> dr_staging_pages r' = dr_staging_pages r \<and> hdr_cap r' = hdr_cap r"
  by (auto simp: duvm_ring_submit_def Let_def split: if_splits)

lemma queue_fixed:
  assumes "queue_async dev rq = Some (st, dev', evs)"
  shows "dd_queue_depth dev' = dd_queue_depth dev \<and> dr_staging_pages (dd_ring dev') = dr_staging_pages (dd_ring dev)"
proof -
  have sub: "dd_queue_depth d' = dd_queue_depth d \<and> dr_staging_pages (dd_ring d') = dr_staging_pages (dd_ring d)"
    if "submit_rq d rq s = Some (st, d', evs)" for d d' s
    using that submit_fixed [of "dd_ring d"]
    by (auto simp: submit_rq_def duvm_free_staging_slot_def Let_def split: option.splits sum.splits if_splits)
  have alloc: "dr_staging_pages r' = dr_staging_pages r" if "duvm_alloc_staging_slot r = (x, r')" for r r' x
    using that by (auto simp: duvm_alloc_staging_slot_def Let_def split: if_splits)
  from assms alloc [of "dd_ring dev"] show ?thesis
    by (auto simp: queue_async_def dest!: sub split: prod.splits option.splits)
qed

lemma harvest_fixed:
  "harvest_one dev = Some (b, dev', evs) \<Longrightarrow>
   dd_queue_depth dev' = dd_queue_depth dev \<and> dr_staging_pages (dd_ring dev') = dr_staging_pages (dd_ring dev)"
  by (auto simp: harvest_one_def duvm_ring_poll_completion_def duvm_free_staging_slot_def Let_def
      split: option.splits if_splits)

lemma poll_fixed:
  "poll_once V now it kc r e w = (oc, r', e', w') \<Longrightarrow>
   dr_staging_pages r' = dr_staging_pages r \<and> dr_staging_bitmap r' = dr_staging_bitmap r \<and> hdr_cap r' = hdr_cap r"
  by (auto simp: poll_once_def Let_def write_u32_def HDR_REQ_READ_IDX_def HDR_COMP_WRITE_IDX_def
      split: prod.splits option.splits if_splits)


lemma step_fixed:
  assumes rel: "dev_rel ts us (sm_dev s) m" "sm_busy s = set ts \<union> set us" and step: "swap_step V now it kc s ev s'"
    and ex: "slots_exact (sm_busy s) (sm_dev s)" and depth: "dd_queue_depth (sm_dev s) = hdr_cap (dd_ring (sm_dev s))"
    and cap: "ring_cap (dd_ring (sm_dev s)) = unat (dr_staging_pages (dd_ring (sm_dev s)))"
  shows "slots_exact (sm_busy s') (sm_dev s') \<and> dd_queue_depth (sm_dev s') = hdr_cap (dd_ring (sm_dev s')) \<and>
    ring_cap (dd_ring (sm_dev s')) = unat (dr_staging_pages (dd_ring (sm_dev s')))"
  using step
proof cases
  case (queue rq alloc xa_ok junk dev)
  have q: "queue_async ((sm_dev s)\<lparr>dd_rqs := (dd_rqs (sm_dev s))(br_tag rq \<mapsto> rq)\<rparr>) rq = Some (BLK_STS_OK, dev, [])"
    using queue(7) dev_relD(2) [OF rel(1)] by (simp add: duvm_queue_rq_def)
  from queue_slots(1) [OF ex queue(4) dev_relD(1) [OF rel(1)] q] queue_fixed [OF q] queue_capacity [OF q] queue(2) depth cap
  show ?thesis by (simp add: ring_cap_def)
next
  case (refuse rq alloc xa_ok junk dev)
  have q: "queue_async ((sm_dev s)\<lparr>dd_rqs := (dd_rqs (sm_dev s))(br_tag rq \<mapsto> rq)\<rparr>) rq = Some (BLK_STS_RESOURCE, dev, [])"
    using refuse(6) dev_relD(2) [OF rel(1)] by (simp add: duvm_queue_rq_def)
  from queue_slots(2) [OF ex refuse(4) dev_relD(1) [OF rel(1)] q] queue_fixed [OF q] queue_capacity [OF q] refuse(2) depth cap
  show ?thesis by (simp add: ring_cap_def)
next
  case (serve r e w)
  from poll_fixed [OF serve(3)] serve(2) ex depth cap show ?thesis by (simp add: slots_exact_def ring_cap_def)
next
  case (harvest dev t st segs)
  from sim_harvest [OF rel(1) harvest(3)] obtain us' where us: "us = t # us'" by auto
  from harvest_slots [OF rel(1) harvest(3) ex [unfolded rel(2)]] us have "slots_exact (set ts \<union> set us') dev" by simp
  moreover have "sm_busy s - {t} = set ts \<union> set us'" using rel(2) us dev_relD(4) [OF rel(1)] by auto
  ultimately show ?thesis using harvest(2) harvest_fixed [OF harvest(3)] harvest_capacity [OF harvest(3)] depth cap
    by (simp add: ring_cap_def)
next
  case (discard dev)
  from sim_harvest [OF rel(1) discard(3)] show ?thesis by auto
qed

context engine_on
begin

lemma machine_ok_step:
  assumes it: "permutes_entries it" and mok: "machine_ok ok pages kc s m" and step: "swap_step V now it kc s ev s'"
  shows "\<exists>m'. spec_step m ev m' \<and> machine_ok ok pages kc s' m'"
proof -
  from mok have rel: "in_step kc s m" by (simp add: machine_ok_def)
  then obtain ts us where "dev_rel ts us (sm_dev s) m" "sm_busy s = set ts \<union> set us" by (rule in_stepE)
  from step_fixed [OF this step] mok have "slots_exact (sm_busy s') (sm_dev s') \<and>
    dd_queue_depth (sm_dev s') = hdr_cap (dd_ring (sm_dev s')) \<and>
    ring_cap (dd_ring (sm_dev s')) = unat (dr_staging_pages (dd_ring (sm_dev s')))" by (simp add: machine_ok_def)
  with swap_simulation [OF it rel step] show ?thesis by (auto simp: machine_ok_def)
qed

lemma machine_ok_run:
  assumes "swap_run V now it kc s evs s'" and "permutes_entries it" and "machine_ok ok pages kc s m"
  shows "\<exists>m'. spec_run m evs m' \<and> machine_ok ok pages kc s' m'"
  using assms
proof (induction arbitrary: m rule: swap_run.induct)
  case (run_nil s)
  then show ?case using spec_nil by blast
next
  case (run_step s ev s' evs s'')
  then obtain m' where "spec_step m ev m'" "machine_ok ok pages kc s' m'" using machine_ok_step by blast
  with run_step.IH [OF run_step.prems(1)] show ?case using spec_cons by blast
qed

end

lemma boot_ok:
  assumes init: "duvm_ring_init ok cap (ucast cap) = (Inr r, ps)" and cap: "is_power_of_2 cap" "unat cap < 2 ^ 31"
    and kc: "consumer_open True (\<lambda>n. n \<le> dr_ring_size r) (dr_header r) = Inr kc"
    and e: "eok e w" "epages e w = Map.empty"
  shows "machine_ok eok epages kc (boot cap r e w) empty_spec"
proof -
  note F = ring_init_facts [OF init cap]
  have "dr_staging_bitmap r = replicate (unat (dr_staging_pages r)) False" "dr_staging_pages r = ucast cap"
    using init by (auto simp: duvm_ring_init_def ring_sizes_def Let_def split: if_splits)
  then show ?thesis
    using boot_rel [where eok = eok and epages = epages and e = e and w = w, OF assms] F(4-6)
    by (simp add: machine_ok_def slots_exact_def boot_def initial_device_def duvm_ctl_open_def ring_cap_def unat_ucast_u64 Let_def)
qed

lemma machine_progress:
  assumes "machine_ok eok epages kc s m"
  shows "sm_busy s = {} \<and> harvest_one (sm_dev s) = Some (False, sm_dev s, []) \<or>
    (\<exists>t dev st segs. t \<in> sm_busy s \<and> harvest_one (sm_dev s) = Some (True, dev, [EndRequest t st segs])) \<or>
    sm_busy s \<noteq> {} \<and> fst (poll_once V now it kc (dd_ring (sm_dev s)) (sm_engine s) (sm_world s)) \<noteq> Idle"
proof -
  from assms obtain ts us where R: "dev_rel ts us (sm_dev s) m" "sm_busy s = set ts \<union> set us" by (rule machine_okE)
  note D = dev_relD [OF R(1)]
  show ?thesis
  proof (cases us)
    case (Cons t us')
    show ?thesis by (rule harvest_law [OF R(1) [unfolded Cons]]) (use R(2) Cons in auto)
  next
    case Nil
    then have h: "harvest_one (sm_dev s) = Some (False, sm_dev s, [])" using harvest_empty [OF D(1)] D(9) by simp
    show ?thesis
    proof (cases ts)
      case Nil
      with h R(2) \<open>us = []\<close> show ?thesis by simp
    next
      case (Cons t ts')
      have "unat (req_read_idx (dr_header (dd_ring (sm_dev s)))) \<noteq> unat (req_write_idx (dr_header (dd_ring (sm_dev s))))"
        using kring_okD_nat(1,2) [OF D(1)] D(8) Cons by (auto simp: req_queue_def)
      then have "fst (poll_once V now it kc (dd_ring (sm_dev s)) (sm_engine s) (sm_world s)) \<noteq> Idle"
        by (auto simp: poll_once_def Let_def read_u32_def HDR_REQ_READ_IDX_def HDR_REQ_WRITE_IDX_def split: prod.splits option.splits)
      with R(2) Cons show ?thesis by simp
    qed
  qed
qed

section \<open>Properties of the shared region\<close>

lemma all_pages: "\<not> length (takeWhile P [0..<n]) < n \<Longrightarrow> length (takeWhile P [0..<n]) = n"
  using length_takeWhile_le [of P "[0..<n]"] by simp

lemma ring_init_total: "(\<And>site. ok site) \<Longrightarrow> \<exists>r ps. duvm_ring_init ok cap n = (Inr r, ps)"
  by (simp add: duvm_ring_init_def ring_sizes_def Let_def takeWhile_eq_all_conv [THEN iffD2])

lemma four_power: "is_power_of_2 4" "unat (4 :: u32) < 2 ^ 31"
  by (simp_all add: is_power_of_2_def list_ex_iff) (rule bexI [of _ 2], simp_all)

text \<open>
  C26: the daemon maps exactly the ring the kernel allocated: the offsets \<^verbatim>\<open>open\<close> computes are the
  ones \<^verbatim>\<open>duvm_ring_init\<close> uses, the four parts do not overlap, and the mapping it asks for is the
  whole ring, which \<^verbatim>\<open>duvm_ctl_mmap\<close> grants in full.
\<close>

theorem consumer_maps_ring:
  assumes "duvm_ring_init ok cap (ucast cap) = (Inr r, ps)" and "is_power_of_2 cap" and "unat cap < 2 ^ 31"
    and "dd_ring dev = r" and "\<And>i. insert_ok i"
  shows "\<exists>kc req_sz comp_sz staging_sz. consumer_open True (\<lambda>n. n \<le> dr_ring_size r) (dr_header r) = Inr kc \<and>
    ring_sizes cap (ucast cap) = (kc_requests kc, req_sz, comp_sz, staging_sz, kc_mmap_len kc) \<and>
    kc_completions kc = kc_requests kc + req_sz \<and> kc_staging kc = kc_completions kc + comp_sz \<and>
    272 \<le> unat (kc_requests kc) \<and>
    unat (kc_requests kc) + length (dr_requests r) * 64 \<le> unat (kc_completions kc) \<and>
    unat (kc_completions kc) + length (dr_completions r) * 64 \<le> unat (kc_staging kc) \<and>
    unat (kc_staging kc) + length (dr_staging r) = unat (kc_mmap_len kc) \<and>
    duvm_ctl_mmap insert_ok dev (kc_mmap_len kc) = Inr (length ps) \<and> length ps * 4096 = unat (kc_mmap_len kc)"
proof -
  note F = ring_init_facts [OF assms(1-3)]
  let ?a = "PAGE_ALIGN (ucast cap * 64)"
  let ?n = "(unat cap * 64 + 4095) div 4096"
  have n: "unat cap * 64 \<le> ?n * 4096" by simp
  have total: "dr_ring_size r = 4096 + ?a + ?a + ucast cap * 4096" using F(9) by (simp add: ring_sizes_def Let_def)
  note N = ring_size_nat [OF assms(3)]
  have size: "unat (dr_ring_size r) = (1 + 2 * ?n + unat cap) * 4096" unfolding total N(4) by simp
  have pages: "ps = [0..<unat (dr_nr_ring_pages r)]" "dr_nr_ring_pages r = ucast (dr_ring_size r div 4096)"
    using assms(1) by (auto simp: duvm_ring_init_def ring_sizes_def Let_def dest!: all_pages split: if_splits)
  have "unat (dr_ring_size r div 4096) = 1 + 2 * ?n + unat cap" by (simp add: unat_div size del: mult_Suc)
  moreover have "?n * 4096 \<le> unat cap * 64 + 4095" by simp
  then have "1 + 2 * ?n + unat cap < 2 ^ 32" using assms(3) by simp
  ultimately have nr: "unat (dr_nr_ring_pages r) = 1 + 2 * ?n + unat cap"
    unfolding pages(2) by (simp add: unsigned_ucast_eq take_bit_nat_eq_self)
  have len: "length (dr_requests r) = unat cap" "length (dr_completions r) = unat cap" "length (dr_staging r) = unat cap * 4096"
    using kring_okD(6-8) [OF F(1)] F(5) assms(1)
    by (auto simp: PAGE_SIZE_def unat_ucast_u64 duvm_ring_init_def ring_sizes_def Let_def split: if_splits)
  have "duvm_ctl_mmap insert_ok dev (dr_ring_size r) = Inr (unat (dr_nr_ring_pages r))"
    using assms(4,5) by (simp add: duvm_ctl_mmap_def size nr list_all_iff Let_def)
  then show ?thesis
    using consumer_open_ring [OF assms(1-3)] F(9) len N pages(1) size nr n
    by (intro exI conjI) (auto simp: total)
qed


theorem consumer_maps_ring_witness:
  "\<exists>r ps kc. duvm_ring_init (\<lambda>_. True) 4 4 = (Inr r, ps) \<and>
     consumer_open True (\<lambda>n. n \<le> dr_ring_size r) (dr_header r) = Inr kc \<and>
     duvm_ctl_mmap (\<lambda>_. True) (initial_device 4 r) (kc_mmap_len kc) = Inr (length ps)"
proof -
  obtain r ps where r: "duvm_ring_init (\<lambda>_. True) 4 (ucast (4 :: u32)) = (Inr r, ps)"
    using ring_init_total [of "\<lambda>_. True"] by blast
  have d: "dd_ring (initial_device 4 r) = r" by (simp add: initial_device_def)
  from consumer_maps_ring [OF r four_power d TrueI] r show ?thesis by auto
qed

text \<open>
  The three declarations of the ring entries and the two of the header agree: the packed structs of
  the kernel and the structs of the daemon put every field at the same offset and have the same size,
  and the offsets by which the daemon reads the header are those of the kernel's fields.
\<close>

theorem kernel_structs_agree:
  "c_offsets 0 kernel_request_fields = c_offsets 0 ring_request_fields \<and>
   c_size 64 kernel_request_fields = 64 \<and> c_size 64 ring_request_fields = 64 \<and>
   c_offsets 0 kernel_completion_fields = c_offsets 0 ring_completion_fields \<and>
   c_size 64 kernel_completion_fields = 64 \<and> c_size 64 ring_completion_fields = 64 \<and>
   nths (c_offsets 0 header_fields) {0, 2, 4, 6, 8, 9, 10} =
     [HDR_REQ_WRITE_IDX, HDR_REQ_READ_IDX, HDR_COMP_WRITE_IDX, HDR_COMP_READ_IDX, HDR_CAPACITY, HDR_VERSION,
      HDR_STAGING_PAGES]"
  by (simp add: layout_defs kernel_request_fields_def kernel_completion_fields_def header_fields_def nths_Cons
      HDR_REQ_WRITE_IDX_def HDR_REQ_READ_IDX_def HDR_COMP_WRITE_IDX_def HDR_COMP_READ_IDX_def HDR_CAPACITY_def
      HDR_VERSION_def HDR_STAGING_PAGES_def)

section \<open>The loops end\<close>

lemma drain_law:
  assumes "dev_rel ts us dev m" and "length us \<le> n"
  shows "\<exists>dev' evs. drain (Suc n) dev = Some (dev', evs) \<and> map (\<lambda>ev. case ev of EndRequest t st segs \<Rightarrow> t) evs = us \<and>
    dev_rel ts [] dev' (m\<lparr>sp_done := Map.empty\<rparr>)"
  using assms
proof (induction us arbitrary: dev m n)
  case Nil
  note D = dev_relD [OF Nil.prems(1)]
  have "sp_done m = Map.empty" using D(6) by auto
  then have "m\<lparr>sp_done := Map.empty\<rparr> = m" by simp
  with harvest_empty [OF D(1)] D(9) Nil.prems(1) show ?case by simp
next
  case (Cons t us)
  then obtain n' where n: "n = Suc n'" "length us \<le> n'" by (cases n) auto
  show ?case
  proof (rule harvest_law [OF Cons.prems(1)])
    fix dev1 segs a
    assume h: "harvest_one dev = Some (True, dev1, [EndRequest t (if a = Failed then BLK_STS_IOERR else BLK_STS_OK) segs])"
      and rel: "dev_rel ts us dev1 (m\<lparr>sp_done := (sp_done m)(t := None)\<rparr>)"
    from Cons.IH [OF rel n(2)] h show ?case unfolding n(1) by auto
  qed
qed

context engine_on
begin

lemma serve_all_law:
  assumes "permutes_entries it" and "dev_rel ts us dev m" and "ok e w" and "pages e w \<subseteq>\<^sub>m sp_pages m"
    and "kc_mask kc = hdr_cap (dd_ring dev) - 1" and "length ts \<le> n"
  shows "\<exists>oc r e' w'. serve_all V now it kc (Suc n) (dd_ring dev) e w = Some (oc, r, e', w') \<and> oc \<noteq> Served \<and>
    (oc = Idle \<longrightarrow> (\<exists>m'. dev_rel [] (us @ ts) (dev\<lparr>dd_ring := r\<rparr>) m' \<and> ok e' w' \<and> pages e' w' \<subseteq>\<^sub>m sp_pages m'))"
  using assms(2-)
proof (induction ts arbitrary: us dev m e w n)
  case Nil
  have "req_queue (dd_ring dev) = []" using dev_relD(8) [OF Nil.prems(1)] by simp
  from poll_idle [OF dev_relD(1) [OF Nil.prems(1)] this, of V now it kc e w] Nil.prems(1-3) show ?case by auto
next
  case (Cons t ts)
  then obtain n' where n: "n = Suc n'" "length ts \<le> n'" by (cases n) auto
  obtain oc r e1 w1 where poll: "poll_once V now it kc (dd_ring dev) e w = (oc, r, e1, w1)" by (metis prod_cases4)
  show ?case
  proof (cases "oc = Served")
    case False
    have "oc = Crashed"
    proof (rule poll_outcome.exhaust [of oc])
      assume "oc = Idle"
      moreover have "unat (req_read_idx (dr_header (dd_ring dev))) \<noteq> unat (req_write_idx (dr_header (dd_ring dev)))"
        using kring_okD_nat(1,2) [OF dev_relD(1) [OF Cons.prems(1)]] dev_relD(8) [OF Cons.prems(1)] by (auto simp: req_queue_def)
      ultimately show "oc = Crashed" using poll
        by (auto simp: poll_once_def Let_def read_u32_def HDR_REQ_READ_IDX_def HDR_REQ_WRITE_IDX_def split: prod.splits option.splits if_splits)
    qed (use False in auto)
    with poll show ?thesis by simp
  next
    case True
    from poll_law [OF assms(1) Cons.prems(1-4) poll [unfolded True]] obtain m' where P:
      "dev_rel ts (us @ [t]) (dev\<lparr>dd_ring := r\<rparr>) m'" "ok e1 w1" "pages e1 w1 \<subseteq>\<^sub>m sp_pages m'" "ring_cap r = ring_cap (dd_ring dev)" by auto
    have "hdr_cap r = hdr_cap (dd_ring dev)" using P(4) by (simp add: ring_cap_def word_unat_eq_iff)
    then have "kc_mask kc = hdr_cap (dd_ring (dev\<lparr>dd_ring := r\<rparr>)) - 1" using Cons.prems(4) by simp
    from Cons.IH [OF P(1-3) this n(2)] poll True show ?thesis unfolding n(1) by auto
  qed
qed

lemma settle_law:
  assumes "permutes_entries it" and "machine_ok ok pages kc s m"
  shows "\<exists>oc r e w. serve_all V now it kc (Suc (card (sm_busy s))) (dd_ring (sm_dev s)) (sm_engine s) (sm_world s)
      = Some (oc, r, e, w) \<and> oc \<noteq> Served \<and>
    (oc = Idle \<longrightarrow> (\<exists>dev evs. drain (Suc (card (sm_busy s))) ((sm_dev s)\<lparr>dd_ring := r\<rparr>) = Some (dev, evs) \<and>
       distinct (map (\<lambda>ev. case ev of EndRequest t st segs \<Rightarrow> t) evs) \<and>
       set (map (\<lambda>ev. case ev of EndRequest t st segs \<Rightarrow> t) evs) = sm_busy s))"
proof -
  from assms(2) obtain ts us where R: "dev_rel ts us (sm_dev s) m" "sm_busy s = set ts \<union> set us"
    "card (sm_busy s) = length ts + length us" by (rule machine_okE)
  have E: "ok (sm_engine s) (sm_world s)" "pages (sm_engine s) (sm_world s) \<subseteq>\<^sub>m sp_pages m"
    "kc_mask kc = hdr_cap (dd_ring (sm_dev s)) - 1"
    using assms(2) by (simp_all add: machine_ok_def machine_rel_def)
  have "length ts \<le> card (sm_busy s)" using R(3) by simp
  from serve_all_law [OF assms(1) R(1) E(1,2,3) this] obtain oc r e w where S:
    "serve_all V now it kc (Suc (card (sm_busy s))) (dd_ring (sm_dev s)) (sm_engine s) (sm_world s) = Some (oc, r, e, w)"
    "oc \<noteq> Served" "oc = Idle \<longrightarrow> (\<exists>m'. dev_rel [] (us @ ts) ((sm_dev s)\<lparr>dd_ring := r\<rparr>) m')" by blast
  have "\<exists>dev evs. drain (Suc (card (sm_busy s))) ((sm_dev s)\<lparr>dd_ring := r\<rparr>) = Some (dev, evs) \<and>
       map (\<lambda>ev. case ev of EndRequest t st segs \<Rightarrow> t) evs = us @ ts" if i: "oc = Idle"
  proof -
    from S(3) i obtain m' where m': "dev_rel [] (us @ ts) ((sm_dev s)\<lparr>dd_ring := r\<rparr>) m'" by blast
    from drain_law [OF m', of "card (sm_busy s)"] R(3) show ?thesis by auto
  qed
  moreover have "distinct (us @ ts)" "set (us @ ts) = sm_busy s" using dev_relD(4) [OF R(1)] R(2) by auto
  ultimately show ?thesis using S(1,2) by (metis (no_types, lifting))
qed

end

end
