(* ===== verification/Kmod_Module.thy ===== *)
theory Kmod_Module
  imports Swap_Device Memory_Backend
begin

unbundle bit_operations_syntax

text \<open>
  Properties of the kernel module on its own: the page store it falls back on, loading and unloading,
  and the limits of the asynchronous path, where a full completion ring, a timeout, a request of more
  than one page or of less than one break what the swap device promises.
\<close>


section \<open>The path without a daemon\<close>

lemma mem_write_all: "length bs = length mem \<Longrightarrow> mem_write mem 0 bs = Some bs"
  by (simp add: mem_write_def)

lemma mem_read_all: "mem_read mem 0 (length mem) = Some mem"
  by (simp add: mem_read_def)

text \<open>
  Without a daemon the device is a page store of its own: a page written is the page read back,
  under any tag and at any sector of the page, and no other page changes.
\<close>

theorem sync_write_read:
  assumes "\<not> dr_daemon_connected (dd_ring dev)" and "is_page d" and "is_page b" and "is_page junk"
    and "\<forall>p. dd_page_store dev i = Some p \<longrightarrow> is_page p" and "alloc i" and "xa_ok i"
    and "sw div 8 = i" and "sr div 8 = i"
  shows "\<exists>dev'. duvm_queue_rq alloc xa_ok junk dev
      \<lparr>br_tag = t, br_write = True, br_sector = sw, br_segments = [\<lparr>bv_offset = 0, bv_data = d\<rparr>]\<rparr>
      = Some (BLK_STS_OK, dev', [EndRequest t BLK_STS_OK [\<lparr>bv_offset = 0, bv_data = d\<rparr>]]) \<and>
    duvm_queue_rq alloc xa_ok junk dev'
      \<lparr>br_tag = u, br_write = False, br_sector = sr, br_segments = [\<lparr>bv_offset = 0, bv_data = b\<rparr>]\<rparr>
      = Some (BLK_STS_OK, dev', [EndRequest u BLK_STS_OK [\<lparr>bv_offset = 0, bv_data = d\<rparr>]]) \<and>
    dd_page_store dev' i = Some d \<and> (\<forall>j. j \<noteq> i \<longrightarrow> dd_page_store dev' j = dd_page_store dev j)"
proof -
  let ?dev = "dev\<lparr>dd_page_store := (dd_page_store dev)(i \<mapsto> d)\<rparr>"
  have len: "length d = PAGE_SIZE" "length b = PAGE_SIZE" "length junk = PAGE_SIZE" using assms(2-4) by (simp_all add: is_page_def)
  have "xa_write alloc xa_ok junk [\<lparr>bv_offset = 0, bv_data = d\<rparr>] sw (dd_page_store dev) = Some (True, (dd_page_store dev)(i \<mapsto> d))"
    using assms(5-8) len by (auto simp: DUVM_PAGE_SECTORS_def mem_write_all is_page_def Let_def split: option.splits)
  moreover have "mem_read d 0 (length b) = Some d" using len mem_read_all [of d] by simp
  ultimately show ?thesis using assms(1,9)
    by (intro exI [of _ ?dev]) (simp add: duvm_queue_rq_def queue_sync_def DUVM_PAGE_SECTORS_def)
qed

definition idle_device :: duvm_device where
  "idle_device = initial_device 4 \<lparr>dr_header = \<lparr>req_write_idx = 0, req_read_idx = 0, comp_write_idx = 0,
     comp_read_idx = 0, hdr_capacity = 4, hdr_version = 2, hdr_staging_pages = 4\<rparr>,
     dr_requests = replicate 4 zeroed_request, dr_completions = replicate 4 zeroed_completion,
     dr_staging = replicate (4 * PAGE_SIZE) 0, dr_staging_pages = 4, dr_nr_ring_pages = 7, dr_ring_size = 28672,
     dr_seq_counter = 0, dr_daemon_connected = False, dr_staging_bitmap = replicate 4 False\<rparr>"

theorem sync_write_read_witness:
  "\<exists>dev'. duvm_queue_rq (\<lambda>_. True) (\<lambda>_. True) (replicate 4096 9) dev'
      \<lparr>br_tag = 1, br_write = False, br_sector = 24, br_segments = [\<lparr>bv_offset = 0, bv_data = replicate 4096 0\<rparr>]\<rparr>
      = Some (BLK_STS_OK, dev', [EndRequest 1 BLK_STS_OK [\<lparr>bv_offset = 0, bv_data = replicate 4096 7\<rparr>]])"
  using sync_write_read [of idle_device "replicate 4096 7" "replicate 4096 0" "replicate 4096 9" 3 "\<lambda>_. True" "\<lambda>_. True" 24 24 0 1]
  by (auto simp: idle_device_def initial_device_def)

text \<open>
  The copy of a segment goes to the offset of its buffer in the buffer's page, not to the offset of its
  sector in the stored page. So two writes of one sector each, from the start of a page, to sectors 0
  and 1 leave the second at the place of the first.
\<close>

lemma subpage_write_clobbers:
  assumes "\<not> dr_daemon_connected (dd_ring dev)" and "dd_page_store dev 0 = Some p" and "is_page p"
    and "length d = 512" and "length b = 512"
  shows "\<exists>dev' evs. duvm_queue_rq alloc xa_ok junk dev
      \<lparr>br_tag = t, br_write = True, br_sector = 1, br_segments = [\<lparr>bv_offset = 0, bv_data = d\<rparr>]\<rparr> = Some (BLK_STS_OK, dev', evs) \<and>
    duvm_queue_rq alloc xa_ok junk dev'
      \<lparr>br_tag = u, br_write = False, br_sector = 0, br_segments = [\<lparr>bv_offset = 0, bv_data = b\<rparr>]\<rparr>
      = Some (BLK_STS_OK, dev', [EndRequest u BLK_STS_OK [\<lparr>bv_offset = 0, bv_data = d\<rparr>]])"
  using assms
  by (simp add: duvm_queue_rq_def queue_sync_def DUVM_PAGE_SECTORS_def mem_write_def mem_read_def is_page_def PAGE_SIZE_def)

text \<open>A failing \<^verbatim>\<open>xa_store\<close> goes unnoticed: the write ends well and the page reads as zeros.\<close>

lemma lost_store_reports_success:
  assumes "\<not> dr_daemon_connected (dd_ring dev)" and "dd_page_store dev i = None" and "is_page d" and "is_page b" and "is_page junk"
    and "alloc i" and "\<not> xa_ok i" and "sw div 8 = i"
  shows "duvm_queue_rq alloc xa_ok junk dev
      \<lparr>br_tag = t, br_write = True, br_sector = sw, br_segments = [\<lparr>bv_offset = 0, bv_data = d\<rparr>]\<rparr>
      = Some (BLK_STS_OK, dev, [EndRequest t BLK_STS_OK [\<lparr>bv_offset = 0, bv_data = d\<rparr>]]) \<and>
    duvm_queue_rq alloc xa_ok junk dev
      \<lparr>br_tag = u, br_write = False, br_sector = sw, br_segments = [\<lparr>bv_offset = 0, bv_data = b\<rparr>]\<rparr>
      = Some (BLK_STS_OK, dev, [EndRequest u BLK_STS_OK [\<lparr>bv_offset = 0, bv_data = replicate PAGE_SIZE 0\<rparr>]])"
  using assms
  by (simp add: duvm_queue_rq_def queue_sync_def DUVM_PAGE_SECTORS_def mem_write_all is_page_def)

section \<open>Loading and unloading\<close>

lemma free_ring_pages_all: "free_ring_pages i [0..<i] = []"
proof (induction i)
  case (Suc i)
  have "remove1 i ([0..<i] @ [i]) = [0..<i]" by (simp add: remove1_append)
  with Suc show ?case by simp
qed simp


text \<open>
  When \<^verbatim>\<open>kthread_run\<close> fails in \<^verbatim>\<open>duvm_ctl_open\<close>, the error pointer stays in \<^verbatim>\<open>comp_thread\<close>, and
  unloading the module then stops a thread through it.
\<close>

lemma failed_open_breaks_unload:
  "\<not> dr_daemon_connected (dd_ring dev) \<Longrightarrow> duvm_ctl_open (ErrThread e) dev = (x, dev') \<Longrightarrow>
   x = Inl e \<and> duvm_exit dev' held = None"
  by (auto simp: duvm_ctl_open_def duvm_exit_def stop_comp_thread_def Let_def)


section \<open>Limits of the asynchronous path\<close>

text \<open>
  C36: the completion ring has no check for space. When it already holds all the completions it can
  and the daemon serves one more request, the write index comes round to the read index: the
  harvester finds the ring empty, and every answer in it is lost. The tag set allows as many requests
  in flight as it takes, one more than the completion ring holds.
\<close>

theorem completion_ring_overrun:
  assumes ok: "kring_ok r" and mask: "kc_mask kc = hdr_cap r - 1" and q: "req_queue r = q # qs"
    and full: "length (comp_queue r) = ring_cap r - 1"
    and srv: "serve_request V now it q (dr_staging r) e w = (Some (res, mem), e', w')"
  shows "\<exists>r'. poll_once V now it kc r e w = (Served, r', e', w') \<and> comp_queue r' = [] \<and>
    duvm_ring_poll_completion r' = Some (Inl EAGAIN, r')"
proof -
  let ?h = "dr_header r"
  let ?nr = "(req_read_idx ?h + 1) AND (hdr_capacity ?h - 1)"
  let ?nc = "(comp_write_idx ?h + 1) AND (hdr_capacity ?h - 1)"
  let ?r = "r\<lparr>dr_staging := mem, dr_completions := (dr_completions r)[unat (comp_write_idx ?h) := served q res],
    dr_header := ?h\<lparr>req_read_idx := ?nr, comp_write_idx := ?nc\<rparr>\<rparr>"
  note D = kring_okD [OF ok] and N = kring_okD_nat [OF ok]
  have ne: "unat (req_read_idx ?h) \<noteq> unat (req_write_idx ?h)" using q N by (auto simp: req_queue_def)
  have hd: "dr_requests r ! unat (req_read_idx ?h) = q"
    using circ_list_pop [OF N(1,2) ne, of "dr_requests r"] q by (simp add: req_queue_def)
  have "unat ?nc = unat (comp_read_idx ?h)"
    using circ_full [OF N(3,4)] full unat_masked_succ_u32 [OF D(1,4)] by (simp add: comp_queue_def ring_cap_def)
  then have nc: "?nc = comp_read_idx ?h" by (simp add: word_unat_eq_iff)
  have "poll_once V now it kc r e w = (Served, ?r, e', w')"
    using ne hd srv N D(6,7) mask
    by (auto simp: poll_once_def read_u32_def write_u32_def HDR_REQ_READ_IDX_def HDR_REQ_WRITE_IDX_def
        HDR_COMP_WRITE_IDX_def Let_def served_def)
  moreover have "comp_queue ?r = []" using N(4) by (simp add: comp_queue_def ring_cap_def nc)
  moreover have "duvm_ring_poll_completion ?r = Some (Inl EAGAIN, ?r)" by (simp add: duvm_ring_poll_completion_def nc)
  ultimately show ?thesis by blast
qed

definition overrun_ring :: duvm_ring where
  "overrun_ring = (dd_ring idle_device)\<lparr>dr_header := \<lparr>req_write_idx = 1, req_read_idx = 0, comp_write_idx = 3,
     comp_read_idx = 0, hdr_capacity = 4, hdr_version = 2, hdr_staging_pages = 4\<rparr>\<rparr>"

lemma kring_ok_overrun: "kring_ok overrun_ring" "req_queue overrun_ring = [zeroed_request]"
    "length (comp_queue overrun_ring) = ring_cap overrun_ring - 1"
  by (auto simp: kring_ok_def overrun_ring_def idle_device_def initial_device_def is_power_of_2_def list_ex_iff
      req_queue_def comp_queue_def circ_list_def ring_cap_def Let_def intro!: bexI [of _ 2])

theorem completion_ring_overrun_witness:
  "\<exists>r' e w. poll_once mb_vt (Pair 0) (\<lambda>xs. xs)
      \<lparr>kc_mmap_len = 0, kc_requests = 0, kc_completions = 0, kc_staging = 0, kc_capacity = 4, kc_mask = 3\<rparr>
      overrun_ring (with_backends default_config []) () = (Served, r', e, w) \<and>
    duvm_ring_poll_completion r' = Some (Inl EAGAIN, r')"
proof -
  let ?kc = "\<lparr>kc_mmap_len = 0, kc_requests = 0, kc_completions = 0, kc_staging = 0, kc_capacity = 4, kc_mask = 3\<rparr>"
  have m: "kc_mask ?kc = hdr_cap overrun_ring - 1" by (simp add: overrun_ring_def)
  have "serve_request mb_vt (Pair 0) (\<lambda>xs. xs) zeroed_request (dr_staging overrun_ring) (with_backends default_config []) () =
    (Some (- 1, dr_staging overrun_ring), with_backends default_config [], ())"
    by (simp add: serve_request_def zeroed_request_def Let_def)
  from completion_ring_overrun [OF kring_ok_overrun(1) m kring_ok_overrun(2,3) this] show ?thesis by blast
qed

text \<open>
  A request of two pages spills into the next staging slot, whoever owns it, while the ring request
  names its first page only.
\<close>

lemma two_page_request_spills:
  assumes "kring_ok r" and "Suc s < unat (dr_staging_pages r)" and "br_write rq"
    and "seg_bytes (br_segments rq) = d1 @ d2" and "is_page d1" and "is_page d2"
  shows "\<exists>mem. stage_rq rq s (dr_staging r) = Some mem \<and> slot_bytes mem s = d1 \<and> slot_bytes mem (Suc s) = d2 \<and>
    rq_offset (rq_request rq s) = br_sector rq div 8"
proof -
  have fit: "Suc (Suc s) * PAGE_SIZE \<le> length (dr_staging r)"
    unfolding kring_okD(8) [OF assms(1)] using assms(2) by (intro mult_le_mono1) simp
  let ?m = "take (s * PAGE_SIZE) (dr_staging r) @ (d1 @ d2) @ drop (s * PAGE_SIZE + length (d1 @ d2)) (dr_staging r)"
  have "stage_rq rq s (dr_staging r) = Some ?m"
    using copy_in_write [of "s * PAGE_SIZE" "br_segments rq" "dr_staging r"] fit assms(3-6)
    by (simp add: stage_rq_def mem_write_def is_page_def)
  moreover have "slot_bytes ?m s = d1" "slot_bytes ?m (Suc s) = d2"
    using fit assms(5,6) by (simp_all add: slot_bytes_def is_page_def min_def)
  ultimately show ?thesis by (simp add: rq_request_def DUVM_PAGE_SECTORS_def)
qed


lemma find_first_zero_bit_eq:
  assumes "s < length bm" and "\<not> bm ! s" and "\<forall>k < s. bm ! k"
  shows "find_first_zero_bit bm (length bm) = s"
proof -
  have "takeWhile (\<lambda>b. b) bm = take s bm" using assms by (intro takeWhile_eq_take_P_nth) simp_all
  then show ?thesis using assms(1) by (simp add: find_first_zero_bit_def)
qed

text \<open>Queueing a write on a ring where \<open>s\<close> is the first free slot.\<close>

lemma queue_in_slot:
  assumes ok: "kring_ok (dd_ring dev)" and conn: "dr_daemon_connected (dd_ring dev)"
    and s: "s < unat (dr_staging_pages (dd_ring dev))" "\<not> dr_staging_bitmap (dd_ring dev) ! s" "\<forall>k < s. dr_staging_bitmap (dd_ring dev) ! k"
    and rq: "br_write rq" "is_page (seg_bytes (br_segments rq))" and room: "length (req_queue (dd_ring dev)) < ring_cap (dd_ring dev) - 1"
  obtains dev' where "queue_async dev rq = Some (BLK_STS_OK, dev', [])" "kring_ok (dd_ring dev')"
    "comp_queue (dd_ring dev') = comp_queue (dd_ring dev)" "slot_bytes (dr_staging (dd_ring dev')) s = seg_bytes (br_segments rq)"
    "dr_staging_pages (dd_ring dev') = dr_staging_pages (dd_ring dev)"
    "dd_rqs dev' = dd_rqs dev" "dd_queue_depth dev' = dd_queue_depth dev" "\<And>t. t \<noteq> br_tag rq \<Longrightarrow> dd_pdu dev' t = dd_pdu dev t"
proof -
  let ?r = "(dd_ring dev)\<lparr>dr_staging_bitmap := (dr_staging_bitmap (dd_ring dev))[s := True]\<rparr>"
  have len: "length (dr_staging_bitmap (dd_ring dev)) = unat (dr_staging_pages (dd_ring dev))" by (rule kring_okD(9) [OF ok])
  have a: "duvm_alloc_staging_slot (dd_ring dev) = (Some s, ?r)"
    using find_first_zero_bit_eq [of s "dr_staging_bitmap (dd_ring dev)"] s len
    by (simp add: duvm_alloc_staging_slot_def Let_def)
  note A = alloc_slot_Some [OF ok a]
  have "s < unat (dr_staging_pages ?r)" using s(1) by simp
  from staged [OF A(4) this rq(2)] rq(1) obtain mem where mem: "stage_rq rq s (dr_staging ?r) = Some mem"
    "length mem = length (dr_staging ?r)" "slot_bytes mem s = seg_bytes (br_segments rq)" by metis
  let ?r1 = "?r\<lparr>dr_staging := mem\<rparr>"
  have k: "kring_ok ?r1" using kring_ok_staging [OF A(4) mem(2)] .
  have "dr_daemon_connected ?r1" "length (req_queue ?r1) < ring_cap ?r1 - 1" using conn room by simp_all
  from submit_space [OF k this, of "rq_request rq s"] obtain r2 where r2:
    "duvm_ring_submit ?r1 (rq_request rq s) = Some (Inr (), r2)" "kring_ok r2" "comp_queue r2 = comp_queue ?r1"
    "r2 = ?r1\<lparr>dr_requests := dr_requests r2, dr_header := dr_header r2\<rparr>" by metis
  have same: "dr_staging r2 = mem" "dr_staging_pages r2 = dr_staging_pages (dd_ring dev)" by (subst r2(4), simp)+
  have "queue_async dev rq = Some (BLK_STS_OK, dev\<lparr>dd_ring := r2, dd_pdu := (dd_pdu dev)(br_tag rq := rq_cmd rq s)\<rparr>, [])"
    using a mem(1) r2(1) by (simp add: queue_async_def submit_rq_def)
  then show thesis using r2(2,3) same mem(3)
    by (intro that [of "dev\<lparr>dd_ring := r2, dd_pdu := (dd_pdu dev)(br_tag rq := rq_cmd rq s)\<rparr>"]) simp_all
qed

text \<open>
  C35: a read that was timed out can come back with another request's page. \<^verbatim>\<open>duvm_timeout\<close> frees the
  staging slot of the request but does not end it, so the slot can go to a write that comes next; when
  the answer to the read is then harvested, the read ends well, with the bytes of that write.
\<close>

theorem late_completion_wrong_page:
  assumes rel: "dev_rel ts (t # us) dev m" and ans: "sp_done m t = Some (ReadBack p)"
    and low: "\<forall>k < slot_of dev t. dr_staging_bitmap (dd_ring dev) ! k"
    and rq: "br_write rq" "is_page (seg_bytes (br_segments rq))" "br_tag rq \<noteq> t"
    and room: "length ts < ring_cap (dd_ring dev) - 1"
  shows "\<exists>dev1 dev2 segs. queue_async ((duvm_timeout dev t)\<lparr>dd_rqs := (dd_rqs dev)(br_tag rq \<mapsto> rq)\<rparr>) rq
      = Some (BLK_STS_OK, dev1, []) \<and>
    harvest_one dev1 = Some (True, dev2, [EndRequest t BLK_STS_OK segs]) \<and> seg_bytes segs = seg_bytes (br_segments rq)"
proof -
  note D = dev_relD [OF rel]
  have "t \<in> set ts \<union> set (t # us)" by simp
  note T = dev_rel_tagD [OF rel this]
  let ?s = "slot_of dev t" and ?c = "comp_entry (dd_pdu dev) (sp_done m) t"
  let ?d = "(duvm_timeout dev t)\<lparr>dd_rqs := (dd_rqs dev)(br_tag rq \<mapsto> rq)\<rparr>"
  have ring: "dd_ring ?d = (dd_ring dev)\<lparr>dr_staging_bitmap := (dr_staging_bitmap (dd_ring dev))[?s := False]\<rparr>"
    by (simp add: duvm_timeout_def duvm_free_staging_slot_def)
  have pre: "kring_ok (dd_ring ?d)" "dr_daemon_connected (dd_ring ?d)" "?s < unat (dr_staging_pages (dd_ring ?d))"
    "\<not> dr_staging_bitmap (dd_ring ?d) ! ?s" "\<forall>k < ?s. dr_staging_bitmap (dd_ring ?d) ! k"
    "length (req_queue (dd_ring ?d)) < ring_cap (dd_ring ?d) - 1"
    unfolding ring using D(1,2,8) T(2) low room kring_okD(9) [OF D(1)]
    by (simp_all add: kring_ok_def Let_def)
  from queue_in_slot [OF pre(1-5) rq(1,2) pre(6)] obtain dev1 where Q:
    "queue_async ?d rq = Some (BLK_STS_OK, dev1, [])" "kring_ok (dd_ring dev1)" "comp_queue (dd_ring dev1) = comp_queue (dd_ring ?d)"
    "slot_bytes (dr_staging (dd_ring dev1)) ?s = seg_bytes (br_segments rq)"
    "dr_staging_pages (dd_ring dev1) = dr_staging_pages (dd_ring ?d)" "dd_rqs dev1 = dd_rqs ?d"
    "dd_queue_depth dev1 = dd_queue_depth ?d" "dd_pdu dev1 t = dd_pdu ?d t" using rq(3) by metis
  have pdu: "dd_pdu dev1 t = dd_pdu dev t" "dd_queue_depth dev1 = dd_queue_depth dev" using Q(7,8) by (simp_all add: duvm_timeout_def)
  have "comp_queue (dd_ring dev1) = ?c # map (comp_entry (dd_pdu dev) (sp_done m)) us" using Q(3) D(9) ring by simp
  from poll_some [OF Q(2) this] obtain r where r: "duvm_ring_poll_completion (dd_ring dev1) = Some (Inr ?c, r)" "kring_ok r"
    "r = (dd_ring dev1)\<lparr>dr_header := dr_header r\<rparr>" by metis
  have same: "dr_staging r = dr_staging (dd_ring dev1)" "dr_staging_pages r = dr_staging_pages (dd_ring dev)"
    using Q(5) ring by (subst r(3), simp)+
  from T(4) rq(3) Q(6) obtain rt where rt: "dd_rqs dev1 t = Some rt" "is_page (seg_bytes (br_segments rt))" by auto
  have "?s * PAGE_SIZE + length (seg_bytes (br_segments rt)) \<le> length (dr_staging r)"
    using slot_bytes_page [OF r(2), of ?s] T(2) same(2) rt(2) by (simp add: is_page_def)
  from copy_out_read [OF this] obtain segs where segs: "copy_out (br_segments rt) (?s * PAGE_SIZE) (dr_staging r) = Some segs"
    "seg_bytes segs = slot_bytes (dr_staging r) ?s" using rt(2) by (metis is_page_def slot_bytes_def)
  have "cmd_is_read (dd_pdu dev t)" "rc_result ?c = 0" using dev_rel_opD(3) [OF rel ans] ans by (simp_all add: comp_entry_def)
  moreover have "sint (rc_seq ?c - 1) = int t" "\<not> sint (dd_queue_depth dev) \<le> int t"
    using tag_of_seq [OF T(1) D(3)] by (simp_all add: comp_entry_def)
  ultimately have "\<exists>dev2. harvest_one dev1 = Some (True, dev2, [EndRequest t BLK_STS_OK segs])"
    using r(1) rt(1) segs(1) pdu by (simp add: harvest_one_def Let_def)
  then show ?thesis using Q(1,4) segs(2) same(1) by auto
qed


text \<open>A device whose only request in flight is an answered read of a page of fives.\<close>

definition answered_device :: duvm_device where
  "answered_device = idle_device\<lparr>
     dd_ring := (dd_ring idle_device)\<lparr>
       dr_header := \<lparr>req_write_idx = 1, req_read_idx = 1, comp_write_idx = 1, comp_read_idx = 0, hdr_capacity = 4,
         hdr_version = 2, hdr_staging_pages = 4\<rparr>,
       dr_completions := (replicate 4 zeroed_completion)[0 := zeroed_completion\<lparr>rc_seq := 1\<rparr>],
       dr_staging := replicate (4 * PAGE_SIZE) 5, dr_daemon_connected := True,
       dr_staging_bitmap := [True, False, False, False]\<rparr>,
     dd_rqs := [0 \<mapsto> \<lparr>br_tag = 0, br_write = False, br_sector = 0, br_segments = [\<lparr>bv_offset = 0, bv_data = replicate 4096 0\<rparr>]\<rparr>],
     dd_pdu := (\<lambda>_. \<lparr>cmd_seq = 1, cmd_staging_slot = 0, cmd_is_read = True\<rparr>)\<rparr>"

definition answered_spec :: dev_spec where
  "answered_spec = \<lparr>sp_pages = Map.empty, sp_pending = Map.empty, sp_done = [0 \<mapsto> ReadBack (replicate 4096 5)]\<rparr>"

lemma answered_rel: "dev_rel [] [0] answered_device answered_spec"
proof (rule dev_relI, goal_cases)
  case 1
  show ?case by (auto simp: kring_ok_def answered_device_def idle_device_def initial_device_def is_power_of_2_def
      list_ex_iff Let_def intro!: bexI [of _ 2])
next
  case 9
  show ?case by (simp add: answered_device_def idle_device_def initial_device_def answered_spec_def comp_queue_def
      circ_list_def ring_cap_def comp_entry_def zeroed_completion_def)
qed (auto simp: answered_device_def idle_device_def initial_device_def answered_spec_def req_queue_def circ_list_def
    ring_cap_def is_page_def PAGE_SIZE_def slot_bytes_def split: if_splits)

theorem late_completion_wrong_page_witness:
  "\<exists>dev1 dev2 segs. harvest_one dev1 = Some (True, dev2, [EndRequest 0 BLK_STS_OK segs]) \<and> seg_bytes segs = replicate 4096 7"
  using late_completion_wrong_page [OF answered_rel, of "replicate 4096 5"
      "\<lparr>br_tag = 1, br_write = True, br_sector = 8, br_segments = [\<lparr>bv_offset = 0, bv_data = replicate 4096 7\<rparr>]\<rparr>"]
  by (auto simp: answered_spec_def answered_device_def idle_device_def initial_device_def ring_cap_def)

section \<open>The synchronous path\<close>

text \<open>
  \<^verbatim>\<open>duvm_ring_submit_and_wait\<close> moves the read index past the completion it looks for, so the older
  completions of other requests are dropped.
\<close>

lemma find_completion_skips:
  assumes ok: "kring_ok r" and q: "comp_queue r = c1 # c2 # cs" and seq: "rc_seq c1 \<noteq> seq" "rc_seq c2 = seq" and n: "2 \<le> n"
  shows "\<exists>r'. find_completion n r seq (comp_read_idx (dr_header r)) = Some (c2, r') \<and> comp_queue r' = cs"
proof -
  let ?h = "dr_header r" and ?c = "ring_cap r"
  let ?n1 = "(comp_read_idx ?h + 1) AND (hdr_capacity ?h - 1)"
  let ?n2 = "(?n1 + 1) AND (hdr_capacity ?h - 1)"
  note D = kring_okD [OF ok] and N = kring_okD_nat [OF ok]
  have l1: "?n1 < hdr_capacity ?h" by (rule masked_succ_less_u32 [OF D(1,5)])
  have u1: "unat ?n1 = Suc (unat (comp_read_idx ?h)) mod ?c" using unat_masked_succ_u32 [OF D(1,5)] by (simp add: ring_cap_def)
  have u2: "unat ?n2 = Suc (unat ?n1) mod ?c" using unat_masked_succ_u32 [OF D(1) l1] by (simp add: ring_cap_def)
  have r1: "unat (comp_read_idx ?h) \<noteq> unat (comp_write_idx ?h)" using q N(4) by (auto simp: comp_queue_def)
  from circ_list_pop [OF N(3,4) r1, of "dr_completions r"] q
  have c1: "dr_completions r ! unat (comp_read_idx ?h) = c1" "circ_list (dr_completions r) (unat ?n1) (unat (comp_write_idx ?h)) ?c = c2 # cs"
    by (simp_all add: comp_queue_def u1)
  have n1: "unat ?n1 < ?c" using l1 by (simp add: ring_cap_def word_less_nat_alt)
  have r2: "unat ?n1 \<noteq> unat (comp_write_idx ?h)" using c1(2) n1 by auto
  from circ_list_pop [OF N(3) n1 r2, of "dr_completions r"] c1(2)
  have c2: "dr_completions r ! unat ?n1 = c2" "circ_list (dr_completions r) (unat ?n2) (unat (comp_write_idx ?h)) ?c = cs"
    by (simp_all add: u2)
  obtain k where k: "n = Suc (Suc k)" using n by (metis add_2_eq_Suc le_Suc_ex)
  have "find_completion n r seq (comp_read_idx ?h) = Some (c2, r\<lparr>dr_header := ?h\<lparr>comp_read_idx := ?n2\<rparr>\<rparr>)"
    using r1 r2 c1(1) c2(1) seq by (simp add: k Let_def) metis
  moreover have "comp_queue (r\<lparr>dr_header := ?h\<lparr>comp_read_idx := ?n2\<rparr>\<rparr>) = cs"
    using c2(2) by (simp add: comp_queue_def ring_cap_def)
  ultimately show ?thesis by blast
qed

end
