(* ===== verification/Rdma_Verbs.thy ===== *)
theory Rdma_Verbs
  imports Backend_Trait Protocol Std_Text
begin

unbundle bit_operations_syntax

text \<open>
  What the RDMA client and server share: the constants and structs of
  \<^verbatim>\<open>crates/duvm-backend-rdma/src/ffi.rs\<close>, the handshake of
  \<^verbatim>\<open>crates/duvm-backend-rdma/src/lib.rs\<close>, and the calls of libibverbs, librdmacm and libc as
  the fields of a record \<open>rdma_verbs\<close> over a world \<open>'w\<close>. A pointer is its address, \<open>None\<close> for null; a
  \<^verbatim>\<open>c_int\<close> result is an \<^typ>\<open>int\<close>.
\<close>

section \<open>Constants\<close>

definition IBV_ACCESS_LOCAL_WRITE :: int where "IBV_ACCESS_LOCAL_WRITE = 1"
definition IBV_ACCESS_REMOTE_WRITE :: int where "IBV_ACCESS_REMOTE_WRITE = 2"
definition IBV_ACCESS_REMOTE_READ :: int where "IBV_ACCESS_REMOTE_READ = 4"
definition IBV_ACCESS_ON_DEMAND :: int where "IBV_ACCESS_ON_DEMAND = push_bit 6 1"
definition IBV_WR_RDMA_WRITE :: int where "IBV_WR_RDMA_WRITE = 0"
definition IBV_WR_RDMA_READ :: int where "IBV_WR_RDMA_READ = 4"
definition IBV_WC_SUCCESS :: int where "IBV_WC_SUCCESS = 0"
definition RDMA_CM_EVENT_ADDR_RESOLVED :: int where "RDMA_CM_EVENT_ADDR_RESOLVED = 0"
definition RDMA_CM_EVENT_ROUTE_RESOLVED :: int where "RDMA_CM_EVENT_ROUTE_RESOLVED = 2"
definition RDMA_CM_EVENT_CONNECT_REQUEST :: int where "RDMA_CM_EVENT_CONNECT_REQUEST = 4"
definition RDMA_CM_EVENT_REJECTED :: int where "RDMA_CM_EVENT_REJECTED = 8"
definition RDMA_CM_EVENT_ESTABLISHED :: int where "RDMA_CM_EVENT_ESTABLISHED = 9"
definition RDMA_CM_EVENT_DISCONNECTED :: int where "RDMA_CM_EVENT_DISCONNECTED = 10"

lemmas verbs_consts [duvm_defs] = IBV_WR_RDMA_WRITE_def IBV_WR_RDMA_READ_def IBV_WC_SUCCESS_def
  RDMA_CM_EVENT_ADDR_RESOLVED_def RDMA_CM_EVENT_ROUTE_RESOLVED_def RDMA_CM_EVENT_CONNECT_REQUEST_def
  RDMA_CM_EVENT_REJECTED_def RDMA_CM_EVENT_ESTABLISHED_def RDMA_CM_EVENT_DISCONNECTED_def

section \<open>Structs that cross the foreign interface\<close>

text \<open>The fields of the \<^verbatim>\<open>repr(C)\<close> structs: a pointer has 8 bytes, a \<^verbatim>\<open>c_int\<close> 4.\<close>

definition ibv_mr_fields :: "c_field list" where
  "ibv_mr_fields = [(8, 8), (8, 8), (8, 8), (8, 8), (4, 4), (4, 4), (4, 4)]"

definition ibv_sge_fields :: "c_field list" where
  "ibv_sge_fields = [(8, 8), (4, 4), (4, 4)]"

definition ibv_send_wr_fields :: "c_field list" where
  "ibv_send_wr_fields =
     [(8, 8), (8, 8), (8, 8), (4, 4), (4, 4), (4, 4), (8, 8), (4, 4), (76, 1)]"

definition ibv_wc_fields :: "c_field list" where
  "ibv_wc_fields = [(8, 8), (4, 4), (4, 4), (4, 4), (4, 4), (24, 1)]"

definition rdma_cm_event_fields :: "c_field list" where
  "rdma_cm_event_fields =
     [(8, 8), (8, 8), (4, 4), (4, 4), (8, 8), (1, 1), (1, 1), (1, 1), (1, 1), (1, 1), (1, 1), (1, 1),
      (1, 1), (4, 4), (36, 1)]"

definition rdma_conn_param_fields :: "c_field list" where
  "rdma_conn_param_fields =
     [(8, 8), (1, 1), (1, 1), (1, 1), (1, 1), (1, 1), (1, 1), (1, 1), (1, 1), (4, 4), (4, 1)]"

definition ibv_qp_cap_fields :: "c_field list" where
  "ibv_qp_cap_fields = [(4, 4), (4, 4), (4, 4), (4, 4), (4, 4)]"

definition ibv_qp_init_attr_fields :: "c_field list" where
  "ibv_qp_init_attr_fields =
     [(8, 8), (8, 8), (8, 8), (8, 8), (c_size 4 ibv_qp_cap_fields, 4), (4, 4), (4, 4), (4, 1)]"

definition rdma_handshake_fields :: "c_field list" where
  "rdma_handshake_fields = [(4, 4), (4, 4), (8, 8), (8, 8)]"

lemmas ffi_layout_defs = layout_defs ibv_mr_fields_def ibv_sge_fields_def ibv_send_wr_fields_def
  ibv_wc_fields_def rdma_cm_event_fields_def rdma_conn_param_fields_def ibv_qp_cap_fields_def
  ibv_qp_init_attr_fields_def rdma_handshake_fields_def

section \<open>The handshake\<close>

record rdma_handshake =
  hs_rkey :: u32
  hs_pad :: u32
  hs_addr :: u64
  hs_size :: u64

definition HANDSHAKE_SIZE :: nat where
  "HANDSHAKE_SIZE = c_size 8 rdma_handshake_fields"

text \<open>The struct as the bytes of the connection's private data, and the unaligned read of it.\<close>

definition handshake_bytes :: "rdma_handshake \<Rightarrow> u8 list" where
  "handshake_bytes h =
     le_bytes 4 (ucast (hs_rkey h)) @ le_bytes 4 (ucast (hs_pad h)) @ to_le_bytes (hs_addr h) @
     to_le_bytes (hs_size h)"

definition read_handshake :: "u8 list \<Rightarrow> rdma_handshake" where
  "read_handshake bs =
     \<lparr>hs_rkey = ucast (from_le_bytes (take 4 bs)), hs_pad = ucast (from_le_bytes (take 4 (drop 4 bs))),
      hs_addr = from_le_bytes (take 8 (drop 8 bs)), hs_size = from_le_bytes (take 8 (drop 16 bs))\<rparr>"

lemma ucast_take_bit_32: "ucast (take_bit 32 (ucast x :: u64)) = (x :: u32)"
  by (rule bit_word_eqI) (auto simp: bit_simps)

lemma length_handshake_bytes: "length (handshake_bytes h) = 24"
  by (simp add: handshake_bytes_def length_le_bytes)

lemma read_handshake_bytes: "read_handshake (handshake_bytes h @ rest) = h"
  by (simp add: read_handshake_def handshake_bytes_def length_le_bytes from_le_bytes_le_bytes
      ucast_take_bit_32)

lemma HANDSHAKE_SIZE_eq: "HANDSHAKE_SIZE = 24"
  by (simp add: HANDSHAKE_SIZE_def ffi_layout_defs)

section \<open>The libraries\<close>

datatype rdma_resource =
    EventChannel u64
  | CmId u64
  | Pd u64
  | Cq u64
  | Buffer u64
  | Mr u64
  | Qp u64 u64 u64 \<comment> \<open>of an identifier, with its protection domain and completion queue\<close>

record cm_event =
  ev_id :: u64
  ev_event :: int
  ev_private_data :: "u8 list option"

record memory_region =
  mr_ptr :: u64
  mr_lkey :: u32
  mr_rkey :: u32

text \<open>The fields of a work request that the code sets, with its one scatter-gather element.\<close>

record send_wr =
  wr_opcode :: int
  wr_local_addr :: u64
  wr_length :: u32
  wr_lkey :: u32
  wr_remote_addr :: u64
  wr_rkey :: u32

text \<open>
  \<open>vb_release\<close> stands for the call that gives a resource back: \<^verbatim>\<open>rdma_destroy_event_channel\<close>,
  \<^verbatim>\<open>rdma_destroy_id\<close>, \<^verbatim>\<open>ibv_dealloc_pd\<close>, \<^verbatim>\<open>ibv_destroy_cq\<close>, \<^verbatim>\<open>munmap\<close>, \<^verbatim>\<open>ibv_dereg_mr\<close>; the code
  ignores the results of all of them. \<open>vb_mem_write\<close> and \<open>vb_mem_read\<close> are the copies to and from
  a buffer, \<open>vb_verbs\<close> the device context of a connection identifier.
\<close>

record 'w rdma_verbs =
  vb_get_device_list :: "'w \<Rightarrow> (u64 option \<times> int) \<times> 'w"
  vb_create_event_channel :: "'w \<Rightarrow> u64 option \<times> 'w"
  vb_create_id :: "u64 \<Rightarrow> 'w \<Rightarrow> (int \<times> u64) \<times> 'w"
  vb_resolve_addr :: "u64 \<Rightarrow> u8 list \<Rightarrow> u16 \<Rightarrow> 'w \<Rightarrow> int \<times> 'w"
  vb_resolve_route :: "u64 \<Rightarrow> 'w \<Rightarrow> int \<times> 'w"
  vb_bind_addr :: "u64 \<Rightarrow> u16 \<Rightarrow> 'w \<Rightarrow> int \<times> 'w"
  vb_listen :: "u64 \<Rightarrow> 'w \<Rightarrow> int \<times> 'w"
  vb_poll :: "u64 \<Rightarrow> int \<Rightarrow> 'w \<Rightarrow> int \<times> 'w"
  vb_get_cm_event :: "u64 \<Rightarrow> 'w \<Rightarrow> (int \<times> cm_event) \<times> 'w"
  vb_ack_cm_event :: "cm_event \<Rightarrow> 'w \<Rightarrow> 'w"
  vb_verbs :: "u64 \<Rightarrow> 'w \<Rightarrow> u64 option"
  vb_alloc_pd :: "u64 \<Rightarrow> 'w \<Rightarrow> u64 option \<times> 'w"
  vb_create_cq :: "u64 \<Rightarrow> 'w \<Rightarrow> u64 option \<times> 'w"
  vb_mmap :: "u64 \<Rightarrow> 'w \<Rightarrow> u64 option \<times> 'w"
  vb_madvise :: "u64 \<Rightarrow> u64 \<Rightarrow> string \<Rightarrow> 'w \<Rightarrow> 'w"
  vb_reg_mr :: "u64 \<Rightarrow> u64 \<Rightarrow> u64 \<Rightarrow> int \<Rightarrow> 'w \<Rightarrow> memory_region option \<times> 'w"
  vb_create_qp :: "u64 \<Rightarrow> u64 \<Rightarrow> u64 \<Rightarrow> 'w \<Rightarrow> int \<times> 'w"
  vb_connect :: "u64 \<Rightarrow> 'w \<Rightarrow> int \<times> 'w"
  vb_accept :: "u64 \<Rightarrow> u8 list \<Rightarrow> 'w \<Rightarrow> int \<times> 'w"
  vb_disconnect :: "u64 \<Rightarrow> 'w \<Rightarrow> 'w"
  vb_release :: "rdma_resource \<Rightarrow> 'w \<Rightarrow> 'w"
  vb_post_send :: "u64 \<Rightarrow> send_wr \<Rightarrow> 'w \<Rightarrow> int \<times> 'w"
  vb_poll_cq :: "u64 \<Rightarrow> 'w \<Rightarrow> (int \<times> int) \<times> 'w"
  vb_mem_write :: "u64 \<Rightarrow> u8 list \<Rightarrow> 'w \<Rightarrow> 'w"
  vb_mem_read :: "u64 \<Rightarrow> nat \<Rightarrow> 'w \<Rightarrow> u8 list"
  vb_now :: "'w \<Rightarrow> nat \<times> 'w"

definition release_all :: "'w rdma_verbs \<Rightarrow> rdma_resource list \<Rightarrow> 'w \<Rightarrow> 'w" where
  "release_all V rs w = fold (vb_release V) rs w"

text \<open>
  \<^verbatim>\<open>ffi::rdma_available\<close>; the device list is given back at once and does not change the world.
\<close>

definition rdma_available :: "'w rdma_verbs \<Rightarrow> 'w \<Rightarrow> bool \<times> 'w" where
  "rdma_available V w =
     (case vb_get_device_list V w of ((list, num_devices), w') \<Rightarrow>
      if list = None then (False, w') else (num_devices > 0, w'))"

section \<open>Properties\<close>


text \<open>
  The handshake the server puts into the private data is the one the client reads from it, whatever
  bytes follow.
\<close>

theorem handshake_roundtrip:
  "read_handshake (handshake_bytes h @ rest) = h \<and> length (handshake_bytes h) = HANDSHAKE_SIZE"
  by (simp add: read_handshake_bytes length_handshake_bytes HANDSHAKE_SIZE_eq)

end
