(* ===== verification/Rdma_Backend.thy ===== *)
theory Rdma_Backend
  imports Rdma_Verbs
begin

unbundle bit_operations_syntax

text \<open>
  The RDMA backend, \<^verbatim>\<open>crates/duvm-backend-rdma/src/lib.rs\<close>: connection setup through librdmacm, one
  page transfers by RDMA WRITE and READ through a registered local buffer. The libraries are
  the record \<open>rdma_verbs\<close>; a fabric that implements them is in the theory \<open>Rdma_Fabric\<close>.
\<close>

section \<open>State\<close>

record rdma_state =
  rs_event_channel :: u64
  rs_cm_id :: u64
  rs_pd :: u64
  rs_cq :: u64
  rs_local_mr :: memory_region
  rs_local_buf :: u64
  rs_local_buf_size :: nat
  rs_remote_addr :: u64
  rs_remote_rkey :: u32
  rs_remote_size :: u64

record rdma_backend =
  rb_name :: string
  rb_addr :: string
  rb_backend_id :: u8
  rb_max_pages :: u64
  rb_pages_used :: u64
  rb_state :: "rdma_state option"
  rb_total_store_ns :: u64
  rb_total_load_ns :: u64
  rb_store_count :: u64
  rb_load_count :: u64

definition rb_new :: "u8 \<Rightarrow> string \<Rightarrow> rdma_backend" where
  "rb_new i addr =
     \<lparr>rb_name = ''rdma('' @ addr @ '')'', rb_addr = addr, rb_backend_id = i,
      rb_max_pages = 1024 * 1024, rb_pages_used = 0, rb_state = None, rb_total_store_ns = 0,
      rb_total_load_ns = 0, rb_store_count = 0, rb_load_count = 0\<rparr>"

section \<open>Connecting\<close>

definition wait_cm_event ::
  "'w rdma_verbs \<Rightarrow> u64 \<Rightarrow> int \<Rightarrow> 'w \<Rightarrow> cm_event res \<times> 'w" where
  "wait_cm_event V ec timeout_ms w =
     (case vb_poll V ec timeout_ms w of (ret, w1) \<Rightarrow>
      if ret \<le> 0 then (Err (RdmaTimeout ''rdma_get_cm_event''), w1)
      else
        (case vb_get_cm_event V ec w1 of ((ret, event), w2) \<Rightarrow>
         if ret \<noteq> 0 then (Err (RdmaFailed ''rdma_get_cm_event''), w2) else (Ok event, w2)))"

text \<open>Wait for an event and check its type; an event of another type is acknowledged at once.\<close>

definition expect_event ::
  "'w rdma_verbs \<Rightarrow> u64 \<Rightarrow> int \<Rightarrow> int \<Rightarrow> string \<Rightarrow> 'w \<Rightarrow> cm_event res \<times> 'w" where
  "expect_event V ec timeout_ms expected what w =
     (case wait_cm_event V ec timeout_ms w of
        (Ok event, w1) \<Rightarrow>
          if ev_event event \<noteq> expected then (Err (RdmaFailed what), vb_ack_cm_event V event w1)
          else (Ok event, w1)
      | (Err e, w1) \<Rightarrow> (Err e, w1)
      | (Panic, w1) \<Rightarrow> (Panic, w1))"

text \<open>The port and the host of \<^verbatim>\<open>host:port\<close>; the host must be a dotted address.\<close>

definition addr_port :: "string \<Rightarrow> u16" where
  "addr_port addr = (case parse_u16 (last (split_on CHR '':'' addr)) of Some p \<Rightarrow> p | None \<Rightarrow> 9200)"

definition addr_ip :: "string \<Rightarrow> u8 list option" where
  "addr_ip addr = parse_ipv4 (hd (split_on CHR '':'' addr))"

text \<open>Address resolution and route resolution, each followed by its event.\<close>

definition resolve ::
  "'w rdma_verbs \<Rightarrow> u64 \<Rightarrow> u64 \<Rightarrow> u8 list \<Rightarrow> u16 \<Rightarrow> 'w \<Rightarrow> unit res \<times> 'w" where
  "resolve V ec cm_id ip port w =
     (case vb_resolve_addr V cm_id ip port w of (ret, w1) \<Rightarrow>
      if ret \<noteq> 0 then (Err (RdmaFailed ''rdma_resolve_addr''), w1)
      else
        (case expect_event V ec 5000 RDMA_CM_EVENT_ADDR_RESOLVED ''address resolution'' w1 of
           (Err e, w2) \<Rightarrow> (Err e, w2)
         | (Panic, w2) \<Rightarrow> (Panic, w2)
         | (Ok event, w2) \<Rightarrow>
             (case vb_resolve_route V cm_id (vb_ack_cm_event V event w2) of (ret, w3) \<Rightarrow>
              if ret \<noteq> 0 then (Err (RdmaFailed ''rdma_resolve_route''), w3)
              else
                (case expect_event V ec 5000 RDMA_CM_EVENT_ROUTE_RESOLVED ''route resolution'' w3 of
                   (Err e, w4) \<Rightarrow> (Err e, w4)
                 | (Panic, w4) \<Rightarrow> (Panic, w4)
                 | (Ok event, w4) \<Rightarrow> (Ok (), vb_ack_cm_event V event w4)))))"

text \<open>
  The local resources: protection domain, completion queue, buffer, memory region and queue
  pair. Each failure gives back what this part has acquired.
\<close>

definition open_resources ::
  "'w rdma_verbs \<Rightarrow> u64 \<Rightarrow> 'w \<Rightarrow> (u64 \<times> u64 \<times> u64 \<times> memory_region) res \<times> 'w" where
  "open_resources V cm_id w =
     (case vb_alloc_pd V cm_id w of
        (None, w1) \<Rightarrow> (Err (RdmaFailed ''ibv_alloc_pd''), w1)
      | (Some pd, w1) \<Rightarrow>
          (case vb_create_cq V cm_id w1 of
             (None, w2) \<Rightarrow> (Err (RdmaFailed ''ibv_create_cq''), release_all V [Pd pd] w2)
           | (Some cq, w2) \<Rightarrow>
               (case vb_mmap V (of_nat PAGE_SIZE) w2 of
                  (None, w3) \<Rightarrow> (Err (RdmaFailed ''mmap''), release_all V [Cq cq, Pd pd] w3)
                | (Some buf, w3) \<Rightarrow>
                    (case vb_reg_mr V pd buf (of_nat PAGE_SIZE)
                            (IBV_ACCESS_LOCAL_WRITE OR IBV_ACCESS_REMOTE_WRITE OR IBV_ACCESS_REMOTE_READ)
                            w3 of
                       (None, w4) \<Rightarrow>
                         (Err (RdmaFailed ''ibv_reg_mr''), release_all V [Buffer buf, Cq cq, Pd pd] w4)
                     | (Some mr, w4) \<Rightarrow>
                         (case vb_create_qp V cm_id pd cq w4 of (ret, w5) \<Rightarrow>
                          if ret \<noteq> 0 then
                            (Err (RdmaFailed ''rdma_create_qp''),
                             release_all V [Mr (mr_ptr mr), Buffer buf, Cq cq, Pd pd] w5)
                          else (Ok (pd, cq, buf, mr), w5))))))"

text \<open>The connection request, its answer and the handshake in the answer.\<close>

definition connect_peer ::
  "'w rdma_verbs \<Rightarrow> u64 \<Rightarrow> u64 \<Rightarrow> 'w \<Rightarrow> rdma_handshake res \<times> 'w" where
  "connect_peer V ec cm_id w =
     (case vb_connect V cm_id w of (ret, w1) \<Rightarrow>
      if ret \<noteq> 0 then (Err (RdmaFailed ''rdma_connect''), w1)
      else
        (case expect_event V ec 10000 RDMA_CM_EVENT_ESTABLISHED ''connect'' w1 of
           (Err e, w2) \<Rightarrow> (Err e, w2)
         | (Panic, w2) \<Rightarrow> (Panic, w2)
         | (Ok event, w2) \<Rightarrow>
             (case ev_private_data event of
                None \<Rightarrow> (Err NoHandshake, vb_ack_cm_event V event w2)
              | Some pdata \<Rightarrow>
                  if length pdata < HANDSHAKE_SIZE then (Err NoHandshake, vb_ack_cm_event V event w2)
                  else (Ok (read_handshake pdata), vb_ack_cm_event V event w2))))"

text \<open>From the resolution of the address to the connection; the identifier is left to the caller.\<close>

definition establish ::
  "'w rdma_verbs \<Rightarrow> u64 \<Rightarrow> u64 \<Rightarrow> u8 list \<Rightarrow> u16 \<Rightarrow> 'w \<Rightarrow> rdma_state res \<times> 'w" where
  "establish V ec cm_id ip port w =
     (case resolve V ec cm_id ip port w of
        (Err e, w1) \<Rightarrow> (Err e, w1)
      | (Panic, w1) \<Rightarrow> (Panic, w1)
      | (Ok _, w1) \<Rightarrow>
          (case open_resources V cm_id w1 of
             (Err e, w2) \<Rightarrow> (Err e, w2)
           | (Panic, w2) \<Rightarrow> (Panic, w2)
           | (Ok (pd, cq, buf, mr), w2) \<Rightarrow>
               (case connect_peer V ec cm_id w2 of
                  (Err e, w3) \<Rightarrow> (Err e, release_all V [Mr (mr_ptr mr), Buffer buf, Cq cq, Pd pd] w3)
                | (Panic, w3) \<Rightarrow> (Panic, w3)
                | (Ok h, w3) \<Rightarrow>
                    (Ok \<lparr>rs_event_channel = ec, rs_cm_id = cm_id, rs_pd = pd, rs_cq = cq,
                         rs_local_mr = mr, rs_local_buf = buf, rs_local_buf_size = PAGE_SIZE,
                         rs_remote_addr = hs_addr h, rs_remote_rkey = hs_rkey h,
                         rs_remote_size = hs_size h\<rparr>, w3))))"

definition rb_init ::
  "'w rdma_verbs \<Rightarrow> rdma_backend \<Rightarrow> backend_config \<Rightarrow> 'w \<Rightarrow> unit res \<times> rdma_backend \<times> 'w" where
  "rb_init V b config w =
     (let b1 = b\<lparr>rb_max_pages := bc_max_pages config\<rparr> in
      case rdma_available V w of (available, w1) \<Rightarrow>
      if \<not> available then (Err RdmaUnavailable, b1, w1)
      else
        (case vb_create_event_channel V w1 of
           (None, w2) \<Rightarrow> (Err (RdmaFailed ''rdma_create_event_channel''), b1, w2)
         | (Some ec, w2) \<Rightarrow>
             (case vb_create_id V ec w2 of ((ret, cm_id), w3) \<Rightarrow>
              if ret \<noteq> 0 then
                (Err (RdmaFailed ''rdma_create_id''), b1, release_all V [EventChannel ec] w3)
              else
                (case addr_ip (rb_addr b) of
                   None \<Rightarrow> (Err (BadIp (rb_addr b)), b1, w3)
                 | Some ip \<Rightarrow>
                     (case establish V ec cm_id ip (addr_port (rb_addr b)) w3 of
                        (Err e, w4) \<Rightarrow> (Err e, b1, release_all V [CmId cm_id, EventChannel ec] w4)
                      | (Panic, w4) \<Rightarrow> (Panic, b1, w4)
                      | (Ok st, w4) \<Rightarrow> (Ok (), b1\<lparr>rb_state := Some st\<rparr>, w4))))))"

section \<open>Transfers\<close>

definition rdma_name :: "bool \<Rightarrow> string" where
  "rdma_name is_write = (if is_write then ''WRITE'' else ''READ'')"

text \<open>
  The loop that polls for the completion, for at most five seconds. It need not end when the
  clock stands still: \<open>None\<close> then.
\<close>

partial_function (option) poll_completion ::
  "'w rdma_verbs \<Rightarrow> u64 \<Rightarrow> bool \<Rightarrow> nat \<Rightarrow> 'w \<Rightarrow> (unit res \<times> 'w) option" where
  "poll_completion V cq is_write start w =
     (case vb_poll_cq V cq w of ((n, status), w1) \<Rightarrow>
      if n > 0 then
        (if status \<noteq> IBV_WC_SUCCESS then Some (Err (RdmaFailed (rdma_name is_write)), w1)
         else Some (Ok (), w1))
      else if n < 0 then Some (Err (RdmaFailed ''ibv_poll_cq''), w1)
      else
        (case vb_now V w1 of (t, w2) \<Rightarrow>
         if t - start > 5 * 1000000000 then Some (Err (RdmaTimeout (rdma_name is_write)), w2)
         else poll_completion V cq is_write start w2))"

definition rdma_transfer ::
  "'w rdma_verbs \<Rightarrow> rdma_state \<Rightarrow> u64 \<Rightarrow> u64 \<Rightarrow> u64 \<Rightarrow> bool \<Rightarrow> 'w \<Rightarrow> (unit res \<times> 'w) option" where
  "rdma_transfer V st local_offset remote_offset len is_write w =
     (case vb_post_send V (rs_cm_id st)
             \<lparr>wr_opcode = (if is_write then IBV_WR_RDMA_WRITE else IBV_WR_RDMA_READ),
              wr_local_addr = rs_local_buf st + local_offset, wr_length = ucast len,
              wr_lkey = mr_lkey (rs_local_mr st), wr_remote_addr = rs_remote_addr st + remote_offset,
              wr_rkey = rs_remote_rkey st\<rparr> w of (ret, w1) \<Rightarrow>
      if ret \<noteq> 0 then Some (Err (RdmaFailed ''ibv_post_send''), w1)
      else
        (case vb_now V w1 of (start, w2) \<Rightarrow> poll_completion V (rs_cq st) is_write start w2))"

section \<open>The backend's operations\<close>

text \<open>With no other thread in between, the first compare-and-exchange of the reservation succeeds.\<close>

definition rb_alloc_page :: "rdma_backend \<Rightarrow> 'w \<Rightarrow> page_handle res \<times> rdma_backend \<times> 'w" where
  "rb_alloc_page b w =
     (if rb_pages_used b \<ge> rb_max_pages b then (Err (RdmaFull (rb_max_pages b)), b, w)
      else (ph_new (rb_backend_id b) (rb_pages_used b), b\<lparr>rb_pages_used := rb_pages_used b + 1\<rparr>, w))"

definition rb_free_page :: "rdma_backend \<Rightarrow> page_handle \<Rightarrow> 'w \<Rightarrow> unit res \<times> rdma_backend \<times> 'w" where
  "rb_free_page b h w = (Ok (), b\<lparr>rb_pages_used := rb_pages_used b - 1\<rparr>, w)"

text \<open>A call that spins for ever gives its caller nothing, like one that panics.\<close>

definition rb_store_page ::
  "'w rdma_verbs \<Rightarrow> rdma_backend \<Rightarrow> page_handle \<Rightarrow> page \<Rightarrow> 'w \<Rightarrow> unit res \<times> rdma_backend \<times> 'w" where
  "rb_store_page V b h d w =
     (case vb_now V w of (start, w1) \<Rightarrow>
      (case rb_state b of
         None \<Rightarrow> (Err RdmaNotInitialized, b, w1)
       | Some st \<Rightarrow>
           (case rdma_transfer V st 0 (ph_offset h * of_nat PAGE_SIZE) (of_nat PAGE_SIZE) True
                   (vb_mem_write V (rs_local_buf st) d w1) of
              None \<Rightarrow> (Panic, b, w1)
            | Some (Err e, w2) \<Rightarrow> (Err e, b, w2)
            | Some (Panic, w2) \<Rightarrow> (Panic, b, w2)
            | Some (Ok _, w2) \<Rightarrow>
                (case vb_now V w2 of (t, w3) \<Rightarrow>
                 (Ok (), b\<lparr>rb_total_store_ns := rb_total_store_ns b + of_nat (t - start),
                           rb_store_count := rb_store_count b + 1\<rparr>, w3)))))"

definition rb_load_page ::
  "'w rdma_verbs \<Rightarrow> rdma_backend \<Rightarrow> page_handle \<Rightarrow> 'w \<Rightarrow> page res \<times> rdma_backend \<times> 'w" where
  "rb_load_page V b h w =
     (case vb_now V w of (start, w1) \<Rightarrow>
      (case rb_state b of
         None \<Rightarrow> (Err RdmaNotInitialized, b, w1)
       | Some st \<Rightarrow>
           (case rdma_transfer V st 0 (ph_offset h * of_nat PAGE_SIZE) (of_nat PAGE_SIZE) False w1 of
              None \<Rightarrow> (Panic, b, w1)
            | Some (Err e, w2) \<Rightarrow> (Err e, b, w2)
            | Some (Panic, w2) \<Rightarrow> (Panic, b, w2)
            | Some (Ok _, w2) \<Rightarrow>
                (case vb_now V w2 of (t, w3) \<Rightarrow>
                 (Ok (vb_mem_read V (rs_local_buf st) PAGE_SIZE w2),
                  b\<lparr>rb_total_load_ns := rb_total_load_ns b + of_nat (t - start),
                    rb_load_count := rb_load_count b + 1\<rparr>, w3)))))"

definition rb_capacity :: "rdma_backend \<Rightarrow> u64 \<times> u64" where
  "rb_capacity b = (rb_max_pages b, rb_pages_used b)"

definition rb_latency_ns :: "rdma_backend \<Rightarrow> u64" where
  "rb_latency_ns b =
     (if rb_load_count b = 0 then 3000 else rb_total_load_ns b div rb_load_count b)"

definition rb_is_healthy :: "rdma_backend \<Rightarrow> bool" where
  "rb_is_healthy b \<longleftrightarrow> rb_state b \<noteq> None"

definition rb_shutdown :: "'w rdma_verbs \<Rightarrow> rdma_backend \<Rightarrow> 'w \<Rightarrow> unit res \<times> rdma_backend \<times> 'w" where
  "rb_shutdown V b w =
     (case rb_state b of
        None \<Rightarrow> (Ok (), b, w)
      | Some st \<Rightarrow>
          (Ok (), b\<lparr>rb_state := None\<rparr>,
           release_all V [Mr (mr_ptr (rs_local_mr st)), Cq (rs_cq st), Pd (rs_pd st),
                          Buffer (rs_local_buf st), CmId (rs_cm_id st),
                          EventChannel (rs_event_channel st)]
             (vb_disconnect V (rs_cm_id st) w)))"

definition rb_vt :: "'w rdma_verbs \<Rightarrow> (rdma_backend, 'w) backend_vt" where
  "rb_vt V =
     \<lparr>vt_name = rb_name, vt_tier = (\<lambda>_. Rdma), vt_init = rb_init V, vt_alloc_page = rb_alloc_page,
      vt_free_page = rb_free_page, vt_store_page = rb_store_page V, vt_load_page = rb_load_page V,
      vt_capacity = rb_capacity, vt_latency_ns = rb_latency_ns, vt_is_healthy = rb_is_healthy,
      vt_shutdown = rb_shutdown V\<rparr>"

lemmas rb_ops = rb_alloc_page_def rb_free_page_def rb_store_page_def rb_load_page_def rb_capacity_def
  rb_is_healthy_def

section \<open>Resources\<close>

text \<open>
  What the manual pages promise about resources. A call that creates one returns a new handle
  or fails without effect; \<^verbatim>\<open>ibv_destroy_cq\<close> and \<^verbatim>\<open>ibv_dealloc_pd\<close> fail while a queue pair still uses the
  completion queue or the protection domain; the other calls of the setup leave the resources alone.
\<close>

definition held_by_qp :: "rdma_resource set \<Rightarrow> rdma_resource \<Rightarrow> bool" where
  "held_by_qp rs r \<longleftrightarrow>
     (case r of Cq c \<Rightarrow> (\<exists>i p. Qp i p c \<in> rs) | Pd p \<Rightarrow> (\<exists>i c. Qp i p c \<in> rs) | _ \<Rightarrow> False)"

definition acquires ::
  "('w \<Rightarrow> rdma_resource set) \<Rightarrow> (u64 \<Rightarrow> rdma_resource) \<Rightarrow> 'w \<Rightarrow> u64 option \<Rightarrow> 'w \<Rightarrow> bool" where
  "acquires live mk w p w' \<longleftrightarrow>
     (case p of None \<Rightarrow> live w' = live w
      | Some x \<Rightarrow> live w' = insert (mk x) (live w) \<and> mk x \<notin> live w)"

text \<open>The completion queue and the protection domain of a queue pair are there as long as it is.\<close>

definition qp_closed :: "rdma_resource set \<Rightarrow> bool" where
  "qp_closed rs \<longleftrightarrow> (\<forall>i p c. Qp i p c \<in> rs \<longrightarrow> Pd p \<in> rs \<and> Cq c \<in> rs)"

locale rdma_provider =
  fixes V :: "'w rdma_verbs" and live :: "'w \<Rightarrow> rdma_resource set"
  assumes live_devices: "vb_get_device_list V w = (x, w') \<Longrightarrow> live w' = live w"
    and live_channel: "vb_create_event_channel V w = (p, w') \<Longrightarrow> acquires live EventChannel w p w'"
    and live_id: "vb_create_id V ec w = ((ret, i), w') \<Longrightarrow>
      acquires live CmId w (if ret = 0 then Some i else None) w'"
    and live_resolve: "vb_resolve_addr V i ip port w = (ret, w') \<Longrightarrow> live w' = live w"
      "vb_resolve_route V i w = (ret, w') \<Longrightarrow> live w' = live w"
    and live_events: "vb_poll V ec ms w = (ret, w') \<Longrightarrow> live w' = live w"
      "vb_get_cm_event V ec w = (y, w') \<Longrightarrow> live w' = live w"
      "live (vb_ack_cm_event V ev w) = live w"
    and live_pd: "vb_alloc_pd V i w = (p, w') \<Longrightarrow> acquires live Pd w p w'"
    and live_cq: "vb_create_cq V i w = (p, w') \<Longrightarrow> acquires live Cq w p w'"
    and live_mmap: "vb_mmap V n w = (p, w') \<Longrightarrow> acquires live Buffer w p w'"
    and live_mr: "vb_reg_mr V pd buf n acc w = (mr, w') \<Longrightarrow>
      acquires live Mr w (map_option mr_ptr mr) w'"
    and live_qp: "vb_create_qp V i pd cq w = (ret, w') \<Longrightarrow>
      live w' = (if ret = 0 then insert (Qp i pd cq) (live w) else live w)"
    and live_connect: "vb_connect V i w = (ret, w') \<Longrightarrow> live w' = live w"
    and live_disconnect: "live (vb_disconnect V i w) = live w"
    and live_release: "live (vb_release V r w) = (if held_by_qp (live w) r then live w else live w - {r})"
begin

lemmas live_simps = live_events(3) live_release held_by_qp_def

lemma live_release_all:
  assumes "\<And>r. r \<in> set rs \<Longrightarrow> \<not> held_by_qp (live w) r"
  shows "live (release_all V rs w) = live w - set rs"
proof -
  have "live (fold (vb_release V) rs w) = live w - set rs"
    using assms
  proof (induction rs arbitrary: w)
    case (Cons r rs)
    have "\<not> held_by_qp (live (vb_release V r w)) x" if "x \<in> set rs" for x
      using Cons.prems [of x] that by (auto simp: held_by_qp_def live_release split: rdma_resource.splits)
    with Cons show ?case by (simp add: live_release) blast
  qed simp
  then show ?thesis by (simp add: release_all_def)
qed

lemma live_available: "rdma_available V w = (x, w') \<Longrightarrow> live w' = live w"
  by (auto simp: rdma_available_def split: prod.splits if_splits dest: live_devices)

lemma live_wait: "wait_cm_event V ec ms w = (r, w') \<Longrightarrow> live w' = live w"
  by (auto simp: wait_cm_event_def split: prod.splits if_splits dest!: live_events(1,2))

lemma live_expect:
  assumes "expect_event V ec ms e what w = (r, w')"
  shows "live w' = live w"
proof -
  obtain x w1 where x: "wait_cm_event V ec ms w = (x, w1)" by (rule prod.exhaust)
  have l: "live w1 = live w" by (rule live_wait [OF x])
  show ?thesis
  proof (cases x)
    case (Ok ev)
    then have "w' = vb_ack_cm_event V ev w1 \<or> w' = w1"
      using assms x unfolding expect_event_def by (simp split: if_splits)
    then show ?thesis using l live_events(3) by metis
  next
    case (Err er)
    then show ?thesis using assms x l unfolding expect_event_def by simp
  next
    case Panic
    then show ?thesis using assms x l unfolding expect_event_def by simp
  qed
qed

lemma live_resolve_both:
  assumes "resolve V ec i ip port w = (r, w')"
  shows "live w' = live w"
proof -
  obtain a w1 where a: "vb_resolve_addr V i ip port w = (a, w1)" by (rule prod.exhaust)
  obtain x w2 where x: "expect_event V ec 5000 RDMA_CM_EVENT_ADDR_RESOLVED ''address resolution'' w1 = (x, w2)"
    by (rule prod.exhaust)
  note before = live_resolve(1) [OF a] live_expect [OF x]
  show ?thesis
  proof (cases "a = 0 \<and> is_ok x")
    case True
    then obtain ev where ev: "x = Ok ev" by (auto simp: is_ok_iff)
    obtain b w3 where b: "vb_resolve_route V i (vb_ack_cm_event V ev w2) = (b, w3)" by (rule prod.exhaust)
    obtain y w4 where y: "expect_event V ec 5000 RDMA_CM_EVENT_ROUTE_RESOLVED ''route resolution'' w3 = (y, w4)"
      by (rule prod.exhaust)
    from before live_resolve(2) [OF b] live_expect [OF y] assms True a x ev b y show ?thesis
      by (cases y) (auto simp: resolve_def live_events(3) split: if_splits)
  next
    case False
    with before assms a x show ?thesis by (cases x) (auto simp: resolve_def split: if_splits)
  qed
qed

lemma live_connect_peer:
  assumes "connect_peer V ec i w = (r, w')"
  shows "live w' = live w"
proof -
  obtain a w1 where a: "vb_connect V i w = (a, w1)" by (rule prod.exhaust)
  obtain x w2 where x: "expect_event V ec 10000 RDMA_CM_EVENT_ESTABLISHED ''connect'' w1 = (x, w2)"
    by (rule prod.exhaust)
  from live_connect [OF a] live_expect [OF x] assms a x show ?thesis
    by (cases x) (auto simp: connect_peer_def live_events(3) split: if_splits option.splits)
qed

text \<open>The state in which \<open>rs\<close> is what has been acquired since \<open>w0\<close>.\<close>

definition owned :: "'w \<Rightarrow> rdma_resource list \<Rightarrow> 'w \<Rightarrow> bool" where
  "owned w0 rs w \<longleftrightarrow> live w = live w0 \<union> set rs \<and> set rs \<inter> live w0 = {}"

lemma owned_start: "live w = live w0 \<Longrightarrow> owned w0 [] w"
  by (simp add: owned_def)

lemma owned_same: "owned w0 rs w \<Longrightarrow> live w' = live w \<Longrightarrow> owned w0 rs w'"
  by (simp add: owned_def)

lemma owned_None: "owned w0 rs w \<Longrightarrow> acquires live mk w None w' \<Longrightarrow> owned w0 rs w'"
  by (simp add: owned_def acquires_def)

lemma owned_Some: "owned w0 rs w \<Longrightarrow> acquires live mk w (Some p) w' \<Longrightarrow> owned w0 (mk p # rs) w'"
  by (auto simp: owned_def acquires_def)

lemma owned_release:
  assumes "owned w0 rs w" and "qp_closed (live w0)" and "\<forall>i p c. Qp i p c \<notin> set rs"
  shows "live (release_all V rs w) = live w0"
proof -
  have "\<not> held_by_qp (live w) r" if "r \<in> set rs" for r
  proof (cases r)
  qed (use that assms in \<open>auto simp: held_by_qp_def qp_closed_def owned_def\<close>)
  then show ?thesis using live_release_all [of rs w] assms(1) by (auto simp: owned_def)
qed

lemma reg_and_qp:
  assumes own: "owned w0 rs w" and closed: "qp_closed (live w0)" and rs: "\<forall>i p c. Qp i p c \<notin> set rs"
    and run: "(case vb_reg_mr V pd buf n acc w of
        (None, w4) \<Rightarrow> (Err e1, release_all V rs w4)
      | (Some mr, w4) \<Rightarrow>
          (case vb_create_qp V i pd cq w4 of (ret, w5) \<Rightarrow>
           if ret \<noteq> 0 then (Err e2, release_all V (Mr (mr_ptr mr) # rs) w5)
           else (Ok (pd, cq, buf, mr), w5))) = (r, w')"
  obtains (ok) mr v where "r = Ok (pd, cq, buf, mr)" "owned w0 (Mr (mr_ptr mr) # rs) v"
      "live w' = insert (Qp i pd cq) (live v)"
  | (failed) "\<not> is_ok r" "live w' = live w0"
proof -
  obtain m w4 where mr: "vb_reg_mr V pd buf n acc w = (m, w4)" by (rule prod.exhaust)
  note A4 = live_mr [OF mr]
  show thesis
  proof (cases m)
    case None
    with A4 owned_release [OF owned_None [OF own] closed rs] run mr show ?thesis
      by (intro failed) auto
  next
    case (Some mr')
    have O4: "owned w0 (Mr (mr_ptr mr') # rs) w4" using owned_Some [OF own] A4 Some by simp
    obtain ret w5 where qp: "vb_create_qp V i pd cq w4 = (ret, w5)" by (rule prod.exhaust)
    note A5 = live_qp [OF qp]
    show ?thesis
    proof (cases "ret = 0")
      case True
      with A5 run mr Some qp O4 show ?thesis by (intro ok) auto
    next
      case False
      with A5 have "owned w0 (Mr (mr_ptr mr') # rs) w5" using owned_same [OF O4] by simp
      from owned_release [OF this closed] rs False run mr Some qp show ?thesis
        by (intro failed) auto
    qed
  qed
qed

lemma open_resources_live:
  assumes run: "open_resources V i w = (r, w')" and closed: "qp_closed (live w)"
  obtains (ok) pd cq buf mr v where "r = Ok (pd, cq, buf, mr)"
      "owned w [Mr (mr_ptr mr), Buffer buf, Cq cq, Pd pd] v" "live w' = insert (Qp i pd cq) (live v)"
  | (failed) "\<not> is_ok r" "live w' = live w"
proof -
  obtain p1 w1 where pd: "vb_alloc_pd V i w = (p1, w1)" by (rule prod.exhaust)
  note A1 = live_pd [OF pd]
  show thesis
  proof (cases p1)
    case None
    then show ?thesis using run pd A1 by (intro failed) (auto simp: open_resources_def acquires_def)
  next
    case (Some pd')
    note pd' = this
    have O1: "owned w [Pd pd'] w1" using owned_Some [OF owned_start] A1 Some by simp
    obtain p2 w2 where cq: "vb_create_cq V i w1 = (p2, w2)" by (rule prod.exhaust)
    note A2 = live_cq [OF cq]
    show ?thesis
    proof (cases p2)
      case None
      with A2 owned_release [OF owned_None [OF O1] closed] run pd pd' cq show ?thesis
        by (intro failed) (auto simp: open_resources_def)
    next
      case (Some cq')
      note cq' = this
      have O2: "owned w [Cq cq', Pd pd'] w2" using owned_Some [OF O1] A2 Some by simp
      obtain p3 w3 where mm: "vb_mmap V (of_nat PAGE_SIZE) w2 = (p3, w3)" by (rule prod.exhaust)
      note A3 = live_mmap [OF mm]
      show ?thesis
      proof (cases p3)
        case None
        with A3 owned_release [OF owned_None [OF O2] closed] run pd pd' cq cq' mm show ?thesis
          by (intro failed) (auto simp: open_resources_def)
      next
        case (Some buf')
        have O3: "owned w [Buffer buf', Cq cq', Pd pd'] w3" using owned_Some [OF O2] A3 Some by simp
        note run' = run [unfolded open_resources_def pd pd' cq cq' mm Some prod.case option.case]
        show ?thesis
          by (rule reg_and_qp [OF O3 closed _ run']) (simp, rule ok, assumption+, rule failed, assumption+)
      qed
    qed
  qed
qed

lemma owned_trans: "owned w0 rs w \<Longrightarrow> owned w rs' v \<Longrightarrow> owned w0 (rs' @ rs) v"
  by (auto simp: owned_def)

lemma owned_closed:
  "owned w0 rs w \<Longrightarrow> qp_closed (live w0) \<Longrightarrow> \<forall>i p c. Qp i p c \<notin> set rs \<Longrightarrow> qp_closed (live w)"
  by (auto simp: owned_def qp_closed_def)

text \<open>A queue pair keeps its completion queue and its protection domain from going.\<close>

lemma release_with_qp:
  assumes own: "owned w0 [Mr m, Buffer buf, Cq c, Pd p] v"
    and live: "live w = insert (Qp i p c) (live v)"
  shows "live (release_all V [Mr m, Buffer buf, Cq c, Pd p] w) = live w0 \<union> {Qp i p c, Cq c, Pd p}"
proof -
  let ?L = "live w0 \<union> {Qp i p c, Cq c, Pd p}"
  have w: "live w = {Mr m, Buffer buf} \<union> ?L" using own live by (auto simp: owned_def)
  have fresh: "{Mr m, Buffer buf} \<inter> ?L = {}" using own by (auto simp: owned_def)
  define w1 where "w1 = vb_release V (Buffer buf) (vb_release V (Mr m) w)"
  have w1: "live w1 = ?L" unfolding w1_def using w fresh by (auto simp: live_release held_by_qp_def)
  then have "held_by_qp (live w1) (Cq c)" by (auto simp: held_by_qp_def)
  then have w2: "live (vb_release V (Cq c) w1) = ?L" using w1 by (simp add: live_release)
  then have "held_by_qp (live (vb_release V (Cq c) w1)) (Pd p)" by (auto simp: held_by_qp_def)
  then show ?thesis using w2 by (simp add: release_all_def w1_def live_release)
qed

lemma establish_live:
  assumes run: "establish V ec i ip port w = (r, w')" and closed: "qp_closed (live w)"
  obtains (ok) st where "r = Ok st" "rs_event_channel st = ec" "rs_cm_id st = i"
      "live w' = live w \<union> {Pd (rs_pd st), Cq (rs_cq st), Buffer (rs_local_buf st),
         Mr (mr_ptr (rs_local_mr st)), Qp i (rs_pd st) (rs_cq st)}"
  | (clean) e where "r = Err e" "live w' = live w"
  | (qp_left) e pd cq where "r = Err e" "live w' = live w \<union> {Qp i pd cq, Cq cq, Pd pd}"
  | (panic) "r = Panic"
proof -
  obtain x w1 where x: "resolve V ec i ip port w = (x, w1)" by (rule prod.exhaust)
  note L1 = live_resolve_both [OF x]
  obtain y w2 where y: "open_resources V i w1 = (y, w2)" by (rule prod.exhaust)
  note run' = run [unfolded establish_def x prod.case]
  show thesis
  proof (cases x)
    case (Ok u)
    have closed1: "qp_closed (live w1)" using closed L1 by simp
    from y closed1 show ?thesis
    proof (cases rule: open_resources_live)
      case (ok pd cq buf mr v)
      obtain z w3 where z: "connect_peer V ec i w2 = (z, w3)" by (rule prod.exhaust)
      note L3 = live_connect_peer [OF z]
      have own: "owned w [Mr (mr_ptr mr), Buffer buf, Cq cq, Pd pd] v" using ok(2) L1 by (simp add: owned_def)
      show ?thesis
      proof (cases z)
        case (Ok h)
        let ?st = "\<lparr>rs_event_channel = ec, rs_cm_id = i, rs_pd = pd, rs_cq = cq, rs_local_mr = mr,
          rs_local_buf = buf, rs_local_buf_size = PAGE_SIZE, rs_remote_addr = hs_addr h,
          rs_remote_rkey = hs_rkey h, rs_remote_size = hs_size h\<rparr>"
        have "r = Ok ?st" "w' = w3" using run' \<open>x = Ok u\<close> y z ok(1) Ok by simp_all
        moreover have "live w3 = live w \<union> {Pd pd, Cq cq, Buffer buf, Mr (mr_ptr mr), Qp i pd cq}"
          using own ok(3) L3 by (auto simp: owned_def)
        ultimately show ?thesis by (intro that(1) [of ?st]) simp_all
      next
        case (Err e)
        then have "r = Err e" "w' = release_all V [Mr (mr_ptr mr), Buffer buf, Cq cq, Pd pd] w3"
          using run' \<open>x = Ok u\<close> y z ok(1) by simp_all
        with release_with_qp [OF own, of w3 i] ok(3) L3 show ?thesis by (intro qp_left [of e pd cq]) simp_all
      next
        case Panic
        with run' \<open>x = Ok u\<close> y z ok(1) show ?thesis by (intro panic) simp
      qed
    next
      case failed
      show ?thesis
      proof (cases y)
        case (Err e)
        then show ?thesis using run' \<open>x = Ok u\<close> y L1 failed(2) by (intro clean [of e]) simp_all
      next
        case Panic
        then show ?thesis using run' \<open>x = Ok u\<close> y by (intro panic) simp
      qed (use failed(1) in simp)
    qed
  next
    case (Err e)
    then show ?thesis using run' L1 by (intro clean [of e]) simp_all
  next
    case Panic
    then show ?thesis using run' by (intro panic) simp
  qed
qed

lemma init_finish:
  assumes own: "owned w0 [CmId i, EventChannel ec] w" and closed: "qp_closed (live w0)"
    and run: "(case establish V ec i ip port w of
        (Err e, w4) \<Rightarrow> (Err e, b1, release_all V [CmId i, EventChannel ec] w4)
      | (Panic, w4) \<Rightarrow> (Panic, b1, w4)
      | (Ok st, w4) \<Rightarrow> (Ok (), b1\<lparr>rb_state := Some st\<rparr>, w4)) = (r, b', w')" and "r \<noteq> Panic"
  shows "(r = Ok () \<and> (\<exists>st. rb_state b' = Some st \<and>
       live w' = live w0 \<union> {EventChannel (rs_event_channel st), CmId (rs_cm_id st), Pd (rs_pd st),
         Cq (rs_cq st), Buffer (rs_local_buf st), Mr (mr_ptr (rs_local_mr st)),
         Qp (rs_cm_id st) (rs_pd st) (rs_cq st)})) \<or>
     (\<not> is_ok r \<and> b' = b1 \<and>
       (live w' = live w0 \<or> (\<exists>i pd cq. live w' = live w0 \<union> {Qp i pd cq, Cq cq, Pd pd})))"
proof -
  obtain x w4 where x: "establish V ec i ip port w = (x, w4)" by (rule prod.exhaust)
  note run' = run [unfolded x prod.case]
  have live: "live w = live w0 \<union> {CmId i, EventChannel ec}" and new: "{CmId i, EventChannel ec} \<inter> live w0 = {}"
    using own by (simp_all add: owned_def)
  have closed1: "qp_closed (live w)" by (rule owned_closed [OF own closed]) simp
  from x closed1 show ?thesis
  proof (cases rule: establish_live)
    case (ok st)
    then have "r = Ok ()" "b' = b1\<lparr>rb_state := Some st\<rparr>" "w' = w4" using run' by simp_all
    moreover have "live w4 = live w0 \<union> {EventChannel (rs_event_channel st), CmId (rs_cm_id st), Pd (rs_pd st),
         Cq (rs_cq st), Buffer (rs_local_buf st), Mr (mr_ptr (rs_local_mr st)),
         Qp (rs_cm_id st) (rs_pd st) (rs_cq st)}"
      unfolding ok(4) live ok(2,3) by blast
    ultimately show ?thesis by simp
  next
    case (clean e)
    then have "owned w0 [CmId i, EventChannel ec] w4" using owned_same [OF own] by simp
    from owned_release [OF this closed] clean run' show ?thesis by auto
  next
    case (qp_left e pd cq)
    then have L4: "live w4 = live w0 \<union> {CmId i, EventChannel ec, Qp i pd cq, Cq cq, Pd pd}" using live by blast
    have "\<not> held_by_qp (live w4) r" if "r \<in> set [CmId i, EventChannel ec]" for r
      using that by (auto simp: held_by_qp_def)
    then have "live (release_all V [CmId i, EventChannel ec] w4) = live w4 - set [CmId i, EventChannel ec]"
      by (rule live_release_all)
    then have "live (release_all V [CmId i, EventChannel ec] w4) = live w0 \<union> {Qp i pd cq, Cq cq, Pd pd}"
      unfolding L4 using new by auto
    moreover have "r = Err e" "b' = b1" "w' = release_all V [CmId i, EventChannel ec] w4"
      using qp_left(1) run' by simp_all
    ultimately have "\<not> is_ok r \<and> b' = b1 \<and> live w' = live w0 \<union> {Qp i pd cq, Cq cq, Pd pd}" by simp
    then show ?thesis by blast
  qed (use run' assms(4) in simp)
qed

text \<open>
  What an attempt to connect leaves behind: everything on success; nothing on most failures; the
  channel and the identifier when the address is not a dotted one; the queue pair, with what it
  uses, when the connection itself fails.
\<close>

lemma rb_init_live:
  assumes run: "rb_init V b cfg w = (r, b', w')" and closed: "qp_closed (live w)" and "r \<noteq> Panic"
  shows "(r = Ok () \<and> (\<exists>st. rb_state b' = Some st \<and>
       live w' = live w \<union> {EventChannel (rs_event_channel st), CmId (rs_cm_id st), Pd (rs_pd st),
         Cq (rs_cq st), Buffer (rs_local_buf st), Mr (mr_ptr (rs_local_mr st)),
         Qp (rs_cm_id st) (rs_pd st) (rs_cq st)})) \<or>
     (\<not> is_ok r \<and> rb_state b' = rb_state b \<and>
       (live w' = live w \<or>
        (r = Err (BadIp (rb_addr b)) \<and> (\<exists>ec i. live w' = live w \<union> {CmId i, EventChannel ec})) \<or>
        (\<exists>i pd cq. live w' = live w \<union> {Qp i pd cq, Cq cq, Pd pd})))"
proof -
  obtain av w1 where av: "rdma_available V w = (av, w1)" by (rule prod.exhaust)
  obtain p w2 where ch: "vb_create_event_channel V w1 = (p, w2)" by (rule prod.exhaust)
  note L1 = live_available [OF av] note L2 = live_channel [OF ch]
  show ?thesis
  proof (cases "av \<and> p \<noteq> None")
    case False
    with L1 L2 run av ch show ?thesis
      by (auto simp: rb_init_def Let_def acquires_def split: if_splits)
  next
    case True
    then obtain ec where ec: "p = Some ec" and av': "av" by blast
    have O1: "owned w [EventChannel ec] w2" using owned_Some [OF owned_start] L1 L2 ec by simp
    obtain ret i w3 where ci: "vb_create_id V ec w2 = ((ret, i), w3)" by (metis surj_pair)
    note L3 = live_id [OF ci]
    note run1 = run [unfolded rb_init_def Let_def av ch ec prod.case option.case ci]
    show ?thesis
    proof (cases "ret = 0")
      case False
      with L3 have "owned w [EventChannel ec] w3" using owned_None [OF O1] by simp
      from owned_release [OF this closed] run1 av' False show ?thesis by auto
    next
      case True
      then have O2: "owned w [CmId i, EventChannel ec] w3" using owned_Some [OF O1] L3 by simp
      show ?thesis
      proof (cases "addr_ip (rb_addr b)")
        case None
        with O2 run1 av' True show ?thesis by (auto simp: owned_def)
      next
        case (Some ip)
        have E: "(case establish V ec i ip (addr_port (rb_addr b)) w3 of
            (Err e, w4) \<Rightarrow> (Err e, b\<lparr>rb_max_pages := bc_max_pages cfg\<rparr>, release_all V [CmId i, EventChannel ec] w4)
          | (Panic, w4) \<Rightarrow> (Panic, b\<lparr>rb_max_pages := bc_max_pages cfg\<rparr>, w4)
          | (Ok st, w4) \<Rightarrow> (Ok (), b\<lparr>rb_max_pages := bc_max_pages cfg\<rparr>\<lparr>rb_state := Some st\<rparr>, w4)) = (r, b', w')"
          using run1 av' True Some by simp
        have "rb_state b' = rb_state b" if "b' = b\<lparr>rb_max_pages := bc_max_pages cfg\<rparr>" using that by simp
        with init_finish [OF O2 closed E assms(3)] show ?thesis by blast
      qed
    qed
  qed
qed

text \<open>The shutdown does not destroy the queue pair either.\<close>

lemma rb_shutdown_live:
  assumes "rb_shutdown V b w = (r, b', w')" and "rb_state b = Some st"
    and "Qp (rs_cm_id st) (rs_pd st) (rs_cq st) \<in> live w"
  shows "live w' = live w - {Mr (mr_ptr (rs_local_mr st)), Buffer (rs_local_buf st), CmId (rs_cm_id st),
    EventChannel (rs_event_channel st)}"
proof -
  define w1 where "w1 = vb_release V (Mr (mr_ptr (rs_local_mr st))) (vb_disconnect V (rs_cm_id st) w)"
  have w1: "live w1 = live w - {Mr (mr_ptr (rs_local_mr st))}"
    by (simp add: w1_def live_release live_disconnect held_by_qp_def)
  then have "held_by_qp (live w1) (Cq (rs_cq st))" using assms(3) by (auto simp: held_by_qp_def)
  then have w2: "live (vb_release V (Cq (rs_cq st)) w1) = live w1" by (simp add: live_release)
  have "held_by_qp (live w1) (Pd (rs_pd st))" using assms(3) w1 by (auto simp: held_by_qp_def)
  then have w3: "live (vb_release V (Pd (rs_pd st)) (vb_release V (Cq (rs_cq st)) w1)) = live w1"
    using w2 by (simp add: live_release)
  have "w' = vb_release V (EventChannel (rs_event_channel st)) (vb_release V (CmId (rs_cm_id st))
      (vb_release V (Buffer (rs_local_buf st)) (vb_release V (Pd (rs_pd st)) (vb_release V (Cq (rs_cq st)) w1))))"
    using assms(1,2) by (simp add: rb_shutdown_def release_all_def w1_def)
  then show ?thesis using w1 w3 by (auto simp: live_release held_by_qp_def)
qed

end

end
