(* ===== verification/Rdma_Server.thy ===== *)
theory Rdma_Server
  imports Rdma_Verbs
begin

unbundle bit_operations_syntax

text \<open>
  The RDMA side of the memory server, \<^verbatim>\<open>crates/duvm-backend-rdma/src/server.rs\<close>: one buffer, registered
  once, of which every client gets a slab when it connects. The libraries are the record
  \<open>rdma_verbs\<close>. The flag \<^verbatim>\<open>running\<close>, which another thread may clear, is read from the world.
\<close>

section \<open>State\<close>

record rdma_mem_server =
  sv_max_pages :: u64
  sv_pages_per_client :: u64
  sv_port :: u16

record server_resources =
  sr_pd :: u64
  sr_mr :: memory_region
  sr_buf :: u64
  sr_buf_size :: u64
  sr_rkey :: u32

text \<open>The local variables of \<^verbatim>\<open>run\<close>.\<close>

record server_loop =
  sl_resources :: "server_resources option"
  sl_next_client_offset :: u64
  sl_conn_cqs :: "(u64, u64) hash_map"
  sl_conn_slabs :: "(u64, u64 \<times> u64) hash_map"

definition server_new :: "u16 \<Rightarrow> u64 \<Rightarrow> u64 \<Rightarrow> rdma_mem_server" where
  "server_new port max_pages pages_per_client =
     \<lparr>sv_max_pages = max_pages, sv_pages_per_client = pages_per_client, sv_port = port\<rparr>"

definition server_loop_start :: server_loop where
  "server_loop_start =
     \<lparr>sl_resources = None, sl_next_client_offset = 0, sl_conn_cqs = [], sl_conn_slabs = []\<rparr>"

section \<open>Operations\<close>

definition init_resources ::
  "'w rdma_verbs \<Rightarrow> rdma_mem_server \<Rightarrow> u64 \<Rightarrow> 'w \<Rightarrow> server_resources res \<times> 'w" where
  "init_resources V srv conn_id w =
     (case vb_verbs V conn_id w of
        None \<Rightarrow> (Err (RdmaFailed ''verbs''), w)
      | Some verbs \<Rightarrow>
          (case vb_alloc_pd V conn_id w of
             (None, w1) \<Rightarrow> (Err (RdmaFailed ''ibv_alloc_pd''), w1)
           | (Some pd, w1) \<Rightarrow>
               let buf_size = sv_max_pages srv * of_nat PAGE_SIZE in
               (case vb_mmap V buf_size w1 of
                  (None, w2) \<Rightarrow> (Err (RdmaFailed ''mmap''), release_all V [Pd pd] w2)
                | (Some buf, w2) \<Rightarrow>
                    (case vb_reg_mr V pd buf buf_size
                            (IBV_ACCESS_LOCAL_WRITE OR IBV_ACCESS_REMOTE_WRITE OR IBV_ACCESS_REMOTE_READ OR
                             IBV_ACCESS_ON_DEMAND) w2 of
                       (None, w3) \<Rightarrow> (Err (RdmaFailed ''ibv_reg_mr''), release_all V [Buffer buf, Pd pd] w3)
                     | (Some mr, w3) \<Rightarrow>
                         (Ok \<lparr>sr_pd = pd, sr_mr = mr, sr_buf = buf, sr_buf_size = buf_size,
                              sr_rkey = mr_rkey mr\<rparr>, w3)))))"

text \<open>The slab of a new client, or the refusal; the counter moves on in both cases.\<close>

definition handle_connect ::
  "'w rdma_verbs \<Rightarrow> rdma_mem_server \<Rightarrow> server_resources \<Rightarrow> u64 \<Rightarrow> u64 \<Rightarrow> 'w
   \<Rightarrow> (u64 \<times> u64 \<times> u64) res \<times> u64 \<times> 'w" where
  "handle_connect V srv res conn_id next_client_offset w =
     (let client_offset_pages = next_client_offset;
          next' = next_client_offset + sv_pages_per_client srv in
      if client_offset_pages + sv_pages_per_client srv > sv_max_pages srv then
        (Err RdmaOutOfCapacity, next', release_all V [CmId conn_id] w)
      else
        let client_addr = sr_buf res + client_offset_pages * of_nat PAGE_SIZE;
            client_size = sv_pages_per_client srv * of_nat PAGE_SIZE;
            w1 = vb_madvise V client_addr client_size ''MADV_POPULATE_WRITE'' w in
        (case vb_create_cq V conn_id w1 of
           (None, w2) \<Rightarrow> (Err (RdmaFailed ''ibv_create_cq''), next', release_all V [CmId conn_id] w2)
         | (Some cq, w2) \<Rightarrow>
             (case vb_create_qp V conn_id (sr_pd res) cq w2 of (ret, w3) \<Rightarrow>
              if ret \<noteq> 0 then
                (Err (RdmaFailed ''rdma_create_qp''), next', release_all V [Cq cq, CmId conn_id] w3)
              else
                (case vb_accept V conn_id
                        (handshake_bytes \<lparr>hs_rkey = sr_rkey res, hs_pad = 0, hs_addr = client_addr,
                                          hs_size = client_size\<rparr>) w3 of (ret, w4) \<Rightarrow>
                 if ret \<noteq> 0 then
                   (Err (RdmaFailed ''rdma_accept''), next', release_all V [Cq cq, CmId conn_id] w4)
                 else (Ok (cq, client_addr, client_size), next', w4)))))"

text \<open>A connection request, with the resources initialised on the first.\<close>

definition connect_request ::
  "'w rdma_verbs \<Rightarrow> rdma_mem_server \<Rightarrow> cm_event \<Rightarrow> server_loop \<Rightarrow> server_resources \<Rightarrow> 'w
   \<Rightarrow> server_loop \<times> 'w" where
  "connect_request V srv event st res w =
     (case handle_connect V srv res (ev_id event) (sl_next_client_offset st) w of
        (Ok (cq, slab_addr, slab_size), next', w1) \<Rightarrow>
          (st\<lparr>sl_next_client_offset := next',
              sl_conn_cqs := AList.update (ev_id event) cq (sl_conn_cqs st),
              sl_conn_slabs := AList.update (ev_id event) (slab_addr, slab_size) (sl_conn_slabs st)\<rparr>,
           vb_ack_cm_event V event w1)
      | (_, next', w1) \<Rightarrow> (st\<lparr>sl_next_client_offset := next'\<rparr>, vb_ack_cm_event V event w1))"

definition disconnected ::
  "'w rdma_verbs \<Rightarrow> cm_event \<Rightarrow> server_loop \<Rightarrow> 'w \<Rightarrow> server_loop \<times> 'w" where
  "disconnected V event st w =
     (let conn_id = ev_id event;
          w1 = (case map_of (sl_conn_slabs st) conn_id of
                  Some (slab_addr, slab_size) \<Rightarrow> vb_madvise V slab_addr slab_size ''MADV_DONTNEED'' w
                | None \<Rightarrow> w);
          w2 = vb_disconnect V conn_id w1;
          w3 = (case map_of (sl_conn_cqs st) conn_id of
                  Some cq \<Rightarrow> release_all V [Cq cq] w2 | None \<Rightarrow> w2);
          w4 = release_all V [CmId conn_id] w3 in
      (st\<lparr>sl_conn_cqs := AList.delete conn_id (sl_conn_cqs st),
          sl_conn_slabs := AList.delete conn_id (sl_conn_slabs st)\<rparr>,
       vb_ack_cm_event V event w4))"

text \<open>One round of the event loop.\<close>

definition server_event ::
  "'w rdma_verbs \<Rightarrow> rdma_mem_server \<Rightarrow> cm_event \<Rightarrow> server_loop \<Rightarrow> 'w \<Rightarrow> server_loop \<times> 'w" where
  "server_event V srv event st w =
     (if ev_event event = RDMA_CM_EVENT_CONNECT_REQUEST then
        (case sl_resources st of
           Some res \<Rightarrow> connect_request V srv event st res w
         | None \<Rightarrow>
             (case init_resources V srv (ev_id event) w of
                (Ok res, w1) \<Rightarrow> connect_request V srv event (st\<lparr>sl_resources := Some res\<rparr>) res w1
              | (_, w1) \<Rightarrow> (st, release_all V [CmId (ev_id event)] (vb_ack_cm_event V event w1))))
      else if ev_event event = RDMA_CM_EVENT_DISCONNECTED then disconnected V event st w
      else (st, vb_ack_cm_event V event w))"

partial_function (option) event_loop ::
  "'w rdma_verbs \<Rightarrow> ('w \<Rightarrow> bool) \<Rightarrow> rdma_mem_server \<Rightarrow> u64 \<Rightarrow> server_loop \<Rightarrow> 'w
   \<Rightarrow> (server_loop \<times> 'w) option" where
  "event_loop V running srv ec st w =
     (if \<not> running w then Some (st, w)
      else
        (case vb_get_cm_event V ec w of ((ret, event), w1) \<Rightarrow>
         if ret \<noteq> 0 then Some (st, w1)
         else (case server_event V srv event st w1 of (st', w2) \<Rightarrow>
               event_loop V running srv ec st' w2)))"

definition server_cleanup :: "'w rdma_verbs \<Rightarrow> u64 \<Rightarrow> u64 \<Rightarrow> server_loop \<Rightarrow> 'w \<Rightarrow> 'w" where
  "server_cleanup V listen_id ec st w =
     (let w1 = release_all V (map (Cq \<circ> snd) (sl_conn_cqs st)) w;
          w2 = (case sl_resources st of
                  Some res \<Rightarrow>
                    release_all V [Mr (mr_ptr (sr_mr res)), Buffer (sr_buf res), Pd (sr_pd res)] w1
                | None \<Rightarrow> w1) in
      release_all V [CmId listen_id, EventChannel ec] w2)"

definition server_run ::
  "'w rdma_verbs \<Rightarrow> ('w \<Rightarrow> bool) \<Rightarrow> (bool \<Rightarrow> 'w \<Rightarrow> 'w) \<Rightarrow> rdma_mem_server \<Rightarrow> 'w
   \<Rightarrow> (unit res \<times> 'w) option" where
  "server_run V running set_running srv w =
     (case rdma_available V w of (available, w1) \<Rightarrow>
      if \<not> available then Some (Err RdmaUnavailable, w1)
      else
        (case vb_create_event_channel V (set_running True w1) of
           (None, w2) \<Rightarrow> Some (Err (RdmaFailed ''rdma_create_event_channel''), w2)
         | (Some ec, w2) \<Rightarrow>
             (case vb_create_id V ec w2 of ((ret, listen_id), w3) \<Rightarrow>
              if ret \<noteq> 0 then
                Some (Err (RdmaFailed ''rdma_create_id''), release_all V [EventChannel ec] w3)
              else
                (case vb_bind_addr V listen_id (sv_port srv) w3 of (ret, w4) \<Rightarrow>
                 if ret \<noteq> 0 then
                   Some (Err (RdmaFailed ''rdma_bind_addr''),
                         release_all V [CmId listen_id, EventChannel ec] w4)
                 else
                   (case vb_listen V listen_id w4 of (ret, w5) \<Rightarrow>
                    if ret \<noteq> 0 then
                      Some (Err (RdmaFailed ''rdma_listen''),
                            release_all V [CmId listen_id, EventChannel ec] w5)
                    else
                      (case event_loop V running srv ec server_loop_start w5 of
                         None \<Rightarrow> None
                       | Some (st, w6) \<Rightarrow> Some (Ok (), server_cleanup V listen_id ec st w6)))))))"

definition server_stop :: "(bool \<Rightarrow> 'w \<Rightarrow> 'w) \<Rightarrow> 'w \<Rightarrow> 'w" where
  "server_stop set_running w = set_running False w"

section \<open>Slabs\<close>

text \<open>
  The states the event loop passes through from \<open>st0\<close>, with the number of connection requests on
  the way, whatever the events are and whatever happens to the world between two rounds.
\<close>

inductive server_steps :: "'w rdma_verbs \<Rightarrow> rdma_mem_server \<Rightarrow> server_loop \<Rightarrow> nat \<Rightarrow> server_loop \<Rightarrow> bool"
  for V srv st0 where
  start: "server_steps V srv st0 0 st0"
| event: "server_steps V srv st0 n st \<Longrightarrow> server_event V srv ev st w = (st', w') \<Longrightarrow>
    server_steps V srv st0 (if ev_event ev = RDMA_CM_EVENT_CONNECT_REQUEST then Suc n else n) st'"

text \<open>The mapping that \<^verbatim>\<open>mmap\<close> returns lies in the address space.\<close>

definition mmap_in_range :: "'w rdma_verbs \<Rightarrow> bool" where
  "mmap_in_range V \<longleftrightarrow>
     (\<forall>n w buf w'. vb_mmap V n w = (Some buf, w') \<longrightarrow> unat buf + unat n \<le> 2 ^ 64)"

text \<open>The \<open>i\<close>-th slab of the buffer.\<close>

definition is_slab :: "rdma_mem_server \<Rightarrow> server_resources \<Rightarrow> nat \<Rightarrow> u64 \<times> u64 \<Rightarrow> bool" where
  "is_slab srv res i s \<longleftrightarrow>
     Suc i * unat (sv_pages_per_client srv) \<le> unat (sv_max_pages srv) \<and>
     unat (fst s) = unat (sr_buf res) + i * unat (sv_pages_per_client srv) * PAGE_SIZE \<and>
     unat (snd s) = unat (sv_pages_per_client srv) * PAGE_SIZE"

definition slabs_ok :: "rdma_mem_server \<Rightarrow> nat \<Rightarrow> server_loop \<Rightarrow> bool" where
  "slabs_ok srv k st \<longleftrightarrow>
     sl_next_client_offset st = of_nat k * sv_pages_per_client srv \<and>
     (case sl_resources st of
        None \<Rightarrow> sl_conn_slabs st = []
      | Some res \<Rightarrow> unat (sr_buf res) + unat (sv_max_pages srv) * PAGE_SIZE \<le> 2 ^ 64 \<and>
          (\<exists>idx. inj_on idx (dom (map_of (sl_conn_slabs st))) \<and>
             (\<forall>c s. map_of (sl_conn_slabs st) c = Some s \<longrightarrow> idx c < k \<and> is_slab srv res (idx c) s)))"

definition server_fits :: "rdma_mem_server \<Rightarrow> bool" where
  "server_fits srv \<longleftrightarrow> unat (sv_max_pages srv) * PAGE_SIZE < 2 ^ 64"

lemma slab_word:
  fixes ppc mx buf :: u64
  assumes buf: "unat buf + unat mx * PAGE_SIZE \<le> 2 ^ 64" and fit: "Suc k * unat ppc \<le> unat mx"
    and mx: "unat mx * PAGE_SIZE < 2 ^ 64"
  shows "unat (buf + of_nat k * ppc * of_nat PAGE_SIZE) = unat buf + k * unat ppc * PAGE_SIZE"
    and "unat (ppc * of_nat PAGE_SIZE) = unat ppc * PAGE_SIZE"
proof -
  have le: "k * unat ppc + unat ppc \<le> unat mx" using fit by simp
  then have "(k * unat ppc + unat ppc) * PAGE_SIZE \<le> unat mx * PAGE_SIZE" by (rule mult_le_mono1)
  then have k1: "k * unat ppc * PAGE_SIZE + unat ppc * PAGE_SIZE \<le> unat mx * PAGE_SIZE"
    by (simp only: distrib_right)
  have mx64: "unat mx < 2 ^ 64" using unsigned_less [of mx, where ?'a = nat] by simp
  show "unat (ppc * of_nat PAGE_SIZE) = unat ppc * PAGE_SIZE"
    using unat_mult_small [of ppc "of_nat PAGE_SIZE"] k1 mx unat_PAGE_SIZE by simp
  show "unat (buf + of_nat k * ppc * of_nat PAGE_SIZE) = unat buf + k * unat ppc * PAGE_SIZE"
  proof (cases "unat ppc = 0")
    case True
    then have "ppc = 0" by (simp add: unat_eq_zero)
    then show ?thesis by simp
  next
    case False
    have "k * unat ppc < 2 ^ LENGTH(64)" using le mx64 by simp
    then have kp: "unat (of_nat k * ppc) = k * unat ppc" by (rule unat_of_nat_times)
    have "k * unat ppc * PAGE_SIZE < 2 ^ LENGTH(64)" using k1 mx by simp
    then have kpp: "unat (of_nat k * ppc * of_nat PAGE_SIZE) = k * unat ppc * PAGE_SIZE"
      using unat_mult_small [of "of_nat k * ppc" "of_nat PAGE_SIZE"] unfolding kp unat_PAGE_SIZE by simp
    have "0 < unat ppc * PAGE_SIZE" using False by (simp add: PAGE_SIZE_def)
    then have "unat buf + k * unat ppc * PAGE_SIZE < 2 ^ 64" using k1 buf by linarith
    then show ?thesis
      using unat_add_small [of buf "of_nat k * ppc * of_nat PAGE_SIZE"] unfolding kpp by simp
  qed
qed

lemma slabs_ok_start: "slabs_ok srv 0 server_loop_start"
  by (simp add: slabs_ok_def server_loop_start_def)

lemma init_resources_Ok:
  assumes "init_resources V srv c w = (Ok res, w')" and "mmap_in_range V" and "server_fits srv"
  shows "unat (sr_buf res) + unat (sv_max_pages srv) * PAGE_SIZE \<le> 2 ^ 64"
proof -
  have "unat (sv_max_pages srv * of_nat PAGE_SIZE) = unat (sv_max_pages srv) * PAGE_SIZE"
    using unat_mult_small [of "sv_max_pages srv" "of_nat PAGE_SIZE"] assms(3)
    unfolding unat_PAGE_SIZE server_fits_def by simp
  then show ?thesis
    using assms(1,2) unfolding init_resources_def mmap_in_range_def Let_def
    by (fastforce split: option.splits prod.splits)
qed

lemma handle_connect_Ok:
  assumes "handle_connect V srv res c (of_nat k * sv_pages_per_client srv) w = (Ok (cq, a, sz), nx, w')"
    and "server_fits srv" and "Suc k * unat (sv_pages_per_client srv) < 2 ^ 64"
    and "unat (sr_buf res) + unat (sv_max_pages srv) * PAGE_SIZE \<le> 2 ^ 64"
  shows "is_slab srv res k (a, sz)"
proof -
  let ?p = "sv_pages_per_client srv"
  have "of_nat k * ?p + ?p \<le> sv_max_pages srv"
    and a: "a = sr_buf res + of_nat k * ?p * of_nat PAGE_SIZE" and sz: "sz = ?p * of_nat PAGE_SIZE"
    using assms(1) by (auto simp: handle_connect_def Let_def split: if_splits option.splits prod.splits)
  then have "unat (of_nat (Suc k) * ?p) \<le> unat (sv_max_pages srv)"
    by (simp add: algebra_simps word_le_nat_alt)
  moreover have "unat (of_nat (Suc k) * ?p) = Suc k * unat ?p"
    using assms(3) by (intro unat_of_nat_times) simp
  ultimately have fit: "Suc k * unat ?p \<le> unat (sv_max_pages srv)" by simp
  with slab_word [OF assms(4) fit] assms(2) show ?thesis
    by (simp add: is_slab_def server_fits_def a sz)
qed


lemma handle_connect_next:
  "handle_connect V srv res c nx w = (r, nx', w') \<Longrightarrow> nx' = nx + sv_pages_per_client srv"
  by (auto simp: handle_connect_def Let_def split: if_splits option.splits prod.splits)

lemma connect_request_cases:
  assumes "connect_request V srv ev st res w = (st', w')"
  obtains (ok) cq s w1 where
    "handle_connect V srv res (ev_id ev) (sl_next_client_offset st) w =
       (Ok (cq, s), sl_next_client_offset st + sv_pages_per_client srv, w1)"
    "st' = st\<lparr>sl_next_client_offset := sl_next_client_offset st + sv_pages_per_client srv,
               sl_conn_cqs := AList.update (ev_id ev) cq (sl_conn_cqs st),
               sl_conn_slabs := AList.update (ev_id ev) s (sl_conn_slabs st)\<rparr>"
  | (refused) "st' = st\<lparr>sl_next_client_offset := sl_next_client_offset st + sv_pages_per_client srv\<rparr>"
proof -
  obtain r nx w1 where h: "handle_connect V srv res (ev_id ev) (sl_next_client_offset st) w = (r, nx, w1)"
    by (cases "handle_connect V srv res (ev_id ev) (sl_next_client_offset st) w") auto
  note nx = handle_connect_next [OF h]
  show thesis
  proof (cases r)
    case (Ok t)
    then obtain cq s where "r = Ok (cq, s)" by (cases t) auto
    then show ?thesis using assms h nx by (intro ok) (auto simp: connect_request_def split: prod.splits)
  qed (use assms h nx in \<open>auto intro!: refused simp: connect_request_def\<close>)
qed

lemma slabs_okI:
  assumes "sl_resources st = Some res" "sl_next_client_offset st = of_nat k * sv_pages_per_client srv"
    and "unat (sr_buf res) + unat (sv_max_pages srv) * PAGE_SIZE \<le> 2 ^ 64"
    and "inj_on idx (dom (map_of (sl_conn_slabs st)))"
    and "\<And>c s. map_of (sl_conn_slabs st) c = Some s \<Longrightarrow> idx c < k \<and> is_slab srv res (idx c) s"
  shows "slabs_ok srv k st"
  unfolding slabs_ok_def assms(1) option.case using assms(2-5) by blast

lemma slabs_okE:
  assumes "slabs_ok srv k st" and "sl_resources st = Some res"
  obtains idx where "sl_next_client_offset st = of_nat k * sv_pages_per_client srv"
    and "unat (sr_buf res) + unat (sv_max_pages srv) * PAGE_SIZE \<le> 2 ^ 64"
    and "inj_on idx (dom (map_of (sl_conn_slabs st)))"
    and "\<And>c s. map_of (sl_conn_slabs st) c = Some s \<Longrightarrow> idx c < k \<and> is_slab srv res (idx c) s"
  using assms(1) unfolding slabs_ok_def assms(2) option.case by blast

lemma slabs_ok_connect:
  assumes "slabs_ok srv k st" and "sl_resources st = Some res"
    and "connect_request V srv ev st res w = (st', w')" and "server_fits srv"
    and "Suc k * unat (sv_pages_per_client srv) < 2 ^ 64"
  shows "slabs_ok srv (Suc k) st'"
  using assms(3)
proof (cases rule: connect_request_cases)
  case (ok cq s w1)
  show ?thesis
  proof (rule slabs_okE [OF assms(1,2)])
    fix idx
    assume nx: "sl_next_client_offset st = of_nat k * sv_pages_per_client srv"
      and buf: "unat (sr_buf res) + unat (sv_max_pages srv) * PAGE_SIZE \<le> 2 ^ 64"
      and inj: "inj_on idx (dom (map_of (sl_conn_slabs st)))"
      and idx: "\<And>c s. map_of (sl_conn_slabs st) c = Some s \<Longrightarrow> idx c < k \<and> is_slab srv res (idx c) s"
    have new: "is_slab srv res k s"
      using handle_connect_Ok [OF _ assms(4,5) buf] ok(1) nx by (cases s) auto
    show ?thesis
    proof (rule slabs_okI [OF _ _ buf])
      show "sl_resources st' = Some res" using ok(2) assms(2) by simp
      show "sl_next_client_offset st' = of_nat (Suc k) * sv_pages_per_client srv"
        using ok(2) nx by (simp add: algebra_simps)
      show "inj_on (idx(ev_id ev := k)) (dom (map_of (sl_conn_slabs st')))"
        using inj idx ok(2) unfolding inj_on_def by (auto simp: domIff dest: idx)
      show "(idx(ev_id ev := k)) c < Suc k \<and> is_slab srv res ((idx(ev_id ev := k)) c) s'"
        if "map_of (sl_conn_slabs st') c = Some s'" for c s'
        using that ok(2) new idx [of c s'] by (simp split: if_splits)
    qed
  qed
next
  case refused
  show ?thesis
  proof (rule slabs_okE [OF assms(1,2)], rule slabs_okI)
    show "sl_resources st' = Some res" using refused assms(2) by simp
  qed (use refused in \<open>auto simp: algebra_simps less_Suc_eq\<close>)
qed

lemma slabs_ok_disconnected:
  assumes "slabs_ok srv k st" and "disconnected V ev st w = (st', w')"
  shows "slabs_ok srv k st'"
proof -
  have st': "sl_resources st' = sl_resources st" "sl_next_client_offset st' = sl_next_client_offset st"
    "sl_conn_slabs st' = AList.delete (ev_id ev) (sl_conn_slabs st)"
    using assms(2) by (auto simp: disconnected_def Let_def)
  show ?thesis
  proof (cases "sl_resources st")
    case None
    then show ?thesis using assms(1) st' by (simp add: slabs_ok_def)
  next
    case (Some res)
    show ?thesis
      by (rule slabs_okE [OF assms(1) Some], rule slabs_okI [of st' res])
        (auto simp: st' Some intro: inj_on_diff split: if_splits)
  qed
qed


lemma server_event_cases:
  assumes "server_event V srv ev st w = (st', w')"
  obtains (first) res w1 where "ev_event ev = RDMA_CM_EVENT_CONNECT_REQUEST" "sl_resources st = None"
    "init_resources V srv (ev_id ev) w = (Ok res, w1)"
    "connect_request V srv ev (st\<lparr>sl_resources := Some res\<rparr>) res w1 = (st', w')"
  | (connect) res where "ev_event ev = RDMA_CM_EVENT_CONNECT_REQUEST" "sl_resources st = Some res"
    "connect_request V srv ev st res w = (st', w')"
  | (disconnect) "ev_event ev \<noteq> RDMA_CM_EVENT_CONNECT_REQUEST" "disconnected V ev st w = (st', w')"
  | (same) "ev_event ev = RDMA_CM_EVENT_CONNECT_REQUEST \<longrightarrow> sl_resources st = None" "st' = st"
proof (cases "ev_event ev = RDMA_CM_EVENT_CONNECT_REQUEST")
  case True
  show thesis
  proof (cases "sl_resources st")
    case None
    obtain r w1 where "init_resources V srv (ev_id ev) w = (r, w1)" by fastforce
    then show ?thesis using assms True None by (cases r) (auto simp: server_event_def intro: first same)
  qed (use assms True in \<open>auto simp: server_event_def intro: connect\<close>)
next
  case False
  then show thesis
    using assms by (auto simp: server_event_def split: if_splits intro: disconnect same)
qed

lemma server_steps_slabs:
  assumes "server_steps V srv server_loop_start n st" and "mmap_in_range V" and "server_fits srv"
    and "n * unat (sv_pages_per_client srv) < 2 ^ 64"
  shows "\<exists>k \<le> n. slabs_ok srv k st"
  using assms(1,4)
proof (induction rule: server_steps.induct)
  case start
  then show ?case using slabs_ok_start by blast
next
  case (event n st ev w st' w')
  let ?n = "if ev_event ev = RDMA_CM_EVENT_CONNECT_REQUEST then Suc n else n"
  have "n * unat (sv_pages_per_client srv) \<le> ?n * unat (sv_pages_per_client srv)"
    by (rule mult_le_mono1) simp
  with event.prems have "n * unat (sv_pages_per_client srv) < 2 ^ 64" by linarith
  with event.IH obtain k where k: "k \<le> n" "slabs_ok srv k st" by blast
  have small: "Suc k * unat (sv_pages_per_client srv) < 2 ^ 64"
    if "ev_event ev = RDMA_CM_EVENT_CONNECT_REQUEST"
  proof -
    have "Suc k * unat (sv_pages_per_client srv) \<le> Suc n * unat (sv_pages_per_client srv)"
      by (rule mult_le_mono1) (use k in simp)
    also have "\<dots> < 2 ^ 64" using event.prems that by (simp only: if_True refl)
    finally show ?thesis .
  qed
  from event.hyps(2) show ?case
  proof (cases rule: server_event_cases)
    case (first res w1)
    let ?st = "st\<lparr>sl_resources := Some res\<rparr>"
    have "slabs_ok srv k ?st"
      using k(2) first(2) init_resources_Ok [OF first(3) assms(2,3)] by (simp add: slabs_ok_def)
    then have "slabs_ok srv (Suc k) st'"
      using slabs_ok_connect [OF _ _ first(4) assms(3) small] first(1) by simp
    then show ?thesis using k(1) first(1) by (intro exI [of _ "Suc k"]) simp
  next
    case (connect res)
    have "slabs_ok srv (Suc k) st'"
      by (rule slabs_ok_connect [OF k(2) connect(2,3) assms(3) small [OF connect(1)]])
    then show ?thesis using k(1) connect(1) by (intro exI [of _ "Suc k"]) simp
  next
    case disconnect
    have "slabs_ok srv k st'" by (rule slabs_ok_disconnected [OF k(2) disconnect(2)])
    then show ?thesis using k(1) disconnect(1) by (intro exI [of _ k]) simp
  next
    case same
    then show ?thesis using k by (intro exI [of _ k]) simp
  qed
qed

lemma is_slab_inside:
  assumes "is_slab srv res i (a, s)"
  shows "unat (sr_buf res) \<le> unat a"
    and "unat a + unat s \<le> unat (sr_buf res) + unat (sv_max_pages srv) * PAGE_SIZE"
proof -
  have "Suc i * unat (sv_pages_per_client srv) * PAGE_SIZE \<le> unat (sv_max_pages srv) * PAGE_SIZE"
    by (rule mult_le_mono1) (use assms in \<open>simp add: is_slab_def\<close>)
  then show "unat (sr_buf res) \<le> unat a"
    and "unat a + unat s \<le> unat (sr_buf res) + unat (sv_max_pages srv) * PAGE_SIZE"
    using assms by (simp_all add: is_slab_def algebra_simps)
qed

lemma is_slab_apart:
  assumes "is_slab srv res i (a, s)" and "is_slab srv res j (a', s')" and "i < j"
  shows "unat a + unat s \<le> unat a'"
proof -
  have "Suc i * unat (sv_pages_per_client srv) * PAGE_SIZE \<le> j * unat (sv_pages_per_client srv) * PAGE_SIZE"
    by (intro mult_le_mono1) (use assms(3) in simp)
  then show ?thesis using assms(1,2) by (simp add: is_slab_def algebra_simps)
qed

text \<open>
  C13: in every state the server can reach, each connected client has a slab of \<open>pages_per_client\<close> pages
  inside the server's buffer, and the slabs of two clients do not overlap, as long as the page
  counts stay below the word size.
\<close>

theorem rdma_slabs_disjoint:
  assumes "mmap_in_range V" and "server_fits srv"
    and "server_steps V srv server_loop_start n st" and "n * unat (sv_pages_per_client srv) < 2 ^ 64"
    and "sl_resources st = Some res"
    and "map_of (sl_conn_slabs st) c = Some (a, s)" and "map_of (sl_conn_slabs st) c' = Some (a', s')"
    and "c \<noteq> c'"
  shows "unat (sr_buf res) \<le> unat a \<and> unat s = unat (sv_pages_per_client srv) * PAGE_SIZE \<and>
    unat a + unat s \<le> unat (sr_buf res) + unat (sv_max_pages srv) * PAGE_SIZE \<and>
    (unat a + unat s \<le> unat a' \<or> unat a' + unat s' \<le> unat a)"
proof -
  obtain k where k: "slabs_ok srv k st" using server_steps_slabs [OF assms(3,1,2,4)] by blast
  show ?thesis
  proof (rule slabs_okE [OF k assms(5)])
    fix idx
    assume inj: "inj_on idx (dom (map_of (sl_conn_slabs st)))"
      and idx: "\<And>c s. map_of (sl_conn_slabs st) c = Some s \<Longrightarrow> idx c < k \<and> is_slab srv res (idx c) s"
    have "idx c \<noteq> idx c'" using inj assms(6-8) by (auto simp: inj_on_def domIff)
    then consider "idx c < idx c'" | "idx c' < idx c" by linarith
    then have "unat a + unat s \<le> unat a' \<or> unat a' + unat s' \<le> unat a"
      using idx [OF assms(6)] idx [OF assms(7)] by cases (auto dest: is_slab_apart)
    then show ?thesis
      using idx [OF assms(6)] is_slab_inside [of srv res "idx c" a s] by (auto simp: is_slab_def)
  qed
qed

lemma full_server_refuses:
  assumes "sl_resources st = Some res" and "server_event V srv ev st w = (st', w')"
    and "unat (sv_max_pages srv) < unat (sl_next_client_offset st) + unat (sv_pages_per_client srv)"
    and "unat (sl_next_client_offset st) + unat (sv_pages_per_client srv) < 2 ^ 64"
  shows "sl_resources st' = Some res \<and>
    unat (sl_next_client_offset st') = unat (sl_next_client_offset st) +
      (if ev_event ev = RDMA_CM_EVENT_CONNECT_REQUEST then unat (sv_pages_per_client srv) else 0) \<and>
    map_of (sl_conn_slabs st') \<subseteq>\<^sub>m map_of (sl_conn_slabs st)"
proof -
  have sum: "unat (sl_next_client_offset st + sv_pages_per_client srv) =
      unat (sl_next_client_offset st) + unat (sv_pages_per_client srv)"
    by (rule unat_add_small) (use assms(4) in simp)
  then have full: "sl_next_client_offset st + sv_pages_per_client srv > sv_max_pages srv"
    using assms(3) by (simp add: word_less_nat_alt)
  from assms(2) show ?thesis
  proof (cases rule: server_event_cases)
    case (connect res')
    then show ?thesis using assms(1) full sum
      by (auto simp: connect_request_def handle_connect_def Let_def)
  next
    case disconnect
    then show ?thesis using assms(1) by (auto simp: disconnected_def Let_def map_le_def split: if_splits)
  next
    case same
    then show ?thesis using assms(1) by auto
  qed (use assms(1) in simp)
qed

text \<open>
  Once the server has given out its buffer it never takes a client again: whatever events follow,
  clients that leave included, no client gets a slab that did not have one, because the
  counter of handed-out pages only grows. (The bound excludes the wrap-around of that counter.)
\<close>

theorem rdma_capacity_never_returns:
  assumes "sl_resources st = Some res" and "server_steps V srv st n st'"
    and "unat (sv_max_pages srv) < unat (sl_next_client_offset st) + unat (sv_pages_per_client srv)"
    and "unat (sl_next_client_offset st) + Suc n * unat (sv_pages_per_client srv) < 2 ^ 64"
  shows "map_of (sl_conn_slabs st') \<subseteq>\<^sub>m map_of (sl_conn_slabs st)"
proof -
  have "sl_resources st' = Some res \<and> map_of (sl_conn_slabs st') \<subseteq>\<^sub>m map_of (sl_conn_slabs st) \<and>
    unat (sl_next_client_offset st') = unat (sl_next_client_offset st) + n * unat (sv_pages_per_client srv)"
    using assms(2,4)
  proof (induction rule: server_steps.induct)
    case start
    then show ?case using assms(1) by simp
  next
    case (event n st1 ev w st2 w')
    let ?p = "unat (sv_pages_per_client srv)"
    from event.prems have "unat (sl_next_client_offset st) + Suc n * ?p < 2 ^ 64" by (simp split: if_splits)
    with event.IH have ih: "sl_resources st1 = Some res"
      "map_of (sl_conn_slabs st1) \<subseteq>\<^sub>m map_of (sl_conn_slabs st)"
      "unat (sl_next_client_offset st1) = unat (sl_next_client_offset st) + n * ?p" and small:
      "unat (sl_next_client_offset st) + Suc n * ?p < 2 ^ 64" by blast+
    have "unat (sv_max_pages srv) < unat (sl_next_client_offset st1) + ?p"
      and "unat (sl_next_client_offset st1) + ?p < 2 ^ 64"
      using assms(3) ih(3) small by simp_all
    from full_server_refuses [OF ih(1) event.hyps(2) this] ih show ?case
      by (auto intro: map_le_trans)
  qed
  then show ?thesis by blast
qed

end
