(* ===== verification/Raw_Memory.thy ===== *)
theory Raw_Memory
  imports Prelude
begin

text \<open>
  Byte-addressed memory, for the code that works on raw pointers: the buffers of the RDMA hosts and
  the page buffers a C program passes to \<^verbatim>\<open>libduvm\<close>.
\<close>

section \<open>Memory\<close>

type_synonym memory = "u64 \<Rightarrow> u8"

definition mem_put :: "u64 \<Rightarrow> u8 list \<Rightarrow> memory \<Rightarrow> memory" where
  "mem_put a bs m = (\<lambda>x. if unat (x - a) < length bs then bs ! unat (x - a) else m x)"

definition mem_get :: "u64 \<Rightarrow> nat \<Rightarrow> memory \<Rightarrow> u8 list" where
  "mem_get a n m = map (\<lambda>i. m (a + of_nat i)) [0..<n]"

lemma length_mem_get [simp]: "length (mem_get a n m) = n"
  by (simp add: mem_get_def)

lemma mem_get_put: "length bs = n \<Longrightarrow> n \<le> 2 ^ 64 \<Longrightarrow> mem_get a n (mem_put a bs m) = bs"
  by (rule nth_equalityI) (auto simp: mem_get_def mem_put_def unat_of_nat_len)

text \<open>Ranges that do not overlap.\<close>

definition ranges_apart :: "u64 \<Rightarrow> nat \<Rightarrow> u64 \<Rightarrow> nat \<Rightarrow> bool" where
  "ranges_apart a n b k \<longleftrightarrow>
     unat a + n \<le> 2 ^ 64 \<and> unat b + k \<le> 2 ^ 64 \<and> (unat a + n \<le> unat b \<or> unat b + k \<le> unat a)"

lemma mem_get_put_apart:
  assumes "ranges_apart a (length bs) b k"
  shows "mem_get b k (mem_put a bs m) = mem_get b k m"
proof -
  have "\<not> unat (b + of_nat i - a) < length bs" if "i < k" for i
  proof -
    have b: "unat (b + of_nat i) = unat b + i"
    proof -
      have "i < 2 ^ 64" "unat b + i < 2 ^ 64" using that assms by (auto simp: ranges_apart_def)
      then show ?thesis using unat_add_small [of b "of_nat i"] unat_of_nat_len [of i, where ?'a = 64] by simp
    qed
    show ?thesis
    proof (cases "unat a \<le> unat (b + of_nat i)")
      case True
      then have "unat (b + of_nat i - a) = unat b + i - unat a"
        using b by (simp add: unat_sub word_le_nat_alt)
      then show ?thesis using True b that assms by (auto simp: ranges_apart_def)
    next
      case False
      then have "unat (b + of_nat i - a) = 2 ^ 64 + (unat b + i) - unat a"
        using b unat_sub_if' [of "b + of_nat i" a] by (simp add: word_le_nat_alt)
      then show ?thesis using False b that assms by (auto simp: ranges_apart_def)
    qed
  qed
  then show ?thesis by (simp add: mem_get_def mem_put_def)
qed

end
