(* ===== verification/Rdma_Fabric.thy ===== *)
theory Rdma_Fabric
  imports Rdma_Backend Rdma_Server Raw_Memory
begin

text \<open>
  A fabric for the RDMA backend: a client host and a server host, each with memory, resources and a
  clock, and a network card that carries out posted work requests. The server host runs the event
  loop of \<open>Rdma_Server\<close>. Any call may fail, any event may be another than the one hoped for, and the
  card may delay or fail a request: which do is a function of the number of the call.
\<close>

section \<open>Hosts\<close>

datatype call_fate = Works | Fails | Answers int

record host =
  ho_devices :: int
  ho_live :: "rdma_resource list"
  ho_fresh :: nat
  ho_brk :: u64
  ho_chan :: "(u64, u64) hash_map"
  ho_events :: "(u64 \<times> cm_event) list"
  ho_regions :: "(u64 \<times> u32 \<times> u64 \<times> u64) list"
  ho_accepted :: "(u64, u8 list) hash_map"
  ho_mem :: memory
  ho_fate :: "nat \<Rightarrow> call_fate"
  ho_step :: nat
  ho_tick :: "nat \<Rightarrow> nat"
  ho_time :: nat

abbreviation host_fate :: "host \<Rightarrow> call_fate" where
  "host_fate h \<equiv> ho_fate h (ho_step h)"

abbreviation host_next :: "host \<Rightarrow> host" where
  "host_next h \<equiv> h\<lparr>ho_step := Suc (ho_step h)\<rparr>"

definition host_acquire :: "(u64 \<Rightarrow> rdma_resource) \<Rightarrow> host \<Rightarrow> u64 option \<times> host" where
  "host_acquire mk h =
     (let p = of_nat (ho_fresh h) in
      if host_fate h \<noteq> Works \<or> mk p \<in> set (ho_live h) then (None, host_next h)
      else (Some p, (host_next h)\<lparr>ho_live := mk p # ho_live h, ho_fresh := Suc (ho_fresh h)\<rparr>))"

definition host_create_id :: "u64 \<Rightarrow> host \<Rightarrow> (int \<times> u64) \<times> host" where
  "host_create_id ec h =
     (case host_acquire CmId h of
        (None, h1) \<Rightarrow> ((-1, 0), h1)
      | (Some p, h1) \<Rightarrow> ((0, p), h1\<lparr>ho_chan := AList.update p ec (ho_chan h1)\<rparr>))"

definition push_event :: "u64 \<Rightarrow> int \<Rightarrow> u8 list option \<Rightarrow> host \<Rightarrow> host" where
  "push_event i e pd h =
     (case map_of (ho_chan h) i of
        None \<Rightarrow> h
      | Some ec \<Rightarrow>
          h\<lparr>ho_events := ho_events h @ [(ec, \<lparr>ev_id = i, ev_event = e, ev_private_data = pd\<rparr>)]\<rparr>)"

definition host_resolve :: "int \<Rightarrow> u64 \<Rightarrow> host \<Rightarrow> int \<times> host" where
  "host_resolve e i h =
     (case host_fate h of
        Works \<Rightarrow> (0, push_event i e None (host_next h))
      | Answers x \<Rightarrow> (0, push_event i x None (host_next h))
      | Fails \<Rightarrow> (-1, host_next h))"

definition host_status :: "host \<Rightarrow> int \<times> host" where
  "host_status h = (if host_fate h = Works then 0 else -1, host_next h)"

definition host_poll :: "u64 \<Rightarrow> int \<Rightarrow> host \<Rightarrow> int \<times> host" where
  "host_poll ec ms h =
     (if host_fate h = Works \<and> find (\<lambda>(c, _). c = ec) (ho_events h) \<noteq> None then (1, host_next h)
      else (0, host_next h))"

definition host_get_cm_event :: "u64 \<Rightarrow> host \<Rightarrow> (int \<times> cm_event) \<times> host" where
  "host_get_cm_event ec h =
     (case find (\<lambda>(c, _). c = ec) (ho_events h) of
        Some (c, ev) \<Rightarrow>
          if host_fate h = Works then
            ((0, ev), (host_next h)\<lparr>ho_events := remove1 (c, ev) (ho_events h)\<rparr>)
          else ((-1, ev), host_next h)
      | None \<Rightarrow> ((-1, \<lparr>ev_id = 0, ev_event = -1, ev_private_data = None\<rparr>), host_next h))"

definition host_mmap :: "u64 \<Rightarrow> host \<Rightarrow> u64 option \<times> host" where
  "host_mmap n h =
     (let p = ho_brk h in
      if host_fate h \<noteq> Works \<or> Buffer p \<in> set (ho_live h) \<or> unat p + unat n \<ge> 2 ^ 64
      then (None, host_next h)
      else (Some p, (host_next h)\<lparr>ho_live := Buffer p # ho_live h, ho_brk := p + n\<rparr>))"

definition host_madvise :: "u64 \<Rightarrow> u64 \<Rightarrow> string \<Rightarrow> host \<Rightarrow> host" where
  "host_madvise a n advice h =
     (if advice = ''MADV_DONTNEED''
      then h\<lparr>ho_mem := (\<lambda>x. if unat (x - a) < unat n then 0 else ho_mem h x)\<rparr> else h)"

definition host_reg_mr :: "u64 \<Rightarrow> u64 \<Rightarrow> u64 \<Rightarrow> int \<Rightarrow> host \<Rightarrow> memory_region option \<times> host" where
  "host_reg_mr pd buf n access h =
     (let key = of_nat (ho_fresh h) in
      if key \<in> set (map (\<lambda>(_, k, _). k) (ho_regions h)) then (None, host_next h)
      else
        (case host_acquire Mr h of
           (None, h1) \<Rightarrow> (None, h1)
         | (Some p, h1) \<Rightarrow>
             (Some \<lparr>mr_ptr = p, mr_lkey = key, mr_rkey = key\<rparr>,
              h1\<lparr>ho_regions := (p, key, buf, n) # ho_regions h1\<rparr>)))"

definition host_create_qp :: "u64 \<Rightarrow> u64 \<Rightarrow> u64 \<Rightarrow> host \<Rightarrow> int \<times> host" where
  "host_create_qp i pd cq h =
     (if host_fate h = Works then (0, (host_next h)\<lparr>ho_live := Qp i pd cq # ho_live h\<rparr>)
      else (-1, host_next h))"

definition host_accept :: "u64 \<Rightarrow> u8 list \<Rightarrow> host \<Rightarrow> int \<times> host" where
  "host_accept i bytes h =
     (if host_fate h = Works then (0, (host_next h)\<lparr>ho_accepted := AList.update i bytes (ho_accepted h)\<rparr>)
      else (-1, host_next h))"

fun uses :: "rdma_resource \<Rightarrow> rdma_resource \<Rightarrow> bool" where
  "uses (Qp i p c) (Pd p') = (p = p')"
| "uses (Qp i p c) (Cq c') = (c = c')"
| "uses q r = False"

definition host_release :: "rdma_resource \<Rightarrow> host \<Rightarrow> host" where
  "host_release r h =
     (if list_ex (\<lambda>q. uses q r) (ho_live h) then h
      else h\<lparr>ho_live := removeAll r (ho_live h),
             ho_regions := filter (\<lambda>(p, _). r \<noteq> Mr p) (ho_regions h)\<rparr>)"

definition host_now :: "host \<Rightarrow> nat \<times> host" where
  "host_now h = (ho_time h, (host_next h)\<lparr>ho_time := ho_time h + ho_tick h (ho_step h)\<rparr>)"

text \<open>The calls the server makes act on its own host; it posts no work requests and does not connect.\<close>

definition host_verbs :: "host rdma_verbs" where
  "host_verbs =
     \<lparr>vb_get_device_list = (\<lambda>h. ((Some 1, ho_devices h), h)),
      vb_create_event_channel = host_acquire EventChannel,
      vb_create_id = host_create_id,
      vb_resolve_addr = (\<lambda>i ip port. host_resolve RDMA_CM_EVENT_ADDR_RESOLVED i),
      vb_resolve_route = host_resolve RDMA_CM_EVENT_ROUTE_RESOLVED,
      vb_bind_addr = (\<lambda>i port. host_status), vb_listen = (\<lambda>i. host_status),
      vb_poll = host_poll, vb_get_cm_event = host_get_cm_event, vb_ack_cm_event = (\<lambda>ev h. h),
      vb_verbs = (\<lambda>i h. Some 1),
      vb_alloc_pd = (\<lambda>i. host_acquire Pd), vb_create_cq = (\<lambda>i. host_acquire Cq),
      vb_mmap = host_mmap, vb_madvise = host_madvise, vb_reg_mr = host_reg_mr,
      vb_create_qp = host_create_qp, vb_connect = (\<lambda>i h. (-1, h)), vb_accept = host_accept,
      vb_disconnect = (\<lambda>i h. h), vb_release = host_release,
      vb_post_send = (\<lambda>i wr h. (-1, h)), vb_poll_cq = (\<lambda>cq h. ((-1, 0), h)),
      vb_mem_write = (\<lambda>a bs h. h\<lparr>ho_mem := mem_put a bs (ho_mem h)\<rparr>),
      vb_mem_read = (\<lambda>a n h. mem_get a n (ho_mem h)), vb_now = host_now\<rparr>"

section \<open>The fabric\<close>

datatype nic_fate = NicIdle | NicWork | NicFault int

record fabric =
  fb_client :: host
  fb_server :: host
  fb_srv :: rdma_mem_server
  fb_loop :: server_loop
  fb_peers :: "(u64, u64) hash_map"
  fb_pending :: "(u64 \<times> send_wr) list"
  fb_cqes :: "(u64 \<times> int) list"
  fb_nic :: "nat \<Rightarrow> nic_fate"
  fb_polls :: nat

definition on_client :: "(host \<Rightarrow> 'a \<times> host) \<Rightarrow> fabric \<Rightarrow> 'a \<times> fabric" where
  "on_client f w = (case f (fb_client w) of (x, h) \<Rightarrow> (x, w\<lparr>fb_client := h\<rparr>))"

definition cm_request :: "u64 \<Rightarrow> int \<Rightarrow> cm_event" where
  "cm_request c e = \<lparr>ev_id = c, ev_event = e, ev_private_data = None\<rparr>"

text \<open>A connection request reaches the server's event loop; its answer becomes the client's event.\<close>

definition fab_connect :: "u64 \<Rightarrow> fabric \<Rightarrow> int \<times> fabric" where
  "fab_connect i w =
     (let h = fb_client w;
          answer = (\<lambda>e pd v. (0, v\<lparr>fb_client := push_event i e pd (host_next h)\<rparr>)) in
      case host_fate h of
        Fails \<Rightarrow> (-1, w\<lparr>fb_client := host_next h\<rparr>)
      | Answers x \<Rightarrow> answer x None w
      | Works \<Rightarrow>
          (case host_acquire CmId (fb_server w) of
             (None, s1) \<Rightarrow> answer RDMA_CM_EVENT_REJECTED None (w\<lparr>fb_server := s1\<rparr>)
           | (Some c, s1) \<Rightarrow>
               (case server_event host_verbs (fb_srv w) (cm_request c RDMA_CM_EVENT_CONNECT_REQUEST)
                       (fb_loop w) s1 of (lp, s2) \<Rightarrow>
                (case map_of (ho_accepted s2) c of
                   None \<Rightarrow> answer RDMA_CM_EVENT_REJECTED None (w\<lparr>fb_server := s2, fb_loop := lp\<rparr>)
                 | Some pd \<Rightarrow>
                     answer RDMA_CM_EVENT_ESTABLISHED (Some pd)
                       (w\<lparr>fb_server := s2, fb_loop := lp, fb_peers := AList.update i c (fb_peers w)\<rparr>)))))"

definition fab_disconnect :: "u64 \<Rightarrow> fabric \<Rightarrow> fabric" where
  "fab_disconnect i w =
     (case map_of (fb_peers w) i of
        None \<Rightarrow> w
      | Some c \<Rightarrow>
          (case server_event host_verbs (fb_srv w) (cm_request c RDMA_CM_EVENT_DISCONNECTED) (fb_loop w)
                  (fb_server w) of (lp, s) \<Rightarrow>
           w\<lparr>fb_server := s, fb_loop := lp, fb_peers := AList.delete i (fb_peers w)\<rparr>))"

fun qp_cq :: "u64 \<Rightarrow> rdma_resource list \<Rightarrow> u64 option" where
  "qp_cq i [] = None"
| "qp_cq i (Qp i' p c # rs) = (if i' = i then Some c else qp_cq i rs)"
| "qp_cq i (r # rs) = qp_cq i rs"

definition fab_post_send :: "u64 \<Rightarrow> send_wr \<Rightarrow> fabric \<Rightarrow> int \<times> fabric" where
  "fab_post_send i wr w =
     (let h = fb_client w; w1 = w\<lparr>fb_client := host_next h\<rparr> in
      case qp_cq i (ho_live h) of
        None \<Rightarrow> (-1, w1)
      | Some cq \<Rightarrow>
          if host_fate h = Works then (0, w1\<lparr>fb_pending := fb_pending w @ [(cq, wr)]\<rparr>) else (-1, w1))"

definition access_ok :: "(u64 \<times> u32 \<times> u64 \<times> u64) list \<Rightarrow> u32 \<Rightarrow> u64 \<Rightarrow> nat \<Rightarrow> bool" where
  "access_ok regions key a n \<longleftrightarrow>
     list_ex (\<lambda>(_, k, base, len). k = key \<and> unat base \<le> unat a \<and> unat a + n \<le> unat base + unat len)
       regions"

text \<open>
  The card checks both keys and ranges and copies; a request it may not carry out completes with the
  status of a remote access error.
\<close>

definition carry_out :: "send_wr \<Rightarrow> fabric \<Rightarrow> int \<times> fabric" where
  "carry_out wr w =
     (let n = unat (wr_length wr); c = fb_client w; s = fb_server w in
      if \<not> access_ok (ho_regions c) (wr_lkey wr) (wr_local_addr wr) n \<or>
         \<not> access_ok (ho_regions s) (wr_rkey wr) (wr_remote_addr wr) n then (10, w)
      else if wr_opcode wr = IBV_WR_RDMA_WRITE then
        (IBV_WC_SUCCESS, w\<lparr>fb_server := s\<lparr>ho_mem :=
           mem_put (wr_remote_addr wr) (mem_get (wr_local_addr wr) n (ho_mem c)) (ho_mem s)\<rparr>\<rparr>)
      else
        (IBV_WC_SUCCESS, w\<lparr>fb_client := c\<lparr>ho_mem :=
           mem_put (wr_local_addr wr) (mem_get (wr_remote_addr wr) n (ho_mem s)) (ho_mem c)\<rparr>\<rparr>))"

definition nic_step :: "fabric \<Rightarrow> fabric" where
  "nic_step w =
     (let w1 = w\<lparr>fb_polls := Suc (fb_polls w)\<rparr> in
      case fb_pending w of
        [] \<Rightarrow> w1
      | (cq, wr) # ps \<Rightarrow>
          (case fb_nic w (fb_polls w) of
             NicIdle \<Rightarrow> w1
           | NicWork \<Rightarrow>
               (case carry_out wr (w1\<lparr>fb_pending := ps\<rparr>) of (status, w2) \<Rightarrow>
                w2\<lparr>fb_cqes := fb_cqes w2 @ [(cq, status)]\<rparr>)
           | NicFault s \<Rightarrow>
               w1\<lparr>fb_pending := ps, fb_cqes := fb_cqes w @ [(cq, if s = IBV_WC_SUCCESS then 12 else s)]\<rparr>))"

definition fab_poll_cq :: "u64 \<Rightarrow> fabric \<Rightarrow> (int \<times> int) \<times> fabric" where
  "fab_poll_cq cq w =
     (let w1 = nic_step w in
      case find (\<lambda>(c, _). c = cq) (fb_cqes w1) of
        None \<Rightarrow> ((0, -1), w1)
      | Some (c, s) \<Rightarrow> ((1, s), w1\<lparr>fb_cqes := remove1 (c, s) (fb_cqes w1)\<rparr>))"

definition fabric_verbs :: "fabric rdma_verbs" where
  "fabric_verbs =
     \<lparr>vb_get_device_list = on_client (vb_get_device_list host_verbs),
      vb_create_event_channel = on_client (vb_create_event_channel host_verbs),
      vb_create_id = (\<lambda>ec. on_client (vb_create_id host_verbs ec)),
      vb_resolve_addr = (\<lambda>i ip port. on_client (vb_resolve_addr host_verbs i ip port)),
      vb_resolve_route = (\<lambda>i. on_client (vb_resolve_route host_verbs i)),
      vb_bind_addr = (\<lambda>i port. on_client (vb_bind_addr host_verbs i port)),
      vb_listen = (\<lambda>i. on_client (vb_listen host_verbs i)),
      vb_poll = (\<lambda>ec ms. on_client (vb_poll host_verbs ec ms)),
      vb_get_cm_event = (\<lambda>ec. on_client (vb_get_cm_event host_verbs ec)),
      vb_ack_cm_event = (\<lambda>ev w. w), vb_verbs = (\<lambda>i w. Some 1),
      vb_alloc_pd = (\<lambda>i. on_client (vb_alloc_pd host_verbs i)),
      vb_create_cq = (\<lambda>i. on_client (vb_create_cq host_verbs i)),
      vb_mmap = (\<lambda>n. on_client (vb_mmap host_verbs n)),
      vb_madvise = (\<lambda>a n s w. w\<lparr>fb_client := vb_madvise host_verbs a n s (fb_client w)\<rparr>),
      vb_reg_mr = (\<lambda>pd buf n acc. on_client (vb_reg_mr host_verbs pd buf n acc)),
      vb_create_qp = (\<lambda>i pd cq. on_client (vb_create_qp host_verbs i pd cq)),
      vb_connect = fab_connect,
      vb_accept = (\<lambda>i bs. on_client (vb_accept host_verbs i bs)),
      vb_disconnect = fab_disconnect,
      vb_release = (\<lambda>r w. w\<lparr>fb_client := host_release r (fb_client w)\<rparr>),
      vb_post_send = fab_post_send, vb_poll_cq = fab_poll_cq,
      vb_mem_write = (\<lambda>a bs w. w\<lparr>fb_client := (fb_client w)\<lparr>ho_mem := mem_put a bs (ho_mem (fb_client w))\<rparr>\<rparr>),
      vb_mem_read = (\<lambda>a n w. mem_get a n (ho_mem (fb_client w))),
      vb_now = on_client host_now\<rparr>"

section \<open>The fabric keeps the promises about resources\<close>

abbreviation client_live :: "fabric \<Rightarrow> rdma_resource set" where
  "client_live w \<equiv> set (ho_live (fb_client w))"

lemma uses_held: "list_ex (\<lambda>q. uses q r) rs \<longleftrightarrow> held_by_qp (set rs) r"
proof -
  have "uses q r \<longleftrightarrow> (case r of Cq c \<Rightarrow> (\<exists>i p. q = Qp i p c) | Pd p \<Rightarrow> (\<exists>i c. q = Qp i p c) | _ \<Rightarrow> False)" for q
    by (cases q; cases r) auto
  then show ?thesis by (cases r) (auto simp: list_ex_iff held_by_qp_def)
qed

lemma push_event_live [simp]: "ho_live (push_event i e pd h) = ho_live h"
  by (simp add: push_event_def split: option.split)

lemma acquire_acquires:
  assumes "host_acquire mk h = (p, h')"
  shows "acquires (set \<circ> ho_live) mk h p h'"
  using assms by (auto simp: host_acquire_def acquires_def Let_def split: if_splits)

lemma on_client_acquires:
  assumes "on_client f w = (x, w')" and "\<And>h h'. f h = (x, h') \<Longrightarrow> acquires (set \<circ> ho_live) mk h (g x) h'"
  shows "acquires client_live mk w (g x) w'"
  using assms by (auto simp: on_client_def acquires_def split: prod.splits option.splits)

lemma on_client_live:
  assumes "on_client f w = (x, w')" and "\<And>h h'. f h = (x, h') \<Longrightarrow> ho_live h' = ho_live h"
  shows "client_live w' = client_live w"
  using assms by (auto simp: on_client_def split: prod.splits)

lemma host_calls_live:
  "host_resolve e i h = (ret, h') \<Longrightarrow> ho_live h' = ho_live h"
  "host_poll ec ms h = (ret, h') \<Longrightarrow> ho_live h' = ho_live h"
  "host_get_cm_event ec h = (y, h') \<Longrightarrow> ho_live h' = ho_live h"
  by (auto simp: host_resolve_def host_poll_def host_get_cm_event_def split: call_fate.splits option.splits
      prod.splits if_splits)

lemma host_id_acquires:
  "host_create_id ec h = ((ret, i), h') \<Longrightarrow> acquires (set \<circ> ho_live) CmId h (if ret = 0 then Some i else None) h'"
  using acquire_acquires [of CmId h]
  by (fastforce simp: host_create_id_def acquires_def split: option.splits prod.splits)

lemma host_mr_acquires:
  "host_reg_mr pd buf n acc h = (mr, h') \<Longrightarrow> acquires (set \<circ> ho_live) Mr h (map_option mr_ptr mr) h'"
  using acquire_acquires [of Mr h]
  by (fastforce simp: host_reg_mr_def acquires_def Let_def split: option.splits prod.splits if_splits)

lemma host_mmap_acquires:
  "host_mmap n h = (p, h') \<Longrightarrow> acquires (set \<circ> ho_live) Buffer h p h'"
  by (auto simp: host_mmap_def acquires_def Let_def split: if_splits)

lemma fab_connect_live: "fab_connect i w = (ret, w') \<Longrightarrow> client_live w' = client_live w"
  by (auto simp: fab_connect_def Let_def split: call_fate.splits option.splits prod.splits)

interpretation fab: rdma_provider fabric_verbs client_live
proof (unfold_locales, goal_cases)
  case (1 w x w')
  then show ?case by (auto simp: fabric_verbs_def host_verbs_def on_client_def)
next
  case (2 w p w')
  then show ?case
    using on_client_acquires [of "host_acquire EventChannel" w p w' EventChannel id] acquire_acquires
    by (simp add: fabric_verbs_def host_verbs_def)
next
  case (3 ec w ret i w')
  then show ?case
    using on_client_acquires [of "host_create_id ec" w "(ret, i)" w' CmId "\<lambda>(ret, i). if ret = 0 then Some i else None"]
      host_id_acquires by (simp add: fabric_verbs_def host_verbs_def)
next
  case (4 i ip port w ret w')
  then show ?case using on_client_live [OF _ host_calls_live(1)] by (simp add: fabric_verbs_def host_verbs_def)
next
  case (5 i w ret w')
  then show ?case using on_client_live [OF _ host_calls_live(1)] by (simp add: fabric_verbs_def host_verbs_def)
next
  case (6 ec ms w ret w')
  then show ?case using on_client_live [OF _ host_calls_live(2)] by (simp add: fabric_verbs_def host_verbs_def)
next
  case (7 ec w y w')
  then show ?case using on_client_live [OF _ host_calls_live(3)] by (simp add: fabric_verbs_def host_verbs_def)
next
  case (8 ev w)
  then show ?case by (simp add: fabric_verbs_def)
next
  case (9 i w p w')
  then show ?case using on_client_acquires [of "host_acquire Pd" w p w' Pd id] acquire_acquires
    by (simp add: fabric_verbs_def host_verbs_def)
next
  case (10 i w p w')
  then show ?case using on_client_acquires [of "host_acquire Cq" w p w' Cq id] acquire_acquires
    by (simp add: fabric_verbs_def host_verbs_def)
next
  case (11 n w p w')
  then show ?case using on_client_acquires [of "host_mmap n" w p w' Buffer id] host_mmap_acquires
    by (simp add: fabric_verbs_def host_verbs_def)
next
  case (12 pd buf n acc w mr w')
  then show ?case using on_client_acquires [of "host_reg_mr pd buf n acc" w mr w' Mr "map_option mr_ptr"] host_mr_acquires
    by (simp add: fabric_verbs_def host_verbs_def)
next
  case (13 i pd cq w ret w')
  then show ?case
    by (auto simp: fabric_verbs_def host_verbs_def on_client_def host_create_qp_def split: if_splits)
next
  case (14 i w ret w')
  then show ?case using fab_connect_live by (simp add: fabric_verbs_def)
next
  case (15 i w)
  then show ?case by (auto simp: fabric_verbs_def fab_disconnect_def split: option.split prod.split)
next
  case (16 r w)
  then show ?case by (auto simp: fabric_verbs_def host_release_def uses_held)
qed

section \<open>Transfers\<close>

abbreviation client_mem :: "fabric \<Rightarrow> memory" where
  "client_mem w \<equiv> ho_mem (fb_client w)"

abbreviation server_mem :: "fabric \<Rightarrow> memory" where
  "server_mem w \<equiv> ho_mem (fb_server w)"

lemma fabric_verbs_simps [simp]:
  "vb_now fabric_verbs = on_client host_now"
  "vb_post_send fabric_verbs = fab_post_send" "vb_poll_cq fabric_verbs = fab_poll_cq"
  "vb_mem_write fabric_verbs =
     (\<lambda>a bs w. w\<lparr>fb_client := (fb_client w)\<lparr>ho_mem := mem_put a bs (client_mem w)\<rparr>\<rparr>)"
  "vb_mem_read fabric_verbs = (\<lambda>a n w. mem_get a n (client_mem w))"
  by (simp_all add: fabric_verbs_def)

text \<open>What a transfer does not touch: the resources, the registered regions and the server's loop.\<close>

definition fab_frame :: "fabric \<Rightarrow> fabric \<Rightarrow> bool" where
  "fab_frame w w' \<longleftrightarrow>
     ho_live (fb_client w') = ho_live (fb_client w) \<and> ho_live (fb_server w') = ho_live (fb_server w) \<and>
     ho_regions (fb_client w') = ho_regions (fb_client w) \<and>
     ho_regions (fb_server w') = ho_regions (fb_server w) \<and>
     fb_loop w' = fb_loop w \<and> fb_srv w' = fb_srv w \<and> fb_peers w' = fb_peers w"

lemma fab_frame_refl [simp]: "fab_frame w w"
  by (simp add: fab_frame_def)

lemma fab_frame_trans: "fab_frame w w' \<Longrightarrow> fab_frame w' w'' \<Longrightarrow> fab_frame w w''"
  by (simp add: fab_frame_def)

text \<open>Nothing posted and nothing completed.\<close>

definition quiet :: "fabric \<Rightarrow> bool" where
  "quiet w \<longleftrightarrow> fb_pending w = [] \<and> fb_cqes w = []"

definition wr_allowed :: "send_wr \<Rightarrow> fabric \<Rightarrow> bool" where
  "wr_allowed wr w \<longleftrightarrow>
     access_ok (ho_regions (fb_client w)) (wr_lkey wr) (wr_local_addr wr) (unat (wr_length wr)) \<and>
     access_ok (ho_regions (fb_server w)) (wr_rkey wr) (wr_remote_addr wr) (unat (wr_length wr))"

text \<open>The effect of a work request on the two memories.\<close>

definition carried :: "send_wr \<Rightarrow> fabric \<Rightarrow> fabric \<Rightarrow> bool" where
  "carried wr w w' \<longleftrightarrow> wr_allowed wr w \<and>
     (if wr_opcode wr = IBV_WR_RDMA_WRITE then
        client_mem w' = client_mem w \<and>
        server_mem w' = mem_put (wr_remote_addr wr)
          (mem_get (wr_local_addr wr) (unat (wr_length wr)) (client_mem w)) (server_mem w)
      else
        server_mem w' = server_mem w \<and>
        client_mem w' = mem_put (wr_local_addr wr)
          (mem_get (wr_remote_addr wr) (unat (wr_length wr)) (server_mem w)) (client_mem w))"

lemma now_law:
  assumes "on_client host_now w = (t, w')"
  shows "fab_frame w w'" "client_mem w' = client_mem w" "server_mem w' = server_mem w"
    "fb_pending w' = fb_pending w" "fb_cqes w' = fb_cqes w" "fb_nic w' = fb_nic w" "fb_polls w' = fb_polls w"
    "t = ho_time (fb_client w)" "ho_tick (fb_client w') = ho_tick (fb_client w)"
    "ho_time (fb_client w') = ho_time (fb_client w) + ho_tick (fb_client w) (ho_step (fb_client w))"
  using assms by (auto simp: on_client_def host_now_def fab_frame_def)

text \<open>One poll while a single request is posted.\<close>

lemma poll_one:
  assumes "fab_poll_cq cq w = ((n, s), w1)" and "fb_pending w = [(cq, wr)]" and "fb_cqes w = []"
  shows "fab_frame w w1" and "ho_tick (fb_client w1) = ho_tick (fb_client w)"
    and "ho_time (fb_client w1) = ho_time (fb_client w)"
    and "(n = 0 \<and> fb_pending w1 = [(cq, wr)] \<and> fb_cqes w1 = [] \<and> client_mem w1 = client_mem w \<and>
            server_mem w1 = server_mem w) \<or>
         (n = 1 \<and> quiet w1 \<and> s = IBV_WC_SUCCESS \<and> carried wr w w1) \<or>
         (n = 1 \<and> quiet w1 \<and> s \<noteq> IBV_WC_SUCCESS \<and> client_mem w1 = client_mem w \<and> server_mem w1 = server_mem w)"
  using assms
  by (auto simp: fab_poll_cq_def nic_step_def carry_out_def Let_def quiet_def carried_def wr_allowed_def
      fab_frame_def IBV_WC_SUCCESS_def split: nic_fate.splits if_splits)

lemma poll_completion_law:
  assumes "poll_completion fabric_verbs cq is_write start w = Some y"
  shows "fb_pending w = [(cq, wr)] \<Longrightarrow> fb_cqes w = [] \<Longrightarrow> fab_frame w (snd y) \<and> fst y \<noteq> Panic \<and>
    (if is_ok (fst y) then quiet (snd y) \<and> carried wr w (snd y)
     else client_mem (snd y) = client_mem w \<and> server_mem (snd y) = server_mem w \<and>
       (quiet (snd y) \<or> fb_pending (snd y) = [(cq, wr)] \<and> fb_cqes (snd y) = [] \<and>
          fst y = Err (RdmaTimeout (rdma_name is_write))))"
proof (induction "fabric_verbs" cq is_write start w y rule: poll_completion.raw_induct)
  case (1 poll cq is_write start w y)
  obtain n s w1 where p: "fab_poll_cq cq w = ((n, s), w1)" by (metis surj_pair)
  note P = poll_one [OF p 1(3,4)]
  obtain t w2 where t: "on_client host_now w1 = (t, w2)" by (rule prod.exhaust)
  note T = now_law [OF t]
  from P(4) consider (wait) "n = 0" "fb_pending w1 = [(cq, wr)]" "fb_cqes w1 = []"
      "client_mem w1 = client_mem w" "server_mem w1 = server_mem w"
    | (good) "n = 1" "quiet w1" "s = IBV_WC_SUCCESS" "carried wr w w1"
    | (bad) "n = 1" "quiet w1" "s \<noteq> IBV_WC_SUCCESS" "client_mem w1 = client_mem w" "server_mem w1 = server_mem w"
    by blast
  then show ?case
  proof cases
    case wait
    have F: "fab_frame w w2" using P(1) T(1) fab_frame_trans by blast
    have w2: "fb_pending w2 = [(cq, wr)]" "fb_cqes w2 = []" using wait T by simp_all
    show ?thesis
    proof (cases "t - start > 5 * 1000000000")
      case True
      then have "y = (Err (RdmaTimeout (rdma_name is_write)), w2)"
        using 1(2) p t wait(1) by simp
      then show ?thesis using F w2 wait T by simp
    next
      case False
      then have "poll fabric_verbs cq is_write start w2 = Some y" using 1(2) p t wait(1) by simp
      then have ih: "fab_frame w2 (snd y)" "fst y \<noteq> Panic"
        "if is_ok (fst y) then quiet (snd y) \<and> carried wr w2 (snd y)
         else client_mem (snd y) = client_mem w2 \<and> server_mem (snd y) = server_mem w2 \<and>
           (quiet (snd y) \<or> fb_pending (snd y) = [(cq, wr)] \<and> fb_cqes (snd y) = [] \<and>
              fst y = Err (RdmaTimeout (rdma_name is_write)))" using 1(1) w2 by blast+
      have "carried wr w2 v = carried wr w v" for v
        using F wait T by (simp add: carried_def wr_allowed_def fab_frame_def)
      moreover have "fab_frame w (snd y)" by (rule fab_frame_trans [OF F ih(1)])
      moreover have "client_mem w2 = client_mem w" "server_mem w2 = server_mem w" using wait T by simp_all
      ultimately show ?thesis using ih(2,3) by (simp split: if_splits)
    qed
  next
    case good
    then have "y = (Ok (), w1)" using 1(2) p by simp
    then show ?thesis using good P(1) by simp
  next
    case bad
    then have "y = (Err (RdmaFailed (rdma_name is_write)), w1)" using 1(2) p by simp
    then show ?thesis using bad P(1) by simp
  qed
qed (rule assms)

text \<open>
  The connection \<open>st\<close> can be used: its queue pair reports to its completion queue, and no earlier
  request is outstanding.
\<close>

definition link_ready :: "rdma_state \<Rightarrow> fabric \<Rightarrow> bool" where
  "link_ready st w \<longleftrightarrow> qp_cq (rs_cm_id st) (ho_live (fb_client w)) = Some (rs_cq st) \<and> quiet w"

lemma link_ready_frame: "link_ready st w \<Longrightarrow> fab_frame w w' \<Longrightarrow> quiet w' \<Longrightarrow> link_ready st w'"
  by (simp add: link_ready_def fab_frame_def)

text \<open>The work request of a page transfer.\<close>

definition page_wr :: "rdma_state \<Rightarrow> u64 \<Rightarrow> bool \<Rightarrow> send_wr" where
  "page_wr st x is_write =
     \<lparr>wr_opcode = (if is_write then IBV_WR_RDMA_WRITE else IBV_WR_RDMA_READ),
      wr_local_addr = rs_local_buf st, wr_length = of_nat PAGE_SIZE, wr_lkey = mr_lkey (rs_local_mr st),
      wr_remote_addr = rs_remote_addr st + x * of_nat PAGE_SIZE, wr_rkey = rs_remote_rkey st\<rparr>"

lemma page_wr_simps [simp]:
  "wr_opcode (page_wr st x True) = IBV_WR_RDMA_WRITE" "wr_opcode (page_wr st x False) = IBV_WR_RDMA_READ"
  "wr_local_addr (page_wr st x b) = rs_local_buf st" "unat (wr_length (page_wr st x b)) = PAGE_SIZE"
  "wr_lkey (page_wr st x b) = mr_lkey (rs_local_mr st)" "wr_rkey (page_wr st x b) = rs_remote_rkey st"
  "wr_remote_addr (page_wr st x b) = rs_remote_addr st + x * of_nat PAGE_SIZE"
  by (simp_all add: page_wr_def PAGE_SIZE_def)

lemma transfer_law:
  assumes run: "rdma_transfer fabric_verbs st 0 (x * of_nat PAGE_SIZE) (of_nat PAGE_SIZE) is_write w = Some (r, w')"
    and use: "link_ready st w"
  shows "fab_frame w w' \<and> r \<noteq> Panic \<and>
    (if is_ok r then quiet w' \<and> carried (page_wr st x is_write) w w'
     else client_mem w' = client_mem w \<and> server_mem w' = server_mem w \<and>
       (quiet w' \<or> r = Err (RdmaTimeout (rdma_name is_write)) \<and>
          fb_pending w' = [(rs_cq st, page_wr st x is_write)] \<and> fb_cqes w' = []))"
proof -
  let ?wr = "page_wr st x is_write"
  have wr: "\<lparr>wr_opcode = (if is_write then IBV_WR_RDMA_WRITE else IBV_WR_RDMA_READ),
      wr_local_addr = rs_local_buf st + 0, wr_length = ucast (of_nat PAGE_SIZE :: u64),
      wr_lkey = mr_lkey (rs_local_mr st), wr_remote_addr = rs_remote_addr st + x * of_nat PAGE_SIZE,
      wr_rkey = rs_remote_rkey st\<rparr> = ?wr"
    by (simp add: page_wr_def PAGE_SIZE_def)
  obtain ret w1 where p: "fab_post_send (rs_cm_id st) ?wr w = (ret, w1)" by (rule prod.exhaust)
  have P: "fab_frame w w1" "client_mem w1 = client_mem w" "server_mem w1 = server_mem w" "fb_cqes w1 = fb_cqes w"
    "if ret = 0 then fb_pending w1 = [(rs_cq st, ?wr)] else fb_pending w1 = []"
    using p use by (auto simp: fab_post_send_def Let_def link_ready_def quiet_def fab_frame_def split: if_splits)
  note run' = run [unfolded rdma_transfer_def wr fabric_verbs_simps p prod.case]
  show ?thesis
  proof (cases "ret = 0")
    case False
    then have "r = Err (RdmaFailed ''ibv_post_send'')" "w' = w1" using run' by simp_all
    then show ?thesis using False P use by (simp add: link_ready_def quiet_def)
  next
    case True
    obtain t w2 where t: "on_client host_now w1 = (t, w2)" by (rule prod.exhaust)
    note T = now_law [OF t]
    have "poll_completion fabric_verbs (rs_cq st) is_write t w2 = Some (r, w')"
      using run' True t by simp
    moreover have "fb_pending w2 = [(rs_cq st, ?wr)]" "fb_cqes w2 = []"
      using True P T use by (simp_all add: link_ready_def quiet_def)
    ultimately have "fab_frame w2 w' \<and> r \<noteq> Panic \<and> (if is_ok r then quiet w' \<and> carried ?wr w2 w'
       else client_mem w' = client_mem w2 \<and> server_mem w' = server_mem w2 \<and>
         (quiet w' \<or> fb_pending w' = [(rs_cq st, ?wr)] \<and> fb_cqes w' = [] \<and> r = Err (RdmaTimeout (rdma_name is_write))))"
      by (rule poll_completion_law [where y = "(r, w')", unfolded fst_conv snd_conv])
    then have L: "fab_frame w2 w'" "r \<noteq> Panic" "if is_ok r then quiet w' \<and> carried ?wr w2 w'
       else client_mem w' = client_mem w2 \<and> server_mem w' = server_mem w2 \<and>
         (quiet w' \<or> fb_pending w' = [(rs_cq st, ?wr)] \<and> fb_cqes w' = [] \<and> r = Err (RdmaTimeout (rdma_name is_write)))"
      by blast+
    have F: "fab_frame w w2" using P(1) T(1) fab_frame_trans by blast
    have "carried ?wr w2 w' = carried ?wr w w'"
      using F P T by (simp add: carried_def wr_allowed_def fab_frame_def)
    moreover have "fab_frame w w'" by (rule fab_frame_trans [OF F L(1)])
    moreover have "client_mem w2 = client_mem w" "server_mem w2 = server_mem w" using P T by simp_all
    ultimately show ?thesis using L(2,3) by (simp split: if_splits) blast
  qed
qed

section \<open>Pages\<close>

text \<open>The page at offset \<open>x\<close> of the memory the connection was given.\<close>

definition remote_page :: "rdma_state \<Rightarrow> fabric \<Rightarrow> u64 \<Rightarrow> page" where
  "remote_page st w x = mem_get (rs_remote_addr st + x * of_nat PAGE_SIZE) PAGE_SIZE (server_mem w)"

lemma store_Ok_law:
  assumes run: "rb_store_page fabric_verbs b h d w = (Ok (), b', w')" and st: "rb_state b = Some st"
    and use: "link_ready st w" and d: "is_page d"
  shows "rb_state b' = Some st" and "link_ready st w'" and "fab_frame w w'"
    and "server_mem w' = mem_put (rs_remote_addr st + ph_offset h * of_nat PAGE_SIZE) d (server_mem w)"
proof -
  obtain t w1 where t: "on_client host_now w = (t, w1)" by (rule prod.exhaust)
  note T = now_law [OF t]
  let ?w1 = "w1\<lparr>fb_client := (fb_client w1)\<lparr>ho_mem := mem_put (rs_local_buf st) d (client_mem w1)\<rparr>\<rparr>"
  obtain u w2 where tr: "rdma_transfer fabric_verbs st 0 (ph_offset h * of_nat PAGE_SIZE) (of_nat PAGE_SIZE) True ?w1 =
      Some (Ok u, w2)"
    and rest: "b' = b\<lparr>rb_total_store_ns := rb_total_store_ns b + of_nat (fst (on_client host_now w2) - t),
        rb_store_count := rb_store_count b + 1\<rparr>" "w' = snd (on_client host_now w2)"
    using run st t by (auto simp: rb_store_page_def split: option.splits prod.splits res.splits)
  have use1: "link_ready st ?w1" using use T by (simp add: link_ready_def quiet_def fab_frame_def)
  from transfer_law [OF tr use1] have L: "fab_frame ?w1 w2" "quiet w2" "carried (page_wr st (ph_offset h) True) ?w1 w2"
    by auto
  have T2: "fab_frame w2 w'" "server_mem w' = server_mem w2" "quiet w'"
    using now_law [of w2 "fst (on_client host_now w2)" w'] rest(2) L(2) by (auto simp: quiet_def)
  have "fab_frame w ?w1" using T by (simp add: fab_frame_def)
  then show F: "fab_frame w w'" using L(1) T2(1) fab_frame_trans by blast
  show "rb_state b' = Some st" using rest(1) st by simp
  show "link_ready st w'" by (rule link_ready_frame [OF use F T2(3)])
  show "server_mem w' = mem_put (rs_remote_addr st + ph_offset h * of_nat PAGE_SIZE) d (server_mem w)"
    using L(3) T2(2) T d by (simp add: carried_def is_page_def mem_get_put PAGE_SIZE_def)
qed

lemma load_Ok_law:
  assumes run: "rb_load_page fabric_verbs b h w = (Ok p, b', w')" and st: "rb_state b = Some st"
    and use: "link_ready st w"
  shows "rb_state b' = Some st" and "link_ready st w'" and "fab_frame w w'" and "server_mem w' = server_mem w"
    and "p = remote_page st w (ph_offset h)"
proof -
  obtain t w1 where t: "on_client host_now w = (t, w1)" by (rule prod.exhaust)
  note T = now_law [OF t]
  obtain u w2 where tr: "rdma_transfer fabric_verbs st 0 (ph_offset h * of_nat PAGE_SIZE) (of_nat PAGE_SIZE) False w1 =
      Some (Ok u, w2)"
    and rest: "b' = b\<lparr>rb_total_load_ns := rb_total_load_ns b + of_nat (fst (on_client host_now w2) - t),
        rb_load_count := rb_load_count b + 1\<rparr>" "w' = snd (on_client host_now w2)"
      "p = mem_get (rs_local_buf st) PAGE_SIZE (client_mem w2)"
    using run st t by (auto simp: rb_load_page_def split: option.splits prod.splits res.splits)
  have use1: "link_ready st w1" using use T by (simp add: link_ready_def quiet_def fab_frame_def)
  from transfer_law [OF tr use1] have L: "fab_frame w1 w2" "quiet w2" "carried (page_wr st (ph_offset h) False) w1 w2"
    by auto
  have T2: "fab_frame w2 w'" "server_mem w' = server_mem w2" "quiet w'"
    using now_law [of w2 "fst (on_client host_now w2)" w'] rest(2) L(2) by (auto simp: quiet_def)
  show F: "fab_frame w w'" using T(1) L(1) T2(1) fab_frame_trans by blast
  show "rb_state b' = Some st" using rest(1) st by simp
  show "link_ready st w'" by (rule link_ready_frame [OF use F T2(3)])
  show "server_mem w' = server_mem w" and "p = remote_page st w (ph_offset h)"
    using L(3) T2(2) T rest(3)
    by (simp_all add: carried_def remote_page_def mem_get_put PAGE_SIZE_def IBV_WR_RDMA_WRITE_def IBV_WR_RDMA_READ_def)
qed

text \<open>Different pages of one slab do not overlap.\<close>

definition slab_of_pages :: "rdma_state \<Rightarrow> nat \<Rightarrow> bool" where
  "slab_of_pages st n \<longleftrightarrow> unat (rs_remote_addr st) + n * PAGE_SIZE \<le> 2 ^ 64"

lemma page_addr:
  assumes "slab_of_pages st n" and "unat x < n"
  shows "unat (rs_remote_addr st + x * of_nat PAGE_SIZE) = unat (rs_remote_addr st) + unat x * PAGE_SIZE"
    and "unat (rs_remote_addr st) + unat x * PAGE_SIZE + PAGE_SIZE \<le> 2 ^ 64"
proof -
  have "Suc (unat x) * PAGE_SIZE \<le> n * PAGE_SIZE" by (rule mult_le_mono1) (use assms(2) in simp)
  then show le: "unat (rs_remote_addr st) + unat x * PAGE_SIZE + PAGE_SIZE \<le> 2 ^ 64"
    using assms(1) by (simp add: slab_of_pages_def)
  have pos: "0 < PAGE_SIZE" by (simp add: PAGE_SIZE_def)
  have "unat (x * of_nat PAGE_SIZE) = unat x * PAGE_SIZE"
    using unat_mult_small [of x "of_nat PAGE_SIZE"] le pos unat_PAGE_SIZE by simp
  moreover have "unat (rs_remote_addr st) + unat x * PAGE_SIZE < 2 ^ 64" using le pos by linarith
  ultimately show "unat (rs_remote_addr st + x * of_nat PAGE_SIZE) = unat (rs_remote_addr st) + unat x * PAGE_SIZE"
    using unat_add_small [of "rs_remote_addr st" "x * of_nat PAGE_SIZE"] by simp
qed

lemma pages_apart:
  assumes "slab_of_pages st n" and "unat x < n" and "unat y < n" and "x \<noteq> y"
  shows "ranges_apart (rs_remote_addr st + x * of_nat PAGE_SIZE) PAGE_SIZE
    (rs_remote_addr st + y * of_nat PAGE_SIZE) PAGE_SIZE"
proof -
  from assms(4) have "unat x < unat y \<or> unat y < unat x" by (metis linorder_neqE_nat word_unat_eq_iff)
  then have "Suc (unat x) * PAGE_SIZE \<le> unat y * PAGE_SIZE \<or> Suc (unat y) * PAGE_SIZE \<le> unat x * PAGE_SIZE"
    using mult_le_mono1 [of "Suc (unat x)" "unat y" PAGE_SIZE] mult_le_mono1 [of "Suc (unat y)" "unat x" PAGE_SIZE]
    by auto
  then show ?thesis
    using page_addr [OF assms(1,2)] page_addr [OF assms(1,3)] by (auto simp: ranges_apart_def)
qed

section \<open>Progress\<close>

text \<open>No call fails and the card carries out what is posted.\<close>

definition working :: "fabric \<Rightarrow> bool" where
  "working w \<longleftrightarrow> (\<forall>k. ho_fate (fb_client w) k = Works) \<and> (\<forall>k. fb_nic w k = NicWork)"

definition page_allowed :: "rdma_state \<Rightarrow> u64 \<Rightarrow> fabric \<Rightarrow> bool" where
  "page_allowed st x w \<longleftrightarrow>
     access_ok (ho_regions (fb_client w)) (mr_lkey (rs_local_mr st)) (rs_local_buf st) PAGE_SIZE \<and>
     access_ok (ho_regions (fb_server w)) (rs_remote_rkey st) (rs_remote_addr st + x * of_nat PAGE_SIZE) PAGE_SIZE"

lemma page_allowed_wr: "wr_allowed (page_wr st x is_write) w = page_allowed st x w"
  by (simp add: wr_allowed_def page_allowed_def)

lemma page_allowed_frame: "fab_frame w w' \<Longrightarrow> page_allowed st x w' = page_allowed st x w"
  by (simp add: page_allowed_def fab_frame_def)

lemma working_now: "on_client host_now w = (t, w') \<Longrightarrow> working w \<Longrightarrow> working w'"
  by (auto simp: working_def on_client_def host_now_def)

lemma carry_out_working:
  assumes "working w" and "wr_allowed wr w" and "carry_out wr w = (s, w')"
  shows "working w' \<and> s = IBV_WC_SUCCESS \<and> fb_cqes w' = fb_cqes w"
  using assms by (auto simp: carry_out_def Let_def wr_allowed_def working_def split: if_splits)

lemma poll_working:
  assumes "working w" and "fb_pending w = [(cq, wr)]" and "fb_cqes w = []" and "wr_allowed wr w"
  shows "\<exists>w'. poll_completion fabric_verbs cq is_write start w = Some (Ok (), w') \<and> working w'"
proof -
  let ?v = "w\<lparr>fb_polls := Suc (fb_polls w), fb_pending := []\<rparr>"
  obtain s w2 where c: "carry_out wr ?v = (s, w2)" by (rule prod.exhaust)
  have "working ?v" "wr_allowed wr ?v" using assms by (simp_all add: working_def wr_allowed_def)
  from carry_out_working [OF this c] have w2: "working w2" "s = IBV_WC_SUCCESS" "fb_cqes w2 = []"
    using assms(3) by simp_all
  have "nic_step w = w2\<lparr>fb_cqes := [(cq, IBV_WC_SUCCESS)]\<rparr>"
    using assms(1,2) c w2 by (simp add: nic_step_def working_def)
  then have "fab_poll_cq cq w = ((1, IBV_WC_SUCCESS), w2\<lparr>fb_cqes := []\<rparr>)" by (simp add: fab_poll_cq_def)
  then have "poll_completion fabric_verbs cq is_write start w = Some (Ok (), w2\<lparr>fb_cqes := []\<rparr>)"
    by (simp add: poll_completion.simps [of _ _ _ _ w])
  then show ?thesis using w2(1) by (intro exI [of _ "w2\<lparr>fb_cqes := []\<rparr>"]) (simp add: working_def)
qed

lemma transfer_working:
  assumes "working w" and "link_ready st w" and "page_allowed st x w"
  shows "\<exists>w'. rdma_transfer fabric_verbs st 0 (x * of_nat PAGE_SIZE) (of_nat PAGE_SIZE) is_write w = Some (Ok (), w') \<and>
    working w'"
proof -
  let ?wr = "page_wr st x is_write"
  have wr: "\<lparr>wr_opcode = (if is_write then IBV_WR_RDMA_WRITE else IBV_WR_RDMA_READ),
      wr_local_addr = rs_local_buf st + 0, wr_length = ucast (of_nat PAGE_SIZE :: u64),
      wr_lkey = mr_lkey (rs_local_mr st), wr_remote_addr = rs_remote_addr st + x * of_nat PAGE_SIZE,
      wr_rkey = rs_remote_rkey st\<rparr> = ?wr"
    by (simp add: page_wr_def PAGE_SIZE_def)
  define w1 where "w1 = w\<lparr>fb_client := host_next (fb_client w), fb_pending := [(rs_cq st, ?wr)]\<rparr>"
  have p: "fab_post_send (rs_cm_id st) ?wr w = (0, w1)"
    using assms(1,2) by (simp add: fab_post_send_def Let_def link_ready_def quiet_def working_def w1_def)
  obtain t w2 where t: "on_client host_now w1 = (t, w2)" by (rule prod.exhaust)
  note T = now_law [OF t]
  have "working w1" using assms(1) by (simp add: working_def w1_def)
  then have "working w2" using working_now [OF t] by simp
  moreover have "fb_pending w2 = [(rs_cq st, ?wr)]" "fb_cqes w2 = []"
    using T assms(2) by (simp_all add: w1_def link_ready_def quiet_def)
  moreover have "wr_allowed ?wr w2"
    using assms(3) T(1) by (simp add: page_allowed_wr page_allowed_def fab_frame_def w1_def)
  ultimately obtain w' where "poll_completion fabric_verbs (rs_cq st) is_write t w2 = Some (Ok (), w')" "working w'"
    using poll_working by blast
  then show ?thesis unfolding rdma_transfer_def wr by (simp add: p t)
qed

lemma store_working:
  assumes "working w" and "rb_state b = Some st" and "link_ready st w" and "page_allowed st (ph_offset h) w"
  shows "\<exists>b' w'. rb_store_page fabric_verbs b h d w = (Ok (), b', w') \<and> working w'"
proof -
  obtain t w1 where t: "on_client host_now w = (t, w1)" by (rule prod.exhaust)
  note T = now_law [OF t]
  let ?w1 = "w1\<lparr>fb_client := (fb_client w1)\<lparr>ho_mem := mem_put (rs_local_buf st) d (client_mem w1)\<rparr>\<rparr>"
  have "working ?w1" "link_ready st ?w1" "page_allowed st (ph_offset h) ?w1"
    using working_now [OF t assms(1)] T assms(3,4)
    by (simp_all add: working_def link_ready_def quiet_def fab_frame_def page_allowed_def)
  from transfer_working [OF this] obtain w2 where
    tr: "rdma_transfer fabric_verbs st 0 (ph_offset h * of_nat PAGE_SIZE) (of_nat PAGE_SIZE) True ?w1 = Some (Ok (), w2)"
    and w2: "working w2" by blast
  obtain t' w3 where t': "on_client host_now w2 = (t', w3)" by (rule prod.exhaust)
  show ?thesis using working_now [OF t' w2] by (simp add: rb_store_page_def t assms(2) tr t')
qed

lemma load_working:
  assumes "working w" and "rb_state b = Some st" and "link_ready st w" and "page_allowed st (ph_offset h) w"
  shows "\<exists>p b' w'. rb_load_page fabric_verbs b h w = (Ok p, b', w') \<and> working w'"
proof -
  obtain t w1 where t: "on_client host_now w = (t, w1)" by (rule prod.exhaust)
  note T = now_law [OF t]
  have "working w1" "link_ready st w1" "page_allowed st (ph_offset h) w1"
    using working_now [OF t assms(1)] T assms(3,4) by (simp_all add: link_ready_def quiet_def fab_frame_def page_allowed_def)
  from transfer_working [OF this] obtain w2 where
    tr: "rdma_transfer fabric_verbs st 0 (ph_offset h * of_nat PAGE_SIZE) (of_nat PAGE_SIZE) False w1 = Some (Ok (), w2)"
    and w2: "working w2" by blast
  obtain t' w3 where t': "on_client host_now w2 = (t', w3)" by (rule prod.exhaust)
  show ?thesis using working_now [OF t' w2] by (simp add: rb_load_page_def t assms(2) tr t')
qed

end
