(* ===== verification/Rdma_System.thy ===== *)
theory Rdma_System
  imports Rdma_Fabric
begin

text \<open>
  Properties of the RDMA client and server over the fabric, and the runs that show what goes wrong when
  pages are freed, when a client believes it has more pages than its slab, and when a transfer times out.
\<close>

section \<open>Termination\<close>

abbreviation client_ticks :: "fabric \<Rightarrow> bool" where
  "client_ticks w \<equiv> (\<forall>k. 0 < ho_tick (fb_client w) k)"

lemma poll_keeps_clock:
  assumes "fab_poll_cq cq w = (y, w')"
  shows "ho_tick (fb_client w') = ho_tick (fb_client w)" and "ho_time (fb_client w') = ho_time (fb_client w)"
proof -
  have "ho_tick (fb_client (nic_step w)) = ho_tick (fb_client w) \<and> ho_time (fb_client (nic_step w)) = ho_time (fb_client w)"
    by (auto simp: nic_step_def carry_out_def Let_def split: list.splits nic_fate.splits)
  then show "ho_tick (fb_client w') = ho_tick (fb_client w)" "ho_time (fb_client w') = ho_time (fb_client w)"
    using assms by (auto simp: fab_poll_cq_def Let_def split: option.splits)
qed

lemma poll_completion_returns:
  assumes "client_ticks w"
  shows "\<exists>y. poll_completion fabric_verbs cq is_write start w = Some y"
  using assms
proof (induction "start + 5 * 1000000000 + 1 - ho_time (fb_client w)" arbitrary: w rule: less_induct)
  case less
  obtain n s w1 where p: "fab_poll_cq cq w = ((n, s), w1)" by (metis surj_pair)
  note P = poll_keeps_clock [OF p]
  obtain t w2 where t: "on_client host_now w1 = (t, w2)" by (rule prod.exhaust)
  note T = now_law(8-10) [OF t]
  show ?case
  proof (cases "n = 0 \<and> t - start \<le> 5 * 1000000000")
    case True
    have "0 < ho_tick (fb_client w) (ho_step (fb_client w1))" using less.prems by simp
    then have "ho_time (fb_client w) < ho_time (fb_client w2)" using P T by simp
    moreover have "ho_time (fb_client w) < start + 5 * 1000000000 + 1" using True P(2) T(1) by (simp add: le_diff_conv)
    ultimately have "start + 5 * 1000000000 + 1 - ho_time (fb_client w2) < start + 5 * 1000000000 + 1 - ho_time (fb_client w)"
      by (rule diff_less_mono2)
    moreover have "client_ticks w2" using less.prems P T by simp
    ultimately obtain y where "poll_completion fabric_verbs cq is_write start w2 = Some y" using less.hyps by blast
    then show ?thesis using True p t by (simp add: poll_completion.simps [of _ _ _ _ w])
  next
    case False
    then show ?thesis using p t by (auto simp: poll_completion.simps [of _ _ _ _ w])
  qed
qed

lemma poll_completion_not_Panic:
  assumes "poll_completion V cq is_write start w = Some y"
  shows "fst y \<noteq> Panic"
proof (induction V cq is_write start w y rule: poll_completion.raw_induct)
  case (1 poll V cq is_write start w y)
  then show ?case by (auto split: prod.splits if_splits)
qed (rule assms)

lemma transfer_returns:
  assumes "client_ticks w"
  shows "\<exists>r w'. rdma_transfer fabric_verbs st lo ro n is_write w = Some (r, w') \<and> r \<noteq> Panic"
proof -
  let ?wr = "\<lparr>wr_opcode = (if is_write then IBV_WR_RDMA_WRITE else IBV_WR_RDMA_READ),
      wr_local_addr = rs_local_buf st + lo, wr_length = ucast n, wr_lkey = mr_lkey (rs_local_mr st),
      wr_remote_addr = rs_remote_addr st + ro, wr_rkey = rs_remote_rkey st\<rparr>"
  obtain ret w1 where p: "fab_post_send (rs_cm_id st) ?wr w = (ret, w1)" by (rule prod.exhaust)
  obtain t w2 where t: "on_client host_now w1 = (t, w2)" by (rule prod.exhaust)
  have "ho_tick (fb_client w1) = ho_tick (fb_client w)"
    using p by (auto simp: fab_post_send_def Let_def split: option.splits if_splits)
  then have "client_ticks w2" using assms now_law(9) [OF t] by simp
  then obtain y where y: "poll_completion fabric_verbs (rs_cq st) is_write t w2 = Some y"
    using poll_completion_returns by blast
  with poll_completion_not_Panic [OF y] p t show ?thesis
    by (cases y) (auto simp: rdma_transfer_def)
qed

text \<open>
  C20: a store or a load over RDMA always comes back, whatever the card does, when the clock advances
  with every reading: the polling loop gives up after five seconds.
\<close>

theorem rdma_calls_return:
  assumes "client_ticks w"
  shows "fst (rb_store_page fabric_verbs b h d w) \<noteq> Panic \<and> fst (rb_load_page fabric_verbs b h w) \<noteq> Panic"
proof -
  obtain t w1 where t: "on_client host_now w = (t, w1)" by (rule prod.exhaust)
  have ticks: "client_ticks w1" using assms now_law(9) [OF t] by simp
  show ?thesis
  proof (cases "rb_state b")
    case None
    then show ?thesis by (simp add: rb_store_page_def rb_load_page_def t)
  next
    case (Some st)
    let ?w1 = "w1\<lparr>fb_client := (fb_client w1)\<lparr>ho_mem := mem_put (rs_local_buf st) d (client_mem w1)\<rparr>\<rparr>"
    have "client_ticks ?w1" using ticks by simp
    then obtain r v where s: "rdma_transfer fabric_verbs st 0 (ph_offset h * of_nat PAGE_SIZE) (of_nat PAGE_SIZE) True ?w1 =
        Some (r, v)" "r \<noteq> Panic" using transfer_returns by blast
    obtain r' v' where l: "rdma_transfer fabric_verbs st 0 (ph_offset h * of_nat PAGE_SIZE) (of_nat PAGE_SIZE) False w1 =
        Some (r', v')" "r' \<noteq> Panic" using transfer_returns [OF ticks] by blast
    show ?thesis using s l Some
      by (cases r; cases r') (auto simp: rb_store_page_def rb_load_page_def t split: prod.splits)
  qed
qed

section \<open>Pages\<close>

text \<open>
  C12: a page stored over RDMA is the page a later load returns, and the other pages of the slab are
  what they were, whatever calls fail and however long the card takes, as long as no earlier
  transfer is still outstanding when the store begins.
\<close>

theorem rdma_store_load:
  assumes "rb_state b = Some st" and "link_ready st w" and "slab_of_pages st n" and "is_page d"
    and "unat (ph_offset h) < n" and "unat (ph_offset h') < n"
    and "rb_store_page fabric_verbs b h d w = (Ok (), b1, w1)"
    and "rb_load_page fabric_verbs b1 h' w1 = (Ok p, b2, w2)"
  shows "p = (if ph_offset h' = ph_offset h then d else remote_page st w (ph_offset h'))"
proof -
  note S = store_Ok_law [OF assms(7,1,2,4)]
  have p: "p = remote_page st w1 (ph_offset h')" by (rule load_Ok_law(5) [OF assms(8) S(1,2)])
  have d: "length d = PAGE_SIZE" using assms(4) by (simp add: is_page_def)
  show ?thesis
  proof (cases "ph_offset h' = ph_offset h")
    case True
    then show ?thesis using p S(4) d by (simp add: remote_page_def mem_get_put PAGE_SIZE_def)
  next
    case False
    then have "ranges_apart (rs_remote_addr st + ph_offset h * of_nat PAGE_SIZE) (length d)
        (rs_remote_addr st + ph_offset h' * of_nat PAGE_SIZE) PAGE_SIZE"
      using pages_apart [OF assms(3,5,6)] d by simp
    then show ?thesis using False p S(4) by (simp add: remote_page_def mem_get_put_apart)
  qed
qed

text \<open>
  Freeing a page makes the next allocation return the handle of the page allocated last, which is
  still in use: the page stored under the new handle is what a load of the old one returns.
\<close>

theorem rdma_free_aliases:
  assumes "rb_state b = Some st" and "link_ready st w"
    and "rb_alloc_page b w = (Ok h1, b1, w)" and "rb_alloc_page b1 w = (Ok h2, b2, w)"
    and "is_page d" and "rb_store_page fabric_verbs b2 h2 d w = (Ok (), b3, w3)"
    and "rb_free_page b3 h1 w3 = (Ok (), b4, w3)" and "rb_alloc_page b4 w3 = (Ok h3, b5, w3)"
    and "is_page c" and "rb_store_page fabric_verbs b5 h3 c w3 = (Ok (), b6, w6)"
    and "rb_load_page fabric_verbs b6 h2 w6 = (Ok p, b7, w7)"
  shows "h1 \<noteq> h2 \<and> h3 = h2 \<and> p = c"
proof -
  have b1: "b1 = b\<lparr>rb_pages_used := rb_pages_used b + 1\<rparr>" and h1: "ph_new (rb_backend_id b) (rb_pages_used b) = Ok h1"
    using assms(3) by (auto simp: rb_alloc_page_def split: if_splits)
  have b2: "b2 = b1\<lparr>rb_pages_used := rb_pages_used b1 + 1\<rparr>" and h2: "ph_new (rb_backend_id b1) (rb_pages_used b1) = Ok h2"
    using assms(4) by (auto simp: rb_alloc_page_def split: if_splits)
  have st2: "rb_state b2 = Some st" using b1 b2 assms(1) by simp
  note S = store_Ok_law [OF assms(6) st2 assms(2,5)]
  have b3: "rb_pages_used b3 = rb_pages_used b2" "rb_backend_id b3 = rb_backend_id b2"
    using assms(6) by (auto simp: rb_store_page_def split: prod.splits option.splits res.splits)
  have b4: "b4 = b3\<lparr>rb_pages_used := rb_pages_used b3 - 1\<rparr>" using assms(7) by (simp add: rb_free_page_def)
  have b5: "b5 = b4\<lparr>rb_pages_used := rb_pages_used b4 + 1\<rparr>" and h3: "ph_new (rb_backend_id b4) (rb_pages_used b4) = Ok h3"
    using assms(8) by (auto simp: rb_alloc_page_def split: if_splits)
  have st5: "rb_state b5 = Some st" using b4 b5 S(1) by simp
  note S' = store_Ok_law [OF assms(10) st5 S(2) assms(9)]
  have "rb_pages_used b4 = rb_pages_used b1" "rb_backend_id b4 = rb_backend_id b1" using b2 b3 b4 by simp_all
  then have "h3 = h2" using h2 h3 by simp
  moreover have "p = c"
    using load_Ok_law(5) [OF assms(11) S'(1,2)] S'(4) assms(9) \<open>h3 = h2\<close>
    by (simp add: remote_page_def mem_get_put is_page_def PAGE_SIZE_def)
  moreover have "h1 \<noteq> h2" using h1 h2 b1 by (auto simp: ph_new_Ok_iff)
  ultimately show ?thesis by blast
qed

text \<open>
  C32: a client allocates pages up to its own configured maximum, not up to the size of the slab the
  server told it: the first page beyond the slab is the first page of the next client, which then
  loads the other client's bytes.
\<close>

theorem rdma_slab_overflow:
  assumes "rb_state a = Some sta" and "rb_state b = Some stb" and "link_ready sta w" and "link_ready stb w"
    and "rs_remote_size sta = rb_pages_used a * of_nat PAGE_SIZE"
    and "rs_remote_addr stb = rs_remote_addr sta + rs_remote_size sta"
    and "rb_pages_used a < rb_max_pages a" and "rb_alloc_page a w = (Ok h, a1, w)" and "is_page d"
    and "rb_store_page fabric_verbs a1 h d w = (Ok (), a2, w2)"
    and "ph_offset g = 0" and "rb_load_page fabric_verbs b g w2 = (Ok p, b3, w3)"
  shows "p = d"
proof -
  have a1: "rb_state a1 = Some sta" and h: "ph_offset h = rb_pages_used a"
    using assms(1,8) by (auto simp: rb_alloc_page_def ph_new_Ok_iff split: if_splits)
  note S = store_Ok_law [OF assms(10) a1 assms(3,9)]
  have "link_ready stb w2" using link_ready_frame [OF assms(4) S(3)] S(2) by (simp add: link_ready_def)
  from load_Ok_law(5) [OF assms(12,2) this] show ?thesis
    using S(4) h assms(5,6,9,11) by (simp add: remote_page_def mem_get_put is_page_def PAGE_SIZE_def)
qed

text \<open>A read that times out stays posted.\<close>

lemma load_timeout_law:
  assumes run: "rb_load_page fabric_verbs b h w = (Err (RdmaTimeout e), b', w')" and st: "rb_state b = Some st"
    and use: "link_ready st w"
  shows "b' = b" and "fab_frame w w'" and "server_mem w' = server_mem w"
    and "quiet w' \<or> fb_pending w' = [(rs_cq st, page_wr st (ph_offset h) False)] \<and> fb_cqes w' = []"
proof -
  obtain t w1 where t: "on_client host_now w = (t, w1)" by (rule prod.exhaust)
  note T = now_law [OF t]
  have tr: "rdma_transfer fabric_verbs st 0 (ph_offset h * of_nat PAGE_SIZE) (of_nat PAGE_SIZE) False w1 =
      Some (Err (RdmaTimeout e), w')" and b: "b' = b"
    using run st t by (auto simp: rb_load_page_def split: option.splits prod.splits res.splits)
  have use1: "link_ready st w1" using use T by (simp add: link_ready_def quiet_def fab_frame_def)
  note L = transfer_law [OF tr use1]
  show "b' = b" by (rule b)
  show "fab_frame w w'" using L T(1) fab_frame_trans by blast
  show "server_mem w' = server_mem w"
    and "quiet w' \<or> fb_pending w' = [(rs_cq st, page_wr st (ph_offset h) False)] \<and> fb_cqes w' = []"
    using L T by auto
qed

text \<open>
  C33: completions are not matched to requests: after a load that timed out, the next load takes the late
  completion for its own and returns the page of the earlier handle.
\<close>

theorem rdma_stale_completion:
  assumes "rb_state b = Some st" and "link_ready st w" and "page_allowed st (ph_offset h) w"
    and "rb_load_page fabric_verbs b h w = (Err (RdmaTimeout e), b1, w1)" and "\<not> quiet w1"
    and "\<forall>k. ho_fate (fb_client w1) k = Works" and "fb_nic w1 (fb_polls w1) = NicWork"
  shows "\<exists>b2 w2. rb_load_page fabric_verbs b1 h' w1 = (Ok (remote_page st w (ph_offset h)), b2, w2)"
proof -
  note L = load_timeout_law [OF assms(4,1,2)]
  let ?r = "page_wr st (ph_offset h) False" and ?r' = "page_wr st (ph_offset h') False"
  obtain t v where t: "on_client host_now w1 = (t, v)" by (rule prod.exhaust)
  note T = now_law [OF t]
  have Fv: "fab_frame w v" using L(2) T(1) fab_frame_trans by blast
  have pend: "fb_pending v = [(rs_cq st, ?r)]" "fb_cqes v = []" using L(4) assms(5) T by auto
  have wr: "\<lparr>wr_opcode = (if False then IBV_WR_RDMA_WRITE else IBV_WR_RDMA_READ),
      wr_local_addr = rs_local_buf st + 0, wr_length = ucast (of_nat PAGE_SIZE :: u64),
      wr_lkey = mr_lkey (rs_local_mr st), wr_remote_addr = rs_remote_addr st + ph_offset h' * of_nat PAGE_SIZE,
      wr_rkey = rs_remote_rkey st\<rparr> = ?r'"
    by (simp add: page_wr_def PAGE_SIZE_def)
  define v1 where "v1 = v\<lparr>fb_client := host_next (fb_client v), fb_pending := [(rs_cq st, ?r), (rs_cq st, ?r')]\<rparr>"
  have "ho_fate (fb_client v) = ho_fate (fb_client w1)" using t by (auto simp: on_client_def host_now_def)
  then have post: "fab_post_send (rs_cm_id st) ?r' v = (0, v1)"
    using assms(2,6) Fv pend by (simp add: fab_post_send_def Let_def link_ready_def fab_frame_def v1_def)
  obtain t' v2 where t': "on_client host_now v1 = (t', v2)" by (rule prod.exhaust)
  note T' = now_law [OF t']
  have F2: "fab_frame w v2" using Fv T'(1) by (simp add: fab_frame_def v1_def)
  let ?page = "mem_get (rs_remote_addr st + ph_offset h * of_nat PAGE_SIZE) PAGE_SIZE (server_mem v2)"
  define v3 where "v3 = v2\<lparr>fb_polls := Suc (fb_polls v2), fb_pending := [(rs_cq st, ?r')],
    fb_client := (fb_client v2)\<lparr>ho_mem := mem_put (rs_local_buf st) ?page (client_mem v2)\<rparr>\<rparr>"
  have "page_allowed st (ph_offset h) v2" using assms(3) page_allowed_frame [OF F2] by simp
  then have "nic_step v2 = v3\<lparr>fb_cqes := [(rs_cq st, IBV_WC_SUCCESS)]\<rparr>"
    using assms(7) T T' pend
    by (simp add: nic_step_def v1_def v3_def carry_out_def Let_def page_allowed_def verbs_consts)
  then have "fab_poll_cq (rs_cq st) v2 = ((1, IBV_WC_SUCCESS), v3\<lparr>fb_cqes := []\<rparr>)"
    by (simp add: fab_poll_cq_def)
  then have poll: "poll_completion fabric_verbs (rs_cq st) False t' v2 = Some (Ok (), v3\<lparr>fb_cqes := []\<rparr>)"
    by (simp add: poll_completion.simps [of _ _ _ _ v2])
  have tr: "rdma_transfer fabric_verbs st 0 (ph_offset h' * of_nat PAGE_SIZE) (of_nat PAGE_SIZE) False v =
      Some (Ok (), v3\<lparr>fb_cqes := []\<rparr>)"
    unfolding rdma_transfer_def wr by (simp add: post t' poll)
  have "server_mem v2 = server_mem w" using L(3) T T' by (simp add: v1_def)
  then have "mem_get (rs_local_buf st) PAGE_SIZE (client_mem (v3\<lparr>fb_cqes := []\<rparr>)) = remote_page st w (ph_offset h)"
    by (simp add: v3_def mem_get_put remote_page_def PAGE_SIZE_def)
  then show ?thesis using assms(1) L(1) by (simp add: rb_load_page_def t tr split: prod.split)
qed

section \<open>Two clients and a server\<close>

definition sample_host :: "nat \<Rightarrow> host" where
  "sample_host tick =
     \<lparr>ho_devices = 1, ho_live = [], ho_fresh = 1, ho_brk = 65536, ho_chan = [], ho_events = [],
      ho_regions = [], ho_accepted = [], ho_mem = (\<lambda>_. 0), ho_fate = (\<lambda>_. Works), ho_step = 0,
      ho_tick = (\<lambda>_. tick), ho_time = 0\<rparr>"

definition sample_fabric :: "nat \<Rightarrow> (nat \<Rightarrow> nic_fate) \<Rightarrow> fabric" where
  "sample_fabric tick nic =
     \<lparr>fb_client = sample_host tick, fb_server = sample_host tick, fb_srv = server_new 9201 8 4,
      fb_loop = server_loop_start, fb_peers = [], fb_pending = [], fb_cqes = [], fb_nic = nic,
      fb_polls = 0\<rparr>"

definition sample_addr :: string where
  "sample_addr = ''10.0.0.1:9201''"

definition sample_connect :: "u8 \<Rightarrow> fabric \<Rightarrow> unit res \<times> rdma_backend \<times> fabric" where
  "sample_connect i w = rb_init fabric_verbs (rb_new i sample_addr) \<lparr>bc_max_pages = 262144\<rparr> w"

lemma sample_addr_parts: "addr_ip sample_addr = Some [10, 0, 0, 1]" "addr_port sample_addr = 9201"
  by (simp_all add: sample_addr_def addr_ip_def addr_port_def parse_ipv4_def parse_octet_def parse_u16_def
      parse_nat_def char_digit_def)

lemmas fabric_run_defs = fabric_verbs_def host_verbs_def on_client_def host_acquire_def host_create_id_def
  push_event_def host_resolve_def host_poll_def host_get_cm_event_def host_mmap_def host_madvise_def
  host_reg_mr_def host_create_qp_def host_accept_def host_release_def fab_connect_def cm_request_def
  verbs_consts

lemmas connect_run_defs = rb_init_def rdma_available_def establish_def resolve_def expect_event_def
  wait_cm_event_def open_resources_def connect_peer_def server_event_def init_resources_def
  connect_request_def handle_connect_def HANDSHAKE_SIZE_eq length_handshake_bytes
  read_handshake_bytes [where rest = "[]", simplified]

text \<open>The connections of the first and the second client.\<close>

definition state_one :: rdma_state where
  "state_one =
     \<lparr>rs_event_channel = 1, rs_cm_id = 2, rs_pd = 3, rs_cq = 4,
      rs_local_mr = \<lparr>mr_ptr = 5, mr_lkey = 5, mr_rkey = 5\<rparr>, rs_local_buf = 65536, rs_local_buf_size = 4096,
      rs_remote_addr = 65536, rs_remote_rkey = 3, rs_remote_size = 16384\<rparr>"

definition state_two :: rdma_state where
  "state_two =
     \<lparr>rs_event_channel = 6, rs_cm_id = 7, rs_pd = 8, rs_cq = 9,
      rs_local_mr = \<lparr>mr_ptr = 10, mr_lkey = 10, mr_rkey = 10\<rparr>, rs_local_buf = 69632, rs_local_buf_size = 4096,
      rs_remote_addr = 81920, rs_remote_rkey = 3, rs_remote_size = 16384\<rparr>"

definition fabric_one :: "nat \<Rightarrow> (nat \<Rightarrow> nic_fate) \<Rightarrow> fabric" where
  "fabric_one tick nic =
     \<lparr>fb_client = (sample_host tick)\<lparr>ho_live := [Qp 2 3 4, Mr 5, Buffer 65536, Cq 4, Pd 3, CmId 2, EventChannel 1],
        ho_fresh := 6, ho_brk := 69632, ho_chan := [(2, 1)], ho_regions := [(5, 5, 65536, 4096)], ho_step := 16\<rparr>,
      fb_server = (sample_host tick)\<lparr>ho_live := [Qp 1 2 4, Cq 4, Mr 3, Buffer 65536, Pd 2, CmId 1],
        ho_fresh := 5, ho_brk := 98304, ho_regions := [(3, 3, 65536, 32768)],
        ho_accepted := [(1, handshake_bytes \<lparr>hs_rkey = 3, hs_pad = 0, hs_addr = 65536, hs_size = 16384\<rparr>)],
        ho_step := 7\<rparr>,
      fb_srv = server_new 9201 8 4,
      fb_loop = \<lparr>sl_resources = Some \<lparr>sr_pd = 2, sr_mr = \<lparr>mr_ptr = 3, mr_lkey = 3, mr_rkey = 3\<rparr>, sr_buf = 65536,
          sr_buf_size = 32768, sr_rkey = 3\<rparr>, sl_next_client_offset = 4, sl_conn_cqs = [(1, 4)],
        sl_conn_slabs = [(1, 65536, 16384)]\<rparr>,
      fb_peers = [(2, 1)], fb_pending = [], fb_cqes = [], fb_nic = nic, fb_polls = 0\<rparr>"

lemma connect_one:
  "sample_connect i (sample_fabric tick nic) =
     (Ok (), (rb_new i sample_addr)\<lparr>rb_max_pages := 262144, rb_state := Some state_one\<rparr>, fabric_one tick nic)"
  by (simp add: sample_connect_def connect_run_defs fabric_run_defs sample_fabric_def sample_host_def rb_new_def
      sample_addr_parts server_new_def server_loop_start_def PAGE_SIZE_def Let_def fabric_one_def state_one_def)

definition fabric_two :: "nat \<Rightarrow> (nat \<Rightarrow> nic_fate) \<Rightarrow> fabric" where
  "fabric_two tick nic =
     \<lparr>fb_client = (sample_host tick)\<lparr>ho_live := [Qp 7 8 9, Mr 10, Buffer 69632, Cq 9, Pd 8, CmId 7, EventChannel 6,
          Qp 2 3 4, Mr 5, Buffer 65536, Cq 4, Pd 3, CmId 2, EventChannel 1],
        ho_fresh := 11, ho_brk := 73728, ho_chan := [(2, 1), (7, 6)],
        ho_regions := [(10, 10, 69632, 4096), (5, 5, 65536, 4096)], ho_step := 32\<rparr>,
      fb_server = (sample_host tick)\<lparr>ho_live := [Qp 5 2 6, Cq 6, CmId 5, Qp 1 2 4, Cq 4, Mr 3, Buffer 65536, Pd 2, CmId 1],
        ho_fresh := 7, ho_brk := 98304, ho_regions := [(3, 3, 65536, 32768)],
        ho_accepted := [(1, handshake_bytes \<lparr>hs_rkey = 3, hs_pad = 0, hs_addr = 65536, hs_size = 16384\<rparr>),
          (5, handshake_bytes \<lparr>hs_rkey = 3, hs_pad = 0, hs_addr = 81920, hs_size = 16384\<rparr>)],
        ho_step := 11\<rparr>,
      fb_srv = server_new 9201 8 4,
      fb_loop = \<lparr>sl_resources = Some \<lparr>sr_pd = 2, sr_mr = \<lparr>mr_ptr = 3, mr_lkey = 3, mr_rkey = 3\<rparr>, sr_buf = 65536,
          sr_buf_size = 32768, sr_rkey = 3\<rparr>, sl_next_client_offset = 8, sl_conn_cqs = [(1, 4), (5, 6)],
        sl_conn_slabs = [(1, 65536, 16384), (5, 81920, 16384)]\<rparr>,
      fb_peers = [(2, 1), (7, 5)], fb_pending = [], fb_cqes = [], fb_nic = nic, fb_polls = 0\<rparr>"

lemma connect_two:
  "sample_connect i (fabric_one tick nic) =
     (Ok (), (rb_new i sample_addr)\<lparr>rb_max_pages := 262144, rb_state := Some state_two\<rparr>, fabric_two tick nic)"
  by (simp add: sample_connect_def connect_run_defs fabric_run_defs sample_host_def rb_new_def
      sample_addr_parts server_new_def PAGE_SIZE_def Let_def fabric_one_def state_two_def fabric_two_def)

definition backend_one :: rdma_backend where
  "backend_one = (rb_new 2 sample_addr)\<lparr>rb_max_pages := 262144, rb_state := Some state_one\<rparr>"

definition backend_two :: rdma_backend where
  "backend_two = (rb_new 3 sample_addr)\<lparr>rb_max_pages := 262144, rb_state := Some state_two\<rparr>"

lemma backend_states [simp]: "rb_state backend_one = Some state_one" "rb_state backend_two = Some state_two"
  by (simp_all add: backend_one_def backend_two_def)

lemma sample_ready:
  "link_ready state_one (fabric_one tick nic)" "link_ready state_one (fabric_two tick nic)" "link_ready state_two (fabric_two tick nic)"
  by (simp_all add: link_ready_def quiet_def fabric_one_def fabric_two_def state_one_def state_two_def)

lemma sample_allowed:
  "x \<in> {0, 1, 2, 3, 4} \<Longrightarrow> page_allowed state_one x (fabric_one tick nic)"
  "x \<in> {0, 1, 2, 3, 4} \<Longrightarrow> page_allowed state_one x (fabric_two tick nic)"
  "page_allowed state_two 0 (fabric_two tick nic)"
  by (auto simp: page_allowed_def access_ok_def fabric_one_def fabric_two_def state_one_def state_two_def PAGE_SIZE_def)

lemma sample_working: "working (fabric_one tick (\<lambda>_. NicWork))" "working (fabric_two tick (\<lambda>_. NicWork))"
  by (simp_all add: working_def fabric_one_def fabric_two_def sample_host_def)

lemma sample_slab: "slab_of_pages state_one 4"
  by (simp add: slab_of_pages_def state_one_def PAGE_SIZE_def)

lemma ph_offset_small: "x < push_bit 56 1 \<Longrightarrow> ph_offset (PageHandle x) = x"
  unfolding ph_offset_def offset_mask by (simp add: less_mask_eq)

text \<open>A store and a load on a working fabric.\<close>

lemma store_load_working:
  assumes "working w" and "rb_state b = Some st" and "link_ready st w" and "page_allowed st (ph_offset h) w"
    and "page_allowed st (ph_offset g) w" and "is_page d"
  obtains b1 w1 p b2 w2 where "rb_store_page fabric_verbs b h d w = (Ok (), b1, w1)" "working w1"
    "rb_load_page fabric_verbs b1 g w1 = (Ok p, b2, w2)" "working w2"
proof -
  obtain b1 w1 where s: "rb_store_page fabric_verbs b h d w = (Ok (), b1, w1)" "working w1"
    using store_working [OF assms(1-4)] by blast
  note S = store_Ok_law [OF s(1) assms(2,3,6)]
  have "page_allowed st (ph_offset g) w1" using assms(5) page_allowed_frame [OF S(3)] by simp
  from load_working [OF s(2) S(1,2) this] show thesis using s that by blast
qed

theorem rdma_store_load_witness:
  "\<exists>b1 w1 b2 w2. rb_store_page fabric_verbs backend_one (PageHandle 1) (replicate 4096 7) (fabric_one 1 (\<lambda>_. NicWork)) =
       (Ok (), b1, w1) \<and>
     rb_load_page fabric_verbs b1 (PageHandle 1) w1 = (Ok (replicate 4096 7), b2, w2)"
proof -
  have o: "ph_offset (PageHandle 1) = 1" by (rule ph_offset_small) simp
  then have "page_allowed state_one (ph_offset (PageHandle 1)) (fabric_one 1 (\<lambda>_. NicWork))" using sample_allowed(1) by simp
  from store_load_working [OF sample_working(1) backend_states(1) sample_ready(1) this this is_page_replicate]
  obtain b1 w1 p b2 w2 where
    s: "rb_store_page fabric_verbs backend_one (PageHandle 1) (replicate 4096 7) (fabric_one 1 (\<lambda>_. NicWork)) = (Ok (), b1, w1)"
    and l: "rb_load_page fabric_verbs b1 (PageHandle 1) w1 = (Ok p, b2, w2)" by metis
  have "p = replicate 4096 7"
    using rdma_store_load [OF backend_states(1) sample_ready(1) sample_slab is_page_replicate _ _ s l] o by simp
  then show ?thesis using s l by blast
qed

theorem rdma_calls_return_witness:
  "fst (rb_store_page fabric_verbs backend_one (PageHandle 1) (replicate 4096 7) (fabric_one 1 (\<lambda>_. NicIdle))) \<noteq> Panic"
  using rdma_calls_return [of "fabric_one 1 (\<lambda>_. NicIdle)"] by (simp add: fabric_one_def sample_host_def)

theorem rdma_slab_overflow_witness:
  "\<exists>a1 h a2 w2 b3 w3.
     rb_alloc_page (backend_one\<lparr>rb_pages_used := 4\<rparr>) (fabric_two 1 (\<lambda>_. NicWork)) = (Ok h, a1, fabric_two 1 (\<lambda>_. NicWork)) \<and>
     rb_store_page fabric_verbs a1 h (replicate 4096 7) (fabric_two 1 (\<lambda>_. NicWork)) = (Ok (), a2, w2) \<and>
     rb_load_page fabric_verbs backend_two (PageHandle 0) w2 = (Ok (replicate 4096 7), b3, w3)"
proof -
  let ?a = "backend_one\<lparr>rb_pages_used := 4\<rparr>" and ?w = "fabric_two 1 (\<lambda>_. NicWork)"
  obtain h where h: "ph_new 2 4 = Ok h" "ph_offset h = 4" by (rule ph_new_cases [of 2 4]) auto
  define a1 where "a1 = ?a\<lparr>rb_pages_used := 5\<rparr>"
  have al: "rb_alloc_page ?a ?w = (Ok h, a1, ?w)" using h(1) by (simp add: rb_alloc_page_def a1_def backend_one_def rb_new_def)
  have st: "rb_state a1 = Some state_one" by (simp add: a1_def)
  have "page_allowed state_one (ph_offset h) ?w" using h(2) sample_allowed(2) by simp
  then obtain a2 w2 where s: "rb_store_page fabric_verbs a1 h (replicate 4096 7) ?w = (Ok (), a2, w2)" "working w2"
    using store_working [OF sample_working(2) st sample_ready(2)] by blast
  note S = store_Ok_law [OF s(1) st sample_ready(2) is_page_replicate]
  have o: "ph_offset (PageHandle 0) = 0" by (rule ph_offset_small) simp
  have "link_ready state_two w2" using link_ready_frame [OF sample_ready(3) S(3)] S(2) by (simp add: link_ready_def)
  moreover have "page_allowed state_two (ph_offset (PageHandle 0)) w2"
    using page_allowed_frame [OF S(3)] sample_allowed(3) o by simp
  ultimately obtain p b3 w3 where l: "rb_load_page fabric_verbs backend_two (PageHandle 0) w2 = (Ok p, b3, w3)"
    using load_working [OF s(2) backend_states(2)] by blast
  have "p = replicate 4096 7"
    by (rule rdma_slab_overflow [OF _ backend_states(2) sample_ready(2,3) _ _ _ al is_page_replicate s(1) o l])
      (simp_all add: state_one_def state_two_def PAGE_SIZE_def backend_one_def rb_new_def)
  then show ?thesis using al s(1) l by blast
qed

lemma alloc_fresh_backend:
  assumes "rb_pages_used b < rb_max_pages b" and "rb_pages_used b < push_bit 56 1"
  obtains h where "rb_alloc_page b w = (Ok h, b\<lparr>rb_pages_used := rb_pages_used b + 1\<rparr>, w)"
    "ph_offset h = rb_pages_used b"
proof (rule ph_new_cases [of "rb_backend_id b" "rb_pages_used b"])
  fix h
  assume "ph_new (rb_backend_id b) (rb_pages_used b) = Ok h" "ph_offset h = rb_pages_used b"
  then show thesis using assms(1) by (intro that [of h]) (simp_all add: rb_alloc_page_def not_le)
qed (use assms(2) in simp)

theorem rdma_free_aliases_witness:
  "\<exists>h1 b1 h2 b2 b3 w3 b4 b5 b6 w6 b7 w7.
     rb_alloc_page backend_one (fabric_one 1 (\<lambda>_. NicWork)) = (Ok h1, b1, fabric_one 1 (\<lambda>_. NicWork)) \<and>
     rb_alloc_page b1 (fabric_one 1 (\<lambda>_. NicWork)) = (Ok h2, b2, fabric_one 1 (\<lambda>_. NicWork)) \<and> h1 \<noteq> h2 \<and>
     rb_store_page fabric_verbs b2 h2 (replicate 4096 7) (fabric_one 1 (\<lambda>_. NicWork)) = (Ok (), b3, w3) \<and>
     rb_free_page b3 h1 w3 = (Ok (), b4, w3) \<and> rb_alloc_page b4 w3 = (Ok h2, b5, w3) \<and>
     rb_store_page fabric_verbs b5 h2 (replicate 4096 9) w3 = (Ok (), b6, w6) \<and>
     rb_load_page fabric_verbs b6 h2 w6 = (Ok (replicate 4096 9), b7, w7)"
proof -
  let ?w = "fabric_one 1 (\<lambda>_. NicWork)"
  define b1 where "b1 = backend_one\<lparr>rb_pages_used := 1\<rparr>"
  define b2 where "b2 = backend_one\<lparr>rb_pages_used := 2\<rparr>"
  obtain h1 where a1: "rb_alloc_page backend_one ?w = (Ok h1, b1, ?w)"
    by (rule alloc_fresh_backend [of backend_one]) (auto simp: backend_one_def rb_new_def b1_def)
  obtain h2 where a2: "rb_alloc_page b1 ?w = (Ok h2, b2, ?w)" and o2: "ph_offset h2 = 1"
    by (rule alloc_fresh_backend [of b1 ?w]) (auto simp: backend_one_def rb_new_def b1_def b2_def)
  have st2: "rb_state b2 = Some state_one" by (simp add: b2_def)
  have "page_allowed state_one (ph_offset h2) ?w" using o2 sample_allowed(1) by simp
  then obtain b3 w3 where s: "rb_store_page fabric_verbs b2 h2 (replicate 4096 7) ?w = (Ok (), b3, w3)" "working w3"
    using store_working [OF sample_working(1) st2 sample_ready(1)] by blast
  note S = store_Ok_law [OF s(1) st2 sample_ready(1) is_page_replicate]
  have b3: "rb_pages_used b3 = 2" "rb_max_pages b3 = 262144"
    using s(1) by (auto simp: rb_store_page_def b2_def backend_one_def split: prod.splits option.splits res.splits)
  define b4 where "b4 = b3\<lparr>rb_pages_used := 1\<rparr>"
  have f: "rb_free_page b3 h1 w3 = (Ok (), b4, w3)" using b3 by (simp add: rb_free_page_def b4_def)
  obtain h3 b5 where a3: "rb_alloc_page b4 w3 = (Ok h3, b5, w3)" and o3: "ph_offset h3 = 1" and b5: "rb_state b5 = Some state_one"
    by (rule alloc_fresh_backend [of b4 w3]) (use b3 S(1) in \<open>auto simp: b4_def\<close>)
  have al: "page_allowed state_one (ph_offset h3) w3" "page_allowed state_one (ph_offset h2) w3"
    using page_allowed_frame [OF S(3)] o2 o3 sample_allowed(1) by simp_all
  from store_load_working [OF s(2) b5 S(2) al is_page_replicate] obtain b6 w6 p b7 w7 where
    s': "rb_store_page fabric_verbs b5 h3 (replicate 4096 9) w3 = (Ok (), b6, w6)"
    and l: "rb_load_page fabric_verbs b6 h2 w6 = (Ok p, b7, w7)" by metis
  have "h1 \<noteq> h2 \<and> h3 = h2 \<and> p = replicate 4096 9"
    by (rule rdma_free_aliases [OF backend_states(1) sample_ready(1) a1 a2 is_page_replicate s(1) f a3 is_page_replicate s' l])
  then show ?thesis using a1 a2 s(1) f a3 s' l by blast
qed

text \<open>A card that is slow once, and a clock that has passed five seconds by then.\<close>

definition slow_nic :: "nat \<Rightarrow> nic_fate" where
  "slow_nic k = (if k = 0 then NicIdle else NicWork)"

lemma slow_load:
  "\<exists>w1. rb_load_page fabric_verbs backend_one (PageHandle 0) (fabric_one 6000000000 slow_nic) =
      (Err (RdmaTimeout ''READ''), backend_one, w1) \<and> \<not> quiet w1 \<and>
    (\<forall>k. ho_fate (fb_client w1) k = Works) \<and> fb_nic w1 (fb_polls w1) = NicWork"
proof -
  have o: "ph_offset (PageHandle 0) = 0" by (rule ph_offset_small) simp
  have q: "\<not> quiet (w\<lparr>fb_pending := [x]\<rparr>)" for w x by (simp add: quiet_def)
  show ?thesis
    by (simp add: rb_load_page_def o on_client_def host_now_def rdma_transfer_def fab_post_send_def fabric_one_def
        state_one_def sample_host_def poll_completion.simps fab_poll_cq_def nic_step_def slow_nic_def
        rdma_name_def quiet_def Let_def)
qed

theorem rdma_stale_completion_witness:
  "\<exists>w1 b2 w2. rb_load_page fabric_verbs backend_one (PageHandle 0) (fabric_one 6000000000 slow_nic) =
      (Err (RdmaTimeout ''READ''), backend_one, w1) \<and>
    rb_load_page fabric_verbs backend_one (PageHandle 1) w1 =
      (Ok (remote_page state_one (fabric_one 6000000000 slow_nic) 0), b2, w2)"
proof -
  have o: "ph_offset (PageHandle 0) = 0" by (rule ph_offset_small) simp
  from slow_load obtain w1 where w1: "rb_load_page fabric_verbs backend_one (PageHandle 0) (fabric_one 6000000000 slow_nic) =
      (Err (RdmaTimeout ''READ''), backend_one, w1)" "\<not> quiet w1" "\<forall>k. ho_fate (fb_client w1) k = Works"
    "fb_nic w1 (fb_polls w1) = NicWork" by blast
  have "page_allowed state_one (ph_offset (PageHandle 0)) (fabric_one 6000000000 slow_nic)" using o sample_allowed(1) by simp
  from rdma_stale_completion [OF backend_states(1) sample_ready(1) this w1, of "PageHandle 1"] w1(1) o
  show ?thesis by auto
qed

section \<open>Slabs\<close>

lemma host_mmap_in_range: "mmap_in_range host_verbs"
  by (auto simp: mmap_in_range_def host_verbs_def host_mmap_def Let_def split: if_splits)

lemma sample_server_steps:
  "server_steps host_verbs (server_new 9201 8 4) server_loop_start 2 (fb_loop (fabric_two 1 (\<lambda>_. NicWork)))"
proof -
  let ?s1 = "snd (host_acquire CmId (sample_host 1))"
  let ?s2 = "snd (host_acquire CmId (fb_server (fabric_one 1 (\<lambda>_. NicWork))))"
  have e1: "\<exists>w. server_event host_verbs (server_new 9201 8 4) (cm_request 1 RDMA_CM_EVENT_CONNECT_REQUEST) server_loop_start ?s1 =
      (fb_loop (fabric_one 1 (\<lambda>_. NicWork)), w)"
    by (simp add: connect_run_defs fabric_run_defs sample_host_def server_new_def server_loop_start_def PAGE_SIZE_def
        Let_def fabric_one_def)
  have e2: "\<exists>w. server_event host_verbs (server_new 9201 8 4) (cm_request 5 RDMA_CM_EVENT_CONNECT_REQUEST)
      (fb_loop (fabric_one 1 (\<lambda>_. NicWork))) ?s2 = (fb_loop (fabric_two 1 (\<lambda>_. NicWork)), w)"
    by (simp add: connect_run_defs fabric_run_defs sample_host_def server_new_def PAGE_SIZE_def Let_def
        fabric_one_def fabric_two_def)
  from e1 e2 obtain w1 w2 where e: "server_event host_verbs (server_new 9201 8 4)
      (cm_request 1 RDMA_CM_EVENT_CONNECT_REQUEST) server_loop_start ?s1 = (fb_loop (fabric_one 1 (\<lambda>_. NicWork)), w1)"
    "server_event host_verbs (server_new 9201 8 4) (cm_request 5 RDMA_CM_EVENT_CONNECT_REQUEST)
      (fb_loop (fabric_one 1 (\<lambda>_. NicWork))) ?s2 = (fb_loop (fabric_two 1 (\<lambda>_. NicWork)), w2)" by blast
  from server_steps.event [OF server_steps.event [OF server_steps.start e(1)] e(2)] show ?thesis
    by (simp add: cm_request_def numeral_2_eq_2)
qed

theorem rdma_slabs_disjoint_witness:
  "\<exists>st res. server_steps host_verbs (server_new 9201 8 4) server_loop_start 2 st \<and> sl_resources st = Some res \<and>
     map_of (sl_conn_slabs st) 1 = Some (65536, 16384) \<and> map_of (sl_conn_slabs st) 5 = Some (81920, 16384) \<and>
     unat (sr_buf res) \<le> unat (65536 :: u64) \<and>
     unat (16384 :: u64) = unat (sv_pages_per_client (server_new 9201 8 4)) * PAGE_SIZE \<and>
     unat (65536 :: u64) + unat (16384 :: u64) \<le> unat (sr_buf res) + unat (sv_max_pages (server_new 9201 8 4)) * PAGE_SIZE \<and>
     (unat (65536 :: u64) + unat (16384 :: u64) \<le> unat (81920 :: u64) \<or>
      unat (81920 :: u64) + unat (16384 :: u64) \<le> unat (65536 :: u64))"
proof -
  let ?st = "fb_loop (fabric_two 1 (\<lambda>_. NicWork))"
  have "\<exists>res. sl_resources ?st = Some res" and s1: "map_of (sl_conn_slabs ?st) 1 = Some (65536, 16384)"
    and s2: "map_of (sl_conn_slabs ?st) 5 = Some (81920, 16384)" by (simp_all add: fabric_two_def)
  then obtain res where r: "sl_resources ?st = Some res" by blast
  have fits: "server_fits (server_new 9201 8 4)" and small: "2 * unat (sv_pages_per_client (server_new 9201 8 4)) < 2 ^ 64"
    by (simp_all add: server_fits_def server_new_def PAGE_SIZE_def)
  have ne: "(1 :: u64) \<noteq> 5" by simp
  from rdma_slabs_disjoint [OF host_mmap_in_range fits sample_server_steps small r s1 s2 ne]
    sample_server_steps r s1 s2 show ?thesis by blast
qed

theorem rdma_capacity_never_returns_witness:
  "\<exists>st'. server_steps host_verbs (server_new 9201 8 4) (fb_loop (fabric_two 1 (\<lambda>_. NicWork))) 1 st' \<and>
     map_of (sl_conn_slabs st') \<subseteq>\<^sub>m map_of (sl_conn_slabs (fb_loop (fabric_two 1 (\<lambda>_. NicWork))))"
proof -
  let ?srv = "server_new 9201 8 4" and ?st = "fb_loop (fabric_two 1 (\<lambda>_. NicWork))" and ?s = "fb_server (fabric_two 1 (\<lambda>_. NicWork))"
  obtain st1 s1 where e1: "server_event host_verbs ?srv (cm_request 1 RDMA_CM_EVENT_DISCONNECTED) ?st ?s = (st1, s1)"
    by (rule prod.exhaust)
  obtain st2 s2 where e2: "server_event host_verbs ?srv (cm_request 9 RDMA_CM_EVENT_CONNECT_REQUEST) st1 s1 = (st2, s2)"
    by (rule prod.exhaust)
  have steps: "server_steps host_verbs ?srv ?st 1 st2"
    using server_steps.event [OF server_steps.event [OF server_steps.start e1] e2] by (simp add: cm_request_def verbs_consts)
  have r: "sl_resources ?st = Some (the (sl_resources ?st))" by (simp add: fabric_two_def)
  have "map_of (sl_conn_slabs st2) \<subseteq>\<^sub>m map_of (sl_conn_slabs ?st)"
    by (rule rdma_capacity_never_returns [OF r steps]) (simp_all add: fabric_two_def server_new_def)
  then show ?thesis using steps by blast
qed

section \<open>Resources\<close>

text \<open>
  C34: an attempt to connect that succeeds holds exactly the resources of the new connection. One that
  fails leaves the backend as it was and gives everything back, with two exceptions: an address that is
  not a dotted one leaves the event channel and the identifier behind, and a failure after the queue pair
  was created leaves the queue pair behind, with its completion queue and protection domain, because the
  queue pair is never destroyed.
\<close>

theorem rdma_init_resources:
  assumes "rb_init fabric_verbs b cfg w = (r, b', w')" and "qp_closed (client_live w)" and "r \<noteq> Panic"
  shows "(r = Ok () \<and> (\<exists>st. rb_state b' = Some st \<and>
       client_live w' = client_live w \<union> {EventChannel (rs_event_channel st), CmId (rs_cm_id st), Pd (rs_pd st),
         Cq (rs_cq st), Buffer (rs_local_buf st), Mr (mr_ptr (rs_local_mr st)),
         Qp (rs_cm_id st) (rs_pd st) (rs_cq st)})) \<or>
     (\<not> is_ok r \<and> rb_state b' = rb_state b \<and>
       (client_live w' = client_live w \<or>
        (r = Err (BadIp (rb_addr b)) \<and> (\<exists>ec i. client_live w' = client_live w \<union> {CmId i, EventChannel ec})) \<or>
        (\<exists>i pd cq. client_live w' = client_live w \<union> {Qp i pd cq, Cq cq, Pd pd})))"
  by (rule fab.rb_init_live [OF assms])

theorem rdma_init_resources_witness:
  "\<exists>st. rb_state backend_one = Some st \<and>
     client_live (fabric_one 1 (\<lambda>_. NicWork)) = client_live (sample_fabric 1 (\<lambda>_. NicWork)) \<union>
       {EventChannel (rs_event_channel st), CmId (rs_cm_id st), Pd (rs_pd st), Cq (rs_cq st), Buffer (rs_local_buf st),
        Mr (mr_ptr (rs_local_mr st)), Qp (rs_cm_id st) (rs_pd st) (rs_cq st)}"
proof -
  have run: "rb_init fabric_verbs (rb_new 2 sample_addr) \<lparr>bc_max_pages = 262144\<rparr> (sample_fabric 1 (\<lambda>_. NicWork)) =
      (Ok (), backend_one, fabric_one 1 (\<lambda>_. NicWork))"
    using connect_one by (simp add: sample_connect_def backend_one_def)
  have "qp_closed (client_live (sample_fabric 1 (\<lambda>_. NicWork)))"
    by (simp add: qp_closed_def sample_fabric_def sample_host_def)
  from rdma_init_resources [OF run this] show ?thesis by auto
qed

text \<open>A host name in place of an address is such a failure.\<close>

lemma host_name_leaks:
  "\<exists>b' w'. rb_init fabric_verbs (rb_new 2 ''node2:9201'') \<lparr>bc_max_pages = 262144\<rparr> (sample_fabric 1 nic) =
     (Err (BadIp ''node2:9201''), b', w') \<and> ho_live (fb_client w') = [CmId 2, EventChannel 1]"
  by (simp add: connect_run_defs fabric_run_defs sample_fabric_def sample_host_def rb_new_def addr_ip_def
      parse_ipv4_def parse_octet_def char_digit_def Let_def)

end
