(* ===== verification/Rdma_Engine.thy ===== *)
theory Rdma_Engine
  imports Rdma_System Daemon
begin

text \<open>
  The engine on an RDMA backend: what the daemon's page operations do when their only backend is the
  RDMA client of the fabric.
\<close>

section \<open>An engine with one RDMA backend\<close>

abbreviation rdma_vt :: "lz4_codec \<Rightarrow> ('s, fabric) tcp_io \<Rightarrow> (('s, rdma_backend) dyn_backend, fabric) backend_vt" where
  "rdma_vt lz io \<equiv> dyn_vt lz io (rb_vt fabric_verbs)"

lemma rdma_vt_simps [simp]:
  "vt_alloc_page (rdma_vt lz io) (DynRdma b) w = lift_dyn DynRdma (rb_alloc_page b w)"
  "vt_free_page (rdma_vt lz io) (DynRdma b) h w = lift_dyn DynRdma (rb_free_page b h w)"
  "vt_store_page (rdma_vt lz io) (DynRdma b) h d w = lift_dyn DynRdma (rb_store_page fabric_verbs b h d w)"
  "vt_load_page (rdma_vt lz io) (DynRdma b) h w = lift_dyn DynRdma (rb_load_page fabric_verbs b h w)"
  "vt_capacity (rdma_vt lz io) (DynRdma b) = rb_capacity b"
  "vt_is_healthy (rdma_vt lz io) (DynRdma b) = rb_is_healthy b"
  "vt_tier (rdma_vt lz io) (DynRdma b) = Rdma"
  by (simp_all add: dyn_vt_def rb_vt_def Let_def)

text \<open>The engine's clock is that of the client host.\<close>

abbreviation client_now :: "fabric \<Rightarrow> instant \<times> fabric" where
  "client_now \<equiv> on_client host_now"

text \<open>The backend, the world and the pages of such an engine.\<close>

definition rdma_engine :: "u8 \<Rightarrow> rdma_state \<Rightarrow> u64 \<Rightarrow> u64 \<Rightarrow> (u64 \<rightharpoonup> u64) \<Rightarrow> ('s, rdma_backend) dyn_backend engine \<Rightarrow> fabric \<Rightarrow> bool" where
  "rdma_engine i st mx used pages e w \<longleftrightarrow>
     (\<exists>b. eng_backends e = [(i, DynRdma b)] \<and> rb_state b = Some st \<and> rb_backend_id b = i \<and> rb_max_pages b = mx \<and>
        rb_pages_used b = used) \<and>
     (\<forall>x. map_option (ph_offset \<circ> pm_handle) (map_of (pe_pages (eng_policy e)) x) = pages x) \<and>
     (\<forall>x m. map_of (pe_pages (eng_policy e)) x = Some m \<longrightarrow> pm_backend_id m = i) \<and>
     working w \<and> link_ready st w"

lemma rdma_engineE:
  assumes "rdma_engine i st mx used pages e w"
  obtains b where "eng_backends e = [(i, DynRdma b)]" "rb_state b = Some st" "rb_backend_id b = i" "rb_max_pages b = mx"
    "rb_pages_used b = used" "\<And>x. map_option (ph_offset \<circ> pm_handle) (map_of (pe_pages (eng_policy e)) x) = pages x"
    "\<And>x m. map_of (pe_pages (eng_policy e)) x = Some m \<Longrightarrow> pm_backend_id m = i" "working w" "link_ready st w"
  using assms by (auto simp: rdma_engine_def)

text \<open>Such an engine stores a new page on its backend.\<close>

lemma fresh_page_on_rdma:
  assumes "eng_backends e = [(i, DynRdma b)]" and "rb_state b = Some st" and "rb_pages_used b < rb_max_pages b"
    and "map_of (pe_pages (eng_policy e)) x = None" and "rb_alloc_page b w = (Ok h, b1, w)"
    and "rb_store_page fabric_verbs b1 h d w = (Ok (), b2, w2)" and "client_now w2 = (t, w3)"
  shows "store_page (rdma_vt lz io) client_now it e x d w =
    (Ok h, upd_stats inc_stored ((set_backend e i (DynRdma b2))\<lparr>eng_policy := record_store
       ((eng_policy e)\<lparr>pe_pages := AList.delete x (pe_pages (eng_policy e))\<rparr>) x h i Rdma t\<rparr>), w3)"
proof -
  let ?e1 = "e\<lparr>eng_policy := (eng_policy e)\<lparr>pe_pages := AList.delete x (pe_pages (eng_policy e))\<rparr>\<rparr>"
  have hl: "rb_is_healthy b" using assms(2) by (simp add: rb_is_healthy_def)
  have free: "free_old_page (rdma_vt lz io) e x w = (Ok (), ?e1, w)"
    using assms(4) by (simp add: free_old_page_def policy_remove_def)
  have tier: "choose_tier (rdma_vt lz io) it ?e1 w = (Ok Rdma, ?e1, w)"
    using assms(1,3) hl by (cases "pe_strategy (eng_policy e)")
      (simp add: choose_tier_def select_tier_def select_tier_lru_def tier_preference_def backend_capacities_def
        rb_capacity_def has_capacity_def)
  have cand: "tier_backend_candidates (rdma_vt lz io) ?e1 Rdma = [i]"
    using assms(1,3) hl by (simp add: tier_backend_candidates_def has_room_def rb_capacity_def)
  show ?thesis by (simp add: store_page_def free tier cand assms(1,5-7))
qed

lemma engine_store:
  assumes "rdma_engine i st mx used pages e w" and "pages x = None" and "used < mx" and "used < push_bit 56 1"
    and "page_allowed st used w" and "is_page d"
  shows "\<exists>h e' w'. store_page (rdma_vt lz io) client_now it e x d w = (Ok h, e', w') \<and>
    rdma_engine i st mx (used + 1) (pages(x \<mapsto> used)) e' w' \<and> fab_frame w w' \<and>
    server_mem w' = mem_put (rs_remote_addr st + used * of_nat PAGE_SIZE) d (server_mem w)"
proof -
  obtain b where b: "eng_backends e = [(i, DynRdma b)]" "rb_state b = Some st" "rb_backend_id b = i" "rb_max_pages b = mx"
      "rb_pages_used b = used"
    and pg: "\<And>x. map_option (ph_offset \<circ> pm_handle) (map_of (pe_pages (eng_policy e)) x) = pages x"
    and bk: "\<And>x m. map_of (pe_pages (eng_policy e)) x = Some m \<Longrightarrow> pm_backend_id m = i"
    and w: "working w" "link_ready st w"
    using rdma_engineE [OF assms(1)] by metis
  obtain h where h: "rb_alloc_page b w = (Ok h, b\<lparr>rb_pages_used := used + 1\<rparr>, w)" "ph_offset h = used"
    by (rule alloc_fresh_backend [of b w]) (use b assms(3,4) in auto)
  let ?b1 = "b\<lparr>rb_pages_used := used + 1\<rparr>"
  have st1: "rb_state ?b1 = Some st" using b by simp
  obtain b2 w2 where s: "rb_store_page fabric_verbs ?b1 h d w = (Ok (), b2, w2)" "working w2"
    using store_working [OF w(1) st1 w(2)] assms(5) h(2) by metis
  note S = store_Ok_law [OF s(1) st1 w(2) assms(6)]
  have b2: "rb_backend_id b2 = i" "rb_max_pages b2 = mx" "rb_pages_used b2 = used + 1"
    using s(1) b by (auto simp: rb_store_page_def split: prod.splits option.splits res.splits)
  obtain t w3 where t: "client_now w2 = (t, w3)" by (rule prod.exhaust)
  note T = now_law [OF t]
  have none: "map_of (pe_pages (eng_policy e)) x = None" using pg [of x] assms(2) by simp
  define e' where "e' = upd_stats inc_stored ((set_backend e i (DynRdma b2))\<lparr>eng_policy := record_store
       ((eng_policy e)\<lparr>pe_pages := AList.delete x (pe_pages (eng_policy e))\<rparr>) x h i Rdma t\<rparr>)"
  have run: "store_page (rdma_vt lz io) client_now it e x d w = (Ok h, e', w3)"
    unfolding e'_def by (rule fresh_page_on_rdma [OF b(1,2) _ none h(1) s(1) t]) (use b assms(3) in simp)
  have "working w3" by (rule working_now [OF t s(2)])
  moreover have "link_ready st w3" using link_ready_frame [OF S(2) T(1)] T S(2) by (simp add: link_ready_def quiet_def)
  moreover have "map_option (ph_offset \<circ> pm_handle) (map_of (pe_pages (eng_policy e')) y) = (pages(x \<mapsto> used)) y" for y
    using pg [of y] h(2) by (simp add: e'_def record_store_def)
  moreover have "pm_backend_id m = i" if "map_of (pe_pages (eng_policy e')) y = Some m" for y m
    using that bk [of y m] by (auto simp: e'_def record_store_def split: if_splits)
  ultimately have "rdma_engine i st mx (used + 1) (pages(x \<mapsto> used)) e' w3"
    unfolding rdma_engine_def using S(1) b2 b(1) by (simp add: e'_def)
  moreover have "fab_frame w w3" by (rule fab_frame_trans [OF S(3) T(1)])
  moreover have "server_mem w3 = mem_put (rs_remote_addr st + used * of_nat PAGE_SIZE) d (server_mem w)"
    using S(4) T h(2) by simp
  ultimately show ?thesis using run by blast
qed

lemma engine_invalidate:
  assumes "rdma_engine i st mx used pages e w" and "pages x = Some off"
  shows "\<exists>e'. invalidate_page (rdma_vt lz io) e x w = (Ok (), e', w) \<and>
    rdma_engine i st mx (used - 1) (pages(x := None)) e' w"
proof -
  obtain b where b: "eng_backends e = [(i, DynRdma b)]" "rb_state b = Some st" "rb_backend_id b = i" "rb_max_pages b = mx"
      "rb_pages_used b = used"
    and pg: "\<And>x. map_option (ph_offset \<circ> pm_handle) (map_of (pe_pages (eng_policy e)) x) = pages x"
    and bk: "\<And>x m. map_of (pe_pages (eng_policy e)) x = Some m \<Longrightarrow> pm_backend_id m = i"
    and w: "working w" "link_ready st w"
    using rdma_engineE [OF assms(1)] by metis
  obtain m where m: "map_of (pe_pages (eng_policy e)) x = Some m" using pg [of x] assms(2) by auto
  define e' where "e' = upd_stats inc_invalidated
    (set_backend (e\<lparr>eng_policy := (eng_policy e)\<lparr>pe_pages := AList.delete x (pe_pages (eng_policy e))\<rparr>\<rparr>) i
      (DynRdma (b\<lparr>rb_pages_used := used - 1\<rparr>)))"
  have "invalidate_page (rdma_vt lz io) e x w = (Ok (), e', w)"
    by (simp add: invalidate_page_def policy_remove_def m bk [OF m] b(1,5) rb_free_page_def e'_def)
  moreover have "pm_backend_id n = i" if "map_of (pe_pages (eng_policy e')) y = Some n" for y n
    using that bk [of y n] by (auto simp: e'_def split: if_splits)
  moreover have "map_option (ph_offset \<circ> pm_handle) (map_of (pe_pages (eng_policy e')) y) = (pages(x := None)) y" for y
    using pg [of y] by (simp add: e'_def)
  ultimately show ?thesis unfolding rdma_engine_def using b w by (simp add: e'_def)
qed

lemma engine_load:
  assumes "rdma_engine i st mx used pages e w" and "pages x = Some off" and "page_allowed st off w"
  shows "\<exists>e' w'. load_page (rdma_vt lz io) client_now e x w = (Ok (remote_page st w off), e', w')"
proof -
  obtain b where b: "eng_backends e = [(i, DynRdma b)]" "rb_state b = Some st"
    and pg: "\<And>x. map_option (ph_offset \<circ> pm_handle) (map_of (pe_pages (eng_policy e)) x) = pages x"
    and bk: "\<And>x m. map_of (pe_pages (eng_policy e)) x = Some m \<Longrightarrow> pm_backend_id m = i"
    and w: "working w" "link_ready st w"
    using rdma_engineE [OF assms(1)] by metis
  obtain m where m: "map_of (pe_pages (eng_policy e)) x = Some m" "ph_offset (pm_handle m) = off"
    using pg [of x] assms(2) by auto
  obtain p b' w' where l: "rb_load_page fabric_verbs b (pm_handle m) w = (Ok p, b', w')"
    using load_working [OF w(1) b(2) w(2)] assms(3) m(2) by blast
  have "p = remote_page st w off" using load_Ok_law(5) [OF l b(2) w(2)] m(2) by simp
  then show ?thesis by (simp add: load_page_def policy_lookup_def m(1) bk [OF m(1)] b(1) l split: prod.split)
qed

section \<open>A page served for another\<close>

text \<open>
  C31: an engine whose pages are on an RDMA backend stores two pages, invalidates the first and stores a
  third. Nothing fails, and the load of the second page then returns the bytes of the third: the
  backend hands out its count of pages in use as the offset of the next one.
\<close>

theorem engine_serves_wrong_page:
  assumes "rdma_engine i st mx 0 Map.empty e w" and "1 < mx" and "page_allowed st 0 w" and "page_allowed st 1 w"
    and "is_page da" and "is_page db" and "is_page dc" and "distinct [a, b, c]"
  shows "\<exists>h1 e1 w1 h2 e2 w2 e3 h4 e4 w4 e5 w5.
    store_page (rdma_vt lz io) client_now it e a da w = (Ok h1, e1, w1) \<and>
    store_page (rdma_vt lz io) client_now it e1 b db w1 = (Ok h2, e2, w2) \<and>
    invalidate_page (rdma_vt lz io) e2 a w2 = (Ok (), e3, w2) \<and>
    store_page (rdma_vt lz io) client_now it e3 c dc w2 = (Ok h4, e4, w4) \<and>
    load_page (rdma_vt lz io) client_now e4 b w4 = (Ok dc, e5, w5)"
proof -
  have "0 < mx" using assms(2) by (metis word_coorder.not_eq_extremum word_not_simps(1))
  from engine_store [OF assms(1) _ this _ assms(3,5), where x = a and lz = lz and io = io and it = it] obtain h1 e1 w1 where
    1: "store_page (rdma_vt lz io) client_now it e a da w = (Ok h1, e1, w1)" "rdma_engine i st mx 1 [a \<mapsto> 0] e1 w1" "fab_frame w w1"
    by auto
  have al1: "page_allowed st 1 w1" using page_allowed_frame [OF 1(3)] assms(4) by simp
  from engine_store [OF 1(2) _ assms(2) _ al1 assms(6), where x = b and lz = lz and io = io and it = it] assms(8) obtain h2 e2 w2 where
    2: "store_page (rdma_vt lz io) client_now it e1 b db w1 = (Ok h2, e2, w2)"
    "rdma_engine i st mx 2 [a \<mapsto> 0, b \<mapsto> 1] e2 w2" "fab_frame w1 w2"
    by auto
  from engine_invalidate [OF 2(2), where x = a and lz = lz and io = io] assms(8) obtain e3 where
    3: "invalidate_page (rdma_vt lz io) e2 a w2 = (Ok (), e3, w2)" "rdma_engine i st mx 1 ([a \<mapsto> 0, b \<mapsto> 1](a := None)) e3 w2"
    by auto
  have al2: "page_allowed st 1 w2" using page_allowed_frame [OF 2(3)] al1 by simp
  from engine_store [OF 3(2) _ assms(2) _ al2 assms(7), where x = c and lz = lz and io = io and it = it] assms(8) obtain h4 e4 w4 where
    4: "store_page (rdma_vt lz io) client_now it e3 c dc w2 = (Ok h4, e4, w4)"
    "rdma_engine i st mx 2 ([a \<mapsto> 0, b \<mapsto> 1](a := None, c \<mapsto> 1)) e4 w4" "fab_frame w2 w4"
    "server_mem w4 = mem_put (rs_remote_addr st + 1 * of_nat PAGE_SIZE) dc (server_mem w2)"
    by auto
  have "page_allowed st 1 w4" using page_allowed_frame [OF 4(3)] al2 by simp
  from engine_load [OF 4(2) _ this, where x = b and lz = lz and io = io] assms(8) obtain e5 w5 where
    "load_page (rdma_vt lz io) client_now e4 b w4 = (Ok (remote_page st w4 1), e5, w5)"
    by auto
  moreover have "remote_page st w4 1 = dc"
    using 4(4) assms(7) by (simp add: remote_page_def mem_get_put is_page_def PAGE_SIZE_def)
  ultimately show ?thesis using 1(1) 2(1) 3(1) 4(1) by metis
qed

text \<open>The daemon starts with one RDMA peer and no local backend.\<close>

definition rdma_only :: daemon_config where
  "rdma_only = default_config\<lparr>dc_backends :=
     \<lparr>bs_memory = None, bs_compress = None,
      bs_remote = Some \<lparr>rbc_enabled = True, rbc_transport = ''rdma'', rbc_peers = [sample_addr],
        rbc_max_pages_per_peer = 262144\<rparr>\<rparr>\<rparr>"

definition no_sockets :: "(unit, fabric) tcp_io" where
  "no_sockets = \<lparr>io_parse = (\<lambda>_. False), io_connect = (\<lambda>_ w. (None, w)), io_set_nodelay = (\<lambda>_ w. (False, w)),
     io_write_all = (\<lambda>_ _ w. (False, w)), io_flush = (\<lambda>_ w. (False, w)), io_read_exact = (\<lambda>_ _ w. (None, w)),
     io_now = client_now\<rparr>"

definition rdma_only_engine :: "(unit, rdma_backend) dyn_backend engine" where
  "rdma_only_engine = with_backends rdma_only
     [(0, DynRdma ((rb_new 0 sample_addr)\<lparr>rb_max_pages := 262144, rb_state := Some state_one\<rparr>))]"

lemma rdma_only_starts:
  "engine_new (rdma_vt lz no_sockets) rb_new True rdma_only (sample_fabric 1 (\<lambda>_. NicWork)) =
     (Ok rdma_only_engine, fabric_one 1 (\<lambda>_. NicWork))"
  using connect_one [of 0 1 "\<lambda>_. NicWork"]
  by (simp add: engine_new_def add_memory_def add_compress_def add_remote_def rdma_only_def add_peer_def use_rdma_def
      use_tcp_def try_add_def dyn_vt_def rb_vt_def Let_def sample_connect_def rdma_only_engine_def)

theorem engine_serves_wrong_page_witness:
  "\<exists>e w h1 e1 w1 h2 e2 w2 e3 h4 e4 w4 e5 w5.
    engine_new (rdma_vt plain_codec no_sockets) rb_new True rdma_only (sample_fabric 1 (\<lambda>_. NicWork)) = (Ok e, w) \<and>
    store_page (rdma_vt plain_codec no_sockets) client_now id e 10 (replicate 4096 1) w = (Ok h1, e1, w1) \<and>
    store_page (rdma_vt plain_codec no_sockets) client_now id e1 11 (replicate 4096 2) w1 = (Ok h2, e2, w2) \<and>
    invalidate_page (rdma_vt plain_codec no_sockets) e2 10 w2 = (Ok (), e3, w2) \<and>
    store_page (rdma_vt plain_codec no_sockets) client_now id e3 12 (replicate 4096 3) w2 = (Ok h4, e4, w4) \<and>
    load_page (rdma_vt plain_codec no_sockets) client_now e4 11 w4 = (Ok (replicate 4096 3), e5, w5)"
proof -
  have start: "rdma_engine 0 state_one 262144 0 Map.empty rdma_only_engine (fabric_one 1 (\<lambda>_. NicWork))"
    using sample_working(1) [of 1] sample_ready(1) [of 1 "\<lambda>_. NicWork"]
    by (simp add: rdma_engine_def rdma_only_engine_def with_backends_def policy_new_def rb_new_def)
  show ?thesis
    using rdma_only_starts [of plain_codec]
      engine_serves_wrong_page [OF start _ sample_allowed(1) sample_allowed(1) is_page_replicate [of 1]
        is_page_replicate [of 2] is_page_replicate [of 3], of 10 11 12 plain_codec no_sockets id]
    by (simp; blast)
qed

end
