(* ===== verification/Pool.thy ===== *)
theory Pool
  imports Daemon_Contract Raw_Memory "HOL-Library.Multiset"
begin

text \<open>
  The client library, \<^verbatim>\<open>crates/libduvm\<close>: the pool of \<^verbatim>\<open>pool.rs\<close> over a memory and a compression
  backend, and its C interface \<^verbatim>\<open>ffi.rs\<close>, which keeps one pool for the whole process.
\<close>

section \<open>The pool\<close>

type_synonym 'b pool = "(u8, 'b) hash_map"

text \<open>\<^verbatim>\<open>Pool::standalone\<close>; the two \<^verbatim>\<open>init\<close> calls are followed by \<^verbatim>\<open>?\<close>.\<close>

definition standalone ::
  "(('s, 'r) dyn_backend, 'w) backend_vt \<Rightarrow> 'w \<Rightarrow> (('s, 'r) dyn_backend pool) res \<times> 'w" where
  "standalone V w =
     (case vt_init V (DynMemory (mb_new 0)) default_backend_config w of
        (Err e, _, w1) \<Rightarrow> (Err e, w1)
      | (Panic, _, w1) \<Rightarrow> (Panic, w1)
      | (Ok u, mem, w1) \<Rightarrow>
          let backends = AList.update 0 mem [] in
          (case vt_init V (DynCompress (cb_new 1)) default_backend_config w1 of
             (Err e, _, w2) \<Rightarrow> (Err e, w2)
           | (Panic, _, w2) \<Rightarrow> (Panic, w2)
           | (Ok u', cmp, w2) \<Rightarrow> (Ok (AList.update 1 cmp backends), w2)))"

definition pool_store ::
  "('b, 'w) backend_vt \<Rightarrow> 'b pool \<Rightarrow> page \<Rightarrow> 'w \<Rightarrow> page_handle res \<times> 'b pool \<times> 'w" where
  "pool_store V p d w =
     (case (if map_of p 1 = None then 0 else 1) of i \<Rightarrow>
      (case map_of p i of
         None \<Rightarrow> (Err NoBackends, p, w)
       | Some b \<Rightarrow>
           (case vt_alloc_page V b w of
              (Err e, b1, w1) \<Rightarrow> (Err e, AList.update i b1 p, w1)
            | (Panic, b1, w1) \<Rightarrow> (Panic, AList.update i b1 p, w1)
            | (Ok h, b1, w1) \<Rightarrow>
                (case vt_store_page V b1 h d w1 of
                   (Ok u, b2, w2) \<Rightarrow> (Ok h, AList.update i b2 p, w2)
                 | (Err e, b2, w2) \<Rightarrow> (Err e, AList.update i b2 p, w2)
                 | (Panic, b2, w2) \<Rightarrow> (Panic, AList.update i b2 p, w2)))))"

definition pool_load ::
  "('b, 'w) backend_vt \<Rightarrow> 'b pool \<Rightarrow> page_handle \<Rightarrow> 'w \<Rightarrow> page res \<times> 'b pool \<times> 'w" where
  "pool_load V p h w =
     (case map_of p (ph_backend_id h) of
        None \<Rightarrow> (Err (BackendNotFound (ph_backend_id h)), p, w)
      | Some b \<Rightarrow>
          (case vt_load_page V b h w of (r, b', w') \<Rightarrow> (r, AList.update (ph_backend_id h) b' p, w')))"

definition pool_free ::
  "('b, 'w) backend_vt \<Rightarrow> 'b pool \<Rightarrow> page_handle \<Rightarrow> 'w \<Rightarrow> unit res \<times> 'b pool \<times> 'w" where
  "pool_free V p h w =
     (case map_of p (ph_backend_id h) of
        None \<Rightarrow> (Err (BackendNotFound (ph_backend_id h)), p, w)
      | Some b \<Rightarrow>
          (case vt_free_page V b h w of (r, b', w') \<Rightarrow> (r, AList.update (ph_backend_id h) b' p, w')))"

definition saturating_add :: "u64 \<Rightarrow> u64 \<Rightarrow> u64" where
  "saturating_add a b = (if a + b < a then - 1 else a + b)"

definition pool_capacity :: "('b, 'w) backend_vt \<Rightarrow> 'b pool \<Rightarrow> u64 \<times> u64" where
  "pool_capacity V p =
     fold (\<lambda>(_, b) (total, used). case vt_capacity V b of (t, u) \<Rightarrow> (saturating_add total t, saturating_add used u))
       p (0, 0)"

section \<open>The C interface\<close>

text \<open>
  The process a C program runs in: the \<^verbatim>\<open>OnceLock\<close> \<^verbatim>\<open>GLOBAL_POOL\<close> and the memory its pointers point
  into. A null pointer is address 0. A panic in an \<^verbatim>\<open>extern "C"\<close> function aborts the process.
\<close>

record 'b process =
  GLOBAL_POOL :: "'b pool option"
  pr_mem :: memory

definition duvm_init_ffi ::
  "(('s, 'r) dyn_backend, 'w) backend_vt \<Rightarrow> ('s, 'r) dyn_backend process \<Rightarrow> 'w
   \<Rightarrow> i32 res \<times> ('s, 'r) dyn_backend process \<times> 'w" where
  "duvm_init_ffi V s w =
     (case standalone V w of
        (Ok pool, w') \<Rightarrow>
          if GLOBAL_POOL s \<noteq> None then (Ok (- 1), s, w') else (Ok 0, s\<lparr>GLOBAL_POOL := Some pool\<rparr>, w')
      | (Err e, w') \<Rightarrow> (Ok (- 1), s, w')
      | (Panic, w') \<Rightarrow> (Panic, s, w'))"

definition duvm_store_page ::
  "('b, 'w) backend_vt \<Rightarrow> u64 \<Rightarrow> 'b process \<Rightarrow> 'w \<Rightarrow> u64 res \<times> 'b process \<times> 'w" where
  "duvm_store_page V data s w =
     (if data = 0 then (Ok (- 1), s, w)
      else
        (case GLOBAL_POOL s of
           None \<Rightarrow> (Ok (- 1), s, w)
         | Some pool \<Rightarrow>
             (case pool_store V pool (mem_get data PAGE_SIZE (pr_mem s)) w of
                (Ok handle, pool', w') \<Rightarrow> (Ok (ph_raw handle), s\<lparr>GLOBAL_POOL := Some pool'\<rparr>, w')
              | (Err e, pool', w') \<Rightarrow> (Ok (- 1), s\<lparr>GLOBAL_POOL := Some pool'\<rparr>, w')
              | (Panic, pool', w') \<Rightarrow> (Panic, s\<lparr>GLOBAL_POOL := Some pool'\<rparr>, w'))))"

definition duvm_load_page ::
  "('b, 'w) backend_vt \<Rightarrow> u64 \<Rightarrow> u64 \<Rightarrow> 'b process \<Rightarrow> 'w \<Rightarrow> i32 res \<times> 'b process \<times> 'w" where
  "duvm_load_page V handle buf s w =
     (if buf = 0 then (Ok (- 1), s, w)
      else
        (case GLOBAL_POOL s of
           None \<Rightarrow> (Ok (- 1), s, w)
         | Some pool \<Rightarrow>
             (case pool_load V pool (ph_from_raw handle) w of
                (Ok data, pool', w') \<Rightarrow>
                  (Ok 0, s\<lparr>GLOBAL_POOL := Some pool', pr_mem := mem_put buf data (pr_mem s)\<rparr>, w')
              | (Err e, pool', w') \<Rightarrow> (Ok (- 1), s\<lparr>GLOBAL_POOL := Some pool'\<rparr>, w')
              | (Panic, pool', w') \<Rightarrow> (Panic, s\<lparr>GLOBAL_POOL := Some pool'\<rparr>, w'))))"

definition duvm_free_page ::
  "('b, 'w) backend_vt \<Rightarrow> u64 \<Rightarrow> 'b process \<Rightarrow> 'w \<Rightarrow> i32 res \<times> 'b process \<times> 'w" where
  "duvm_free_page V handle s w =
     (case GLOBAL_POOL s of
        None \<Rightarrow> (Ok (- 1), s, w)
      | Some pool \<Rightarrow>
          (case pool_free V pool (ph_from_raw handle) w of
             (Ok u, pool', w') \<Rightarrow> (Ok 0, s\<lparr>GLOBAL_POOL := Some pool'\<rparr>, w')
           | (Err e, pool', w') \<Rightarrow> (Ok (- 1), s\<lparr>GLOBAL_POOL := Some pool'\<rparr>, w')
           | (Panic, pool', w') \<Rightarrow> (Panic, s\<lparr>GLOBAL_POOL := Some pool'\<rparr>, w')))"

definition duvm_capacity_total :: "('b, 'w) backend_vt \<Rightarrow> 'b process \<Rightarrow> u64" where
  "duvm_capacity_total V s = (case GLOBAL_POOL s of Some p \<Rightarrow> fst (pool_capacity V p) | None \<Rightarrow> 0)"

definition duvm_capacity_used :: "('b, 'w) backend_vt \<Rightarrow> 'b process \<Rightarrow> u64" where
  "duvm_capacity_used V s = (case GLOBAL_POOL s of Some p \<Rightarrow> snd (pool_capacity V p) | None \<Rightarrow> 0)"

text \<open>What a C program does: calls of the library, and writes to its own memory. \<open>None\<close> is an abort.\<close>

datatype c_step = CInit | CStore u64 | CLoad u64 u64 | CFree u64 | CWrite u64 u8

fun c_step_run ::
  "(('s, 'r) dyn_backend, 'w) backend_vt \<Rightarrow> c_step \<Rightarrow> ('s, 'r) dyn_backend process \<Rightarrow> 'w
   \<Rightarrow> (('s, 'r) dyn_backend process \<times> 'w) option" where
  "c_step_run V CInit s w = (case duvm_init_ffi V s w of (r, s', w') \<Rightarrow> if r = Panic then None else Some (s', w'))"
| "c_step_run V (CStore a) s w =
     (case duvm_store_page V a s w of (r, s', w') \<Rightarrow> if r = Panic then None else Some (s', w'))"
| "c_step_run V (CLoad h a) s w =
     (case duvm_load_page V h a s w of (r, s', w') \<Rightarrow> if r = Panic then None else Some (s', w'))"
| "c_step_run V (CFree h) s w =
     (case duvm_free_page V h s w of (r, s', w') \<Rightarrow> if r = Panic then None else Some (s', w'))"
| "c_step_run V (CWrite a v) s w = Some (s\<lparr>pr_mem := (pr_mem s)(a := v)\<rparr>, w)"

fun c_run ::
  "(('s, 'r) dyn_backend, 'w) backend_vt \<Rightarrow> c_step list \<Rightarrow> ('s, 'r) dyn_backend process \<Rightarrow> 'w
   \<Rightarrow> (('s, 'r) dyn_backend process \<times> 'w) option" where
  "c_run V [] s w = Some (s, w)"
| "c_run V (c # cs) s w = (case c_step_run V c s w of None \<Rightarrow> None | Some (s', w') \<Rightarrow> c_run V cs s' w')"

text \<open>The capacity does not depend on the order in which the hash map gives its backends.\<close>

lemma unat_saturating_add: "unat (saturating_add a b) = min (2 ^ 64 - 1) (unat a + unat b)"
proof (cases "unat a + unat b < 2 ^ 64")
  case True
  then have "unat (a + b) = unat a + unat b" using unat_add_small [of a b] by simp
  then show ?thesis using True by (simp add: saturating_add_def word_less_nat_alt)
next
  case False
  then have "unat (a + b) = unat a + unat b - 2 ^ 64"
    using unat_plus_if' [of a b] by simp
  moreover have "unat b < 2 ^ 64" using unsigned_less [of b, where ?'a = nat] by simp
  ultimately have "a + b < a" using False by (simp add: word_less_nat_alt)
  moreover have "unat (- 1 :: u64) = 2 ^ 64 - 1" by (simp add: unsigned_minus_1_eq_mask mask_eq_exp_minus_1)
  ultimately show ?thesis using False by (simp add: saturating_add_def)
qed

lemma saturating_add_left_commute: "saturating_add (saturating_add a b) c = saturating_add (saturating_add a c) b"
  by (simp add: word_unat_eq_iff unat_saturating_add)

lemma pool_capacity_order: "mset p = mset q \<Longrightarrow> pool_capacity V p = pool_capacity V q"
  unfolding pool_capacity_def
  by (rule fun_cong, rule fold_multiset_equiv)
    (auto simp: fun_eq_iff saturating_add_left_commute split: prod.splits)

section \<open>What a pool holds\<close>

text \<open>A pool as a heap: from the handles it has given out to the pages under them.\<close>

definition pool_abs :: "('b \<Rightarrow> 'w \<Rightarrow> u64 \<rightharpoonup> page) \<Rightarrow> 'b pool \<Rightarrow> 'w \<Rightarrow> page_handle \<rightharpoonup> page" where
  "pool_abs contents p w h =
     (case map_of p (ph_backend_id h) of None \<Rightarrow> None | Some b \<Rightarrow> contents b w (ph_offset h))"

definition pool_ok ::
  "('b \<Rightarrow> u8) \<Rightarrow> ('b \<Rightarrow> 'w \<Rightarrow> bool) \<Rightarrow> ('b \<Rightarrow> 'b \<Rightarrow> bool) \<Rightarrow> 'b pool \<Rightarrow> 'w \<Rightarrow> bool" where
  "pool_ok bid binv apart p w \<longleftrightarrow> hm_ok p \<and>
     (\<forall>i b. map_of p i = Some b \<longrightarrow> binv b w \<and> bid b = i) \<and>
     (\<forall>i j b c. map_of p i = Some b \<longrightarrow> map_of p j = Some c \<longrightarrow> i \<noteq> j \<longrightarrow> apart b c)"

text \<open>The handles it has given out, in use or not.\<close>

definition pool_issued :: "('b \<Rightarrow> 'w \<Rightarrow> u64 \<Rightarrow> bool) \<Rightarrow> 'b pool \<Rightarrow> 'w \<Rightarrow> page_handle \<Rightarrow> bool" where
  "pool_issued issued p w h =
     (case map_of p (ph_backend_id h) of None \<Rightarrow> False | Some b \<Rightarrow> issued b w (ph_offset h))"

text \<open>
  A backend in the memory of the process: its operations leave the world alone.
\<close>

locale process_backend = reliable_backend +
  assumes alloc_still: "binv b w \<Longrightarrow> vt_alloc_page V b w = (ra, b', w') \<Longrightarrow> w' = w"
    and store_still: "binv b w \<Longrightarrow> vt_store_page V b h d w = (rs, b', w') \<Longrightarrow> w' = w"
    and load_still: "binv b w \<Longrightarrow> vt_load_page V b h w = (rl, b', w') \<Longrightarrow> w' = w"
    and free_still: "binv b w \<Longrightarrow> vt_free_page V b h w = (rf, b', w') \<Longrightarrow> w' = w"
    and load_no_panic: "binv b w \<Longrightarrow> vt_load_page V b h w \<noteq> (Panic, b', w')"
begin

abbreviation sound :: "'a pool \<Rightarrow> 'b \<Rightarrow> bool" where
  "sound \<equiv> pool_ok bid binv apart"

abbreviation held :: "'a pool \<Rightarrow> 'b \<Rightarrow> page_handle \<rightharpoonup> page" where
  "held \<equiv> pool_abs contents"

abbreviation given :: "'a pool \<Rightarrow> 'b \<Rightarrow> page_handle \<Rightarrow> bool" where
  "given \<equiv> pool_issued issued"

text \<open>A step of one backend changes the pool only under the handles of that backend.\<close>

lemma pool_step:
  assumes ok: "sound p w" and b: "map_of p i = Some b" and st: "backend_step V bid contents issued binv apart b w b' w"
  shows "sound (AList.update i b' p) w" and "given p w h \<Longrightarrow> given (AList.update i b' p) w h"
    and "held (AList.update i b' p) w h =
      (if ph_backend_id h = i then contents b' w (ph_offset h) else held p w h)"
proof -
  have others: "binv c w" "apart b' c" "apart c b'" "bid c = j"
    if "map_of p j = Some c" "j \<noteq> i" for j c
    using ok b st that apart_sym unfolding backend_step_def pool_ok_def by metis+
  have "bid b' = i" "binv b' w" using ok b st by (auto simp: backend_step_def pool_ok_def)
  then show "sound (AList.update i b' p) w"
    using ok others by (auto simp: pool_ok_def split: if_splits)
  show "given p w h \<Longrightarrow> given (AList.update i b' p) w h"
    using b st by (auto simp: pool_issued_def backend_step_def split: option.splits)
  show "held (AList.update i b' p) w h =
      (if ph_backend_id h = i then contents b' w (ph_offset h) else held p w h)"
    by (auto simp: pool_abs_def split: option.splits)
qed

lemma pool_okD: "sound p w \<Longrightarrow> map_of p i = Some b \<Longrightarrow> binv b w" "sound p w \<Longrightarrow> map_of p i = Some b \<Longrightarrow> bid b = i"
  by (simp_all add: pool_ok_def)

lemma held_given: "sound p w \<Longrightarrow> held p w h = Some d \<Longrightarrow> given p w h"
  by (auto simp: pool_abs_def pool_issued_def pool_ok_def intro: contents_issued split: option.splits)

lemma pool_load_law:
  assumes ok: "sound p w" and run: "pool_load V p h w = (r, p', w')"
  shows "w' = w \<and> sound p' w \<and> held p' w = held p w \<and> (\<forall>g. given p w g \<longrightarrow> given p' w g) \<and>
    r \<noteq> Panic \<and> (\<forall>d. r = Ok d \<longleftrightarrow> held p w h = Some d)"
proof (cases "map_of p (ph_backend_id h)")
  case None
  then show ?thesis using ok run by (auto simp: pool_load_def pool_abs_def)
next
  case (Some b)
  obtain b' where l: "vt_load_page V b h w = (r, b', w')" and p': "p' = AList.update (ph_backend_id h) b' p"
    using run Some by (auto simp: pool_load_def split: prod.splits)
  have w: "w' = w" by (rule load_still [OF pool_okD(1) [OF ok Some] l])
  have np: "r \<noteq> Panic" using load_no_panic [OF pool_okD(1) [OF ok Some]] l by blast
  note L = load_law [OF pool_okD(1) [OF ok Some] l np, unfolded w]
  have "r = Ok d \<longleftrightarrow> contents b w (ph_offset h) = Some d" for d
    using load_iff [OF pool_okD(1) [OF ok Some], of h d] l by auto
  then show ?thesis using pool_step [OF ok Some conjunct1 [OF L]] L Some w np
    by (auto simp: p' pool_abs_def fun_eq_iff)
qed

lemma pool_free_law:
  assumes ok: "sound p w" and run: "pool_free V p h w = (r, p', w')" and np: "r \<noteq> Panic"
  shows "w' = w \<and> sound p' w \<and> held p' w = (held p w)(h := None) \<and> (\<forall>g. given p w g \<longrightarrow> given p' w g) \<and>
    (is_ok r \<longleftrightarrow> map_of p (ph_backend_id h) \<noteq> None)"
proof (cases "map_of p (ph_backend_id h)")
  case None
  then show ?thesis using ok run by (auto simp: pool_free_def pool_abs_def fun_eq_iff)
next
  case (Some b)
  obtain b' where l: "vt_free_page V b h w = (r, b', w')" and p': "p' = AList.update (ph_backend_id h) b' p"
    using run Some by (auto simp: pool_free_def split: prod.splits)
  have w: "w' = w" by (rule free_still [OF pool_okD(1) [OF ok Some] l])
  have r: "r = Ok ()" using free_total [OF pool_okD(1) [OF ok Some], of h] l by auto
  note L = free_law [OF pool_okD(1) [OF ok Some] l np, unfolded w]
  have "contents b' w (ph_offset g) = contents b w (ph_offset g)" if "g \<noteq> h" "ph_backend_id g = ph_backend_id h" for g
    using L that ph_eqI by metis
  then show ?thesis using pool_step [OF ok Some conjunct1 [OF L]] L Some w r
    by (auto simp: p' pool_abs_def fun_eq_iff)
qed

lemma pool_store_law:
  assumes ok: "sound p w" and run: "pool_store V p d w = (r, p', w')" and np: "r \<noteq> Panic" and d: "is_page d"
  shows "w' = w \<and> sound p' w \<and> (\<forall>g. given p w g \<longrightarrow> given p' w g) \<and>
    (case r of Ok h \<Rightarrow> \<not> given p w h \<and> ph_backend_id h \<in> {0, 1} \<and> held p' w = (held p w)(h \<mapsto> d)
       | _ \<Rightarrow> held p' w = held p w)"
proof -
  define i :: u8 where "i = (if map_of p 1 = None then 0 else 1)"
  show ?thesis
  proof (cases "map_of p i")
    case None
    then show ?thesis using ok run by (auto simp: pool_store_def i_def)
  next
    case (Some b)
    note B = pool_okD [OF ok Some]
    obtain ra b1 w1 where al: "vt_alloc_page V b w = (ra, b1, w1)" by (rule prod_cases3)
    have ra: "ra \<noteq> Panic" using run np Some al by (auto simp: pool_store_def i_def split: if_splits)
    have w1: "w1 = w" by (rule alloc_still [OF B(1) al])
    note A = alloc_law [OF B(1) al ra, unfolded w1]
    note S1 = pool_step [OF ok Some conjunct1 [OF A]]
    have same: "held (AList.update i b1 p) w = held p w"
      using S1(3) A Some by (auto simp: fun_eq_iff pool_abs_def)
    show ?thesis
    proof (cases ra)
      case (Ok h)
      have b1: "map_of (AList.update i b1 p) i = Some b1" by simp
      have H: "ph_backend_id h = i" "\<not> issued b w (ph_offset h)" "issued b1 w (ph_offset h)" using A B Ok by auto
      obtain b2 w2 where st: "vt_store_page V b1 h d w = (res.Ok (), b2, w2)"
        using store_total [OF pool_okD(1) [OF S1(1) b1] d H(3)] by blast
      have w2: "w2 = w" by (rule store_still [OF pool_okD(1) [OF S1(1) b1] st])
      have r: "r = res.Ok h" "p' = AList.update i b2 p" "w' = w"
        using run np Some al Ok st w1 w2 by (auto simp: pool_store_def i_def split: if_splits)
      note S = store_law [OF pool_okD(1) [OF S1(1) b1] d H(3) st, unfolded w2, simplified]
      note S2 = pool_step [OF S1(1) b1 conjunct1 [OF S], simplified]
      have "held p' w g = (if g = h then Some d else held p w g)" for g
        using S2(3) [of g] S A H(1) Some same ph_eqI [of g h] by (auto simp: r pool_abs_def)
      moreover have "\<not> given p w h" using H Some by (simp add: pool_issued_def)
      moreover have "i \<in> {0, 1}" by (simp add: i_def)
      ultimately show ?thesis using S1(2) S2(1,2) H(1) by (auto simp: r fun_eq_iff)
    qed (use run np Some al S1 same w1 in \<open>auto simp: pool_store_def i_def split: if_splits\<close>)
  qed
qed

end

interpretation local: process_backend "dyn_vt lz (net_io parse) R" dyn_bid "dyn_contents lz" dyn_issued
  "local_inv lz" dyn_apart
  for lz parse R
proof (unfold_locales, goal_cases)
  case (5 b w h b' w')
  then show ?case
    by (cases rule: local_cases) (auto simp: mb_load_page_def cb_load_page_def split: prod.splits option.splits if_splits)
qed (auto simp: local_inv_def dest: local_keeps_world)

section \<open>The library as a heap of pages\<close>

abbreviation lib_vt :: "lz4_codec \<Rightarrow> (string \<Rightarrow> bool) \<Rightarrow> ('r, net) backend_vt \<Rightarrow> ('r net_backend, net) backend_vt" where
  "lib_vt lz parse R \<equiv> dyn_vt lz (net_io parse) R"

definition lib_ok :: "lz4_codec \<Rightarrow> 'r net_backend process \<Rightarrow> net \<Rightarrow> bool" where
  "lib_ok lz s w \<longleftrightarrow> (case GLOBAL_POOL s of None \<Rightarrow> True | Some p \<Rightarrow> pool_ok dyn_bid (local_inv lz) dyn_apart p w)"

definition lib_held :: "lz4_codec \<Rightarrow> 'r net_backend process \<Rightarrow> net \<Rightarrow> u64 \<rightharpoonup> page" where
  "lib_held lz s w h =
     (case GLOBAL_POOL s of None \<Rightarrow> None | Some p \<Rightarrow> pool_abs (dyn_contents lz) p w (PageHandle h))"

definition lib_given :: "'r net_backend process \<Rightarrow> net \<Rightarrow> u64 \<Rightarrow> bool" where
  "lib_given s w h = (case GLOBAL_POOL s of None \<Rightarrow> False | Some p \<Rightarrow> pool_issued dyn_issued p w (PageHandle h))"

lemmas lib_views = lib_ok_def lib_held_def lib_given_def

lemma standalone_Ok:
  assumes "lz4_roundtrip lz"
  obtains p where "standalone (lib_vt lz parse R) w = (Ok p, w)" "pool_ok dyn_bid (local_inv lz) dyn_apart p w"
    "pool_abs (dyn_contents lz) p w = Map.empty"
proof -
  let ?p = "[(0, DynMemory (mb_new 0)), (1, DynCompress (cb_new 1))] :: 'b net_backend pool"
  have "standalone (lib_vt lz parse R) w = (Ok ?p, w)"
    by (simp add: standalone_def dyn_vt_def mb_init_def cb_init_def default_backend_config_def mb_new_def cb_new_def Let_def)
  moreover have "pool_ok dyn_bid (local_inv lz) dyn_apart ?p w"
    using assms by (auto simp: pool_ok_def hm_ok_def local_inv_def mb_inv_def cb_inv_def mb_new_def cb_new_def)
  moreover have "pool_abs (dyn_contents lz) ?p w = Map.empty"
    by (auto simp: pool_abs_def fun_eq_iff mb_new_def cb_new_def mb_contents_def cb_contents_def)
  ultimately show thesis by (rule that)
qed

text \<open>
  What a step does to a handle that was given out before: it stays so, and the page under it is there
  until the handle is freed.
\<close>

definition lib_step :: "lz4_codec \<Rightarrow> u64 set \<Rightarrow> 'r net_backend process \<Rightarrow> net \<Rightarrow> 'r net_backend process \<Rightarrow> net \<Rightarrow> bool" where
  "lib_step lz freed s w s' w' \<longleftrightarrow> w' = w \<and> lib_ok lz s' w \<and>
     (\<forall>h. lib_given s w h \<longrightarrow> lib_given s' w h \<and>
        lib_held lz s' w h = (if h \<in> freed then None else lib_held lz s w h))"

lemma lib_step_refl: "lib_ok lz s w \<Longrightarrow> lib_step lz {} s w s w"
  by (simp add: lib_step_def)

lemma lib_step_trans: "lib_step lz A s w s1 w1 \<Longrightarrow> lib_step lz B s1 w1 s2 w2 \<Longrightarrow> lib_step lz (A \<union> B) s w s2 w2"
  by (auto simp: lib_step_def)

lemma lib_step_mem: "lib_ok lz s w \<Longrightarrow> lib_step lz {} s w (s\<lparr>pr_mem := m\<rparr>) w"
  by (simp add: lib_step_def lib_views)

lemma held_is_given: "lib_ok lz s w \<Longrightarrow> lib_held lz s w h = Some d \<Longrightarrow> lib_given s w h"
  using local.held_given by (auto simp: lib_views split: option.splits)

lemma init_step:
  assumes "lib_ok lz s w" and "lz4_roundtrip lz" and "duvm_init_ffi (lib_vt lz parse R) s w = (r, s', w')"
  shows "lib_step lz {} s w s' w' \<and> r = Ok (if GLOBAL_POOL s = None then 0 else - 1) \<and> GLOBAL_POOL s' \<noteq> None"
proof -
  obtain p where "standalone (lib_vt lz parse R) w = (Ok p, w)" "pool_ok dyn_bid (local_inv lz) dyn_apart p w"
    by (rule standalone_Ok [OF assms(2)])
  then show ?thesis using assms(1,3)
    by (cases "GLOBAL_POOL s") (auto simp: duvm_init_ffi_def lib_step_def lib_views)
qed

lemma store_step:
  assumes "lib_ok lz s w" and "duvm_store_page (lib_vt lz parse R) a s w = (Ok h, s', w')"
  shows "lib_step lz {} s w s' w'" and "pr_mem s' = pr_mem s"
    and "h \<noteq> - 1 \<Longrightarrow> \<not> lib_given s w h \<and> lib_held lz s' w h = Some (mem_get a PAGE_SIZE (pr_mem s))"
proof -
  let ?d = "mem_get a PAGE_SIZE (pr_mem s)"
  have "lib_step lz {} s w s' w' \<and> pr_mem s' = pr_mem s \<and>
      (h \<noteq> - 1 \<longrightarrow> \<not> lib_given s w h \<and> lib_held lz s' w h = Some ?d)"
  proof (cases "a = 0 \<or> GLOBAL_POOL s = None")
    case True
    then show ?thesis using assms lib_step_refl [OF assms(1)] by (auto simp: duvm_store_page_def split: if_splits)
  next
    case False
    then obtain p where p: "GLOBAL_POOL s = Some p" "a \<noteq> 0" by auto
    obtain r p' w1 where st: "pool_store (lib_vt lz parse R) p ?d w = (r, p', w1)" by (rule prod_cases3)
    have np: "r \<noteq> Panic" and s': "s' = s\<lparr>GLOBAL_POOL := Some p'\<rparr>" "w' = w1"
      and h: "h = (case r of Ok g \<Rightarrow> ph_raw g | _ \<Rightarrow> - 1)"
      using assms(2) p st by (auto simp: duvm_store_page_def split: res.splits)
    have ok: "pool_ok dyn_bid (local_inv lz) dyn_apart p w" using assms(1) p by (simp add: lib_ok_def)
    note L = local.pool_store_law [OF ok st np] 
    show ?thesis using L p s' h by (cases r) (auto simp: lib_step_def lib_views is_page_def)
  qed
  then show "lib_step lz {} s w s' w'" and "pr_mem s' = pr_mem s"
    and "h \<noteq> - 1 \<Longrightarrow> \<not> lib_given s w h \<and> lib_held lz s' w h = Some ?d" by auto
qed

lemma load_step:
  assumes "lib_ok lz s w" and "duvm_load_page (lib_vt lz parse R) h a s w = (r, s', w')"
  shows "lib_step lz {} s w s' w'"
    and "r = Ok (if a \<noteq> 0 \<and> lib_held lz s w h \<noteq> None then 0 else - 1)"
    and "pr_mem s' = (case lib_held lz s w h of None \<Rightarrow> pr_mem s | Some d \<Rightarrow> if a = 0 then pr_mem s else mem_put a d (pr_mem s))"
proof -
  have "lib_step lz {} s w s' w' \<and> r = Ok (if a \<noteq> 0 \<and> lib_held lz s w h \<noteq> None then 0 else - 1) \<and>
    pr_mem s' = (case lib_held lz s w h of None \<Rightarrow> pr_mem s | Some d \<Rightarrow> if a = 0 then pr_mem s else mem_put a d (pr_mem s))"
  proof (cases "a = 0 \<or> GLOBAL_POOL s = None")
    case True
    then show ?thesis using assms lib_step_refl [OF assms(1)]
      by (auto simp: duvm_load_page_def lib_held_def split: option.splits)
  next
    case False
    then obtain p where p: "GLOBAL_POOL s = Some p" "a \<noteq> 0" by auto
    obtain rl p' w1 where l: "pool_load (lib_vt lz parse R) p (PageHandle h) w = (rl, p', w1)" by (rule prod_cases3)
    have ok: "pool_ok dyn_bid (local_inv lz) dyn_apart p w" using assms(1) p by (simp add: lib_ok_def)
    note L = local.pool_load_law [OF ok l]
    have held: "lib_held lz s w h = (case rl of Ok d \<Rightarrow> Some d | _ \<Rightarrow> None)"
      using L p by (cases "lib_held lz s w h"; cases rl) (auto simp: lib_held_def)
    show ?thesis using L p assms(2) l unfolding held
      by (cases rl) (auto simp: duvm_load_page_def ph_from_raw_def lib_step_def lib_views)
  qed
  then show "lib_step lz {} s w s' w'" and "r = Ok (if a \<noteq> 0 \<and> lib_held lz s w h \<noteq> None then 0 else - 1)"
    and "pr_mem s' = (case lib_held lz s w h of None \<Rightarrow> pr_mem s | Some d \<Rightarrow> if a = 0 then pr_mem s else mem_put a d (pr_mem s))"
    by auto
qed

lemma free_step:
  assumes "lib_ok lz s w" and "duvm_free_page (lib_vt lz parse R) h s w = (r, s', w')" and "r \<noteq> Panic"
  shows "lib_step lz {h} s w s' w'"
proof (cases "GLOBAL_POOL s")
  case None
  then show ?thesis using assms by (auto simp: duvm_free_page_def lib_step_def lib_views)
next
  case (Some p)
  obtain rf p' w1 where l: "pool_free (lib_vt lz parse R) p (PageHandle h) w = (rf, p', w1)" by (rule prod_cases3)
  have np: "rf \<noteq> Panic" using assms(2,3) Some l by (auto simp: duvm_free_page_def ph_from_raw_def)
  have ok: "pool_ok dyn_bid (local_inv lz) dyn_apart p w" using assms(1) Some by (simp add: lib_ok_def)
  note L = local.pool_free_law [OF ok l np]
  show ?thesis using L Some assms(2) l np
    by (cases rf) (auto simp: duvm_free_page_def ph_from_raw_def lib_step_def lib_views)
qed

lemma c_step_law:
  assumes "lib_ok lz s w" and "lz4_roundtrip lz" and "c_step_run (lib_vt lz parse R) c s w = Some (s', w')"
  shows "lib_step lz {h. c = CFree h} s w s' w'"
proof (cases c)
  case CInit
  then show ?thesis using assms init_step [OF assms(1,2)] by (auto split: prod.splits if_splits)
next
  case (CStore a)
  obtain r s1 w1 where st: "duvm_store_page (lib_vt lz parse R) a s w = (r, s1, w1)" by (rule prod_cases3)
  then have "\<exists>h. r = Ok h" "s1 = s'" "w1 = w'" using assms(3) CStore
    by (auto simp: duvm_store_page_def split: if_splits option.splits res.splits prod.splits)
  then show ?thesis using CStore st store_step(1) [OF assms(1)] by auto
next
  case (CLoad h a)
  then show ?thesis using assms(3) load_step(1) [OF assms(1)] by (auto split: prod.splits if_splits)
next
  case (CFree h)
  then have "{g. c = CFree g} = {h}" by auto
  then show ?thesis using assms(3) CFree free_step [OF assms(1)] by (auto split: prod.splits if_splits)
next
  case (CWrite a v)
  then show ?thesis using assms(3) lib_step_mem [OF assms(1)] by auto
qed

lemma c_run_law:
  assumes "lib_ok lz s w" and "lz4_roundtrip lz" and "c_run (lib_vt lz parse R) cs s w = Some (s', w')"
  shows "lib_step lz {h. CFree h \<in> set cs} s w s' w'"
  using assms
proof (induction cs arbitrary: s w)
  case Nil
  then show ?case by (auto intro: lib_step_refl)
next
  case (Cons c cs)
  then obtain s1 w1 where c: "c_step_run (lib_vt lz parse R) c s w = Some (s1, w1)"
    and cs: "c_run (lib_vt lz parse R) cs s1 w1 = Some (s', w')"
    by (auto split: option.splits)
  note L = c_step_law [OF Cons.prems(1,2) c]
  have "lib_ok lz s1 w1" using L by (auto simp: lib_step_def)
  note L' = lib_step_trans [OF L Cons.IH [OF this Cons.prems(2) cs]]
  have "{h. c = CFree h} \<union> {h. CFree h \<in> set cs} = {h. CFree h \<in> set (c # cs)}" by auto
  then show ?case using L' by simp
qed

section \<open>Properties\<close>

text \<open>
  C9: the library is a heap of pages for the program that links it. After any calls before, a page that
  \<^verbatim>\<open>duvm_store_page\<close> takes stays under the handle it returns, through any calls and writes of the
  program in between: \<^verbatim>\<open>duvm_load_page\<close> returns 0 and copies the bytes the page had when it was
  stored, and touches no other memory. Once the handle has been freed every load of it returns -1
  and touches nothing, whatever is stored later. This relies on LZ4 decompressing what it compressed.
\<close>

theorem lib_page_survives:
  assumes "lz4_roundtrip lz" and "c_run (lib_vt lz parse R) cs0 \<lparr>GLOBAL_POOL = None, pr_mem = m\<rparr> w = Some (s, w0)"
    and "duvm_store_page (lib_vt lz parse R) data s w0 = (Ok h, s1, w1)" and "h \<noteq> - 1"
    and "c_run (lib_vt lz parse R) cs s1 w1 = Some (s2, w2)" and "buf \<noteq> 0"
  shows "\<exists>s3. duvm_load_page (lib_vt lz parse R) h buf s2 w2 = (Ok (if CFree h \<in> set cs then - 1 else 0), s3, w2) \<and>
    pr_mem s3 = (if CFree h \<in> set cs then pr_mem s2 else mem_put buf (mem_get data PAGE_SIZE (pr_mem s)) (pr_mem s2))"
proof -
  have "lib_ok lz \<lparr>GLOBAL_POOL = None, pr_mem = m\<rparr> w" by (simp add: lib_ok_def)
  from c_run_law [OF this assms(1,2)] have ok: "lib_ok lz s w0" by (simp add: lib_step_def)
  note S = store_step [OF ok assms(3)]
  have ok1: "lib_ok lz s1 w1" and w1: "w1 = w0" using S(1) by (simp_all add: lib_step_def)
  have held: "lib_held lz s1 w1 h = Some (mem_get data PAGE_SIZE (pr_mem s))" using S(3) [OF assms(4)] w1 by simp
  note L = c_run_law [OF ok1 assms(1,5)]
  have held2: "lib_held lz s2 w2 h = (if CFree h \<in> set cs then None else Some (mem_get data PAGE_SIZE (pr_mem s)))"
    using L held held_is_given [OF ok1 held] by (auto simp: lib_step_def)
  have ok2: "lib_ok lz s2 w2" using L by (simp add: lib_step_def)
  obtain r s3 w3 where l: "duvm_load_page (lib_vt lz parse R) h buf s2 w2 = (r, s3, w3)" by (rule prod_cases3)
  note D = load_step [OF ok2 l]
  have "w3 = w2" using D(1) by (simp add: lib_step_def)
  then show ?thesis using l D(2,3) held2 assms(6) by auto
qed

text \<open>
  Handles are never given out twice: what \<^verbatim>\<open>duvm_store_page\<close> returns differs from what it returned
  before, even when the earlier page has been freed since, and a second \<^verbatim>\<open>duvm_init\<close> fails without
  losing the pages.
\<close>

theorem lib_handles_fresh:
  assumes "lz4_roundtrip lz" and "c_run (lib_vt lz parse R) cs0 \<lparr>GLOBAL_POOL = None, pr_mem = m\<rparr> w = Some (s, w0)"
    and "duvm_store_page (lib_vt lz parse R) data s w0 = (Ok h, s1, w1)" and "h \<noteq> - 1"
    and "c_run (lib_vt lz parse R) cs s1 w1 = Some (s2, w2)"
    and "duvm_store_page (lib_vt lz parse R) data' s2 w2 = (Ok h', s3, w3)"
  shows "h' \<noteq> h \<and> (\<exists>s4. duvm_init_ffi (lib_vt lz parse R) s3 w3 = (Ok (- 1), s4, w3) \<and> s4 = s3)"
proof -
  have "lib_ok lz \<lparr>GLOBAL_POOL = None, pr_mem = m\<rparr> w" by (simp add: lib_ok_def)
  from c_run_law [OF this assms(1,2)] have ok: "lib_ok lz s w0" by (simp add: lib_step_def)
  note S = store_step [OF ok assms(3)]
  have ok1: "lib_ok lz s1 w1" and "lib_held lz s1 w1 h \<noteq> None"
    using S(1,3) assms(4) by (simp_all add: lib_step_def)
  then have "lib_given s1 w1 h" using held_is_given by blast
  note L = c_run_law [OF ok1 assms(1,5)]
  have given: "lib_given s2 w2 h" and ok2: "lib_ok lz s2 w2" using L \<open>lib_given s1 w1 h\<close> by (simp_all add: lib_step_def)
  note S' = store_step [OF ok2 assms(6)]
  have "h' \<noteq> h" using S'(3) given assms(4) by auto
  moreover have "lib_given s3 w3 h" using S'(1) given by (simp add: lib_step_def)
  then have "GLOBAL_POOL s3 \<noteq> None" by (auto simp: lib_given_def split: option.splits)
  moreover obtain p where "standalone (lib_vt lz parse R) w3 = (Ok p, w3)" by (rule standalone_Ok [OF assms(1)])
  ultimately show ?thesis by (auto simp: duvm_init_ffi_def)
qed

section \<open>Sample runs\<close>

text \<open>A program that stores a page of sevens, stores a second page and frees one of the two.\<close>

definition idle_net :: net where
  "idle_net = \<lparr>net_servers = [], net_conns = [], net_fate = (\<lambda>_. Broken 0), net_step = 0,
     net_tick = (\<lambda>_. 1), net_time = 0\<rparr>"

abbreviation sample_lib :: "(memory_backend net_backend, net) backend_vt" where
  "sample_lib \<equiv> lib_vt plain_codec (\<lambda>_. True) mb_vt"

definition sample_process :: "memory_backend net_backend process" where
  "sample_process = \<lparr>GLOBAL_POOL = None, pr_mem = (\<lambda>_. 7)\<rparr>"

lemmas lib_run_defs = duvm_init_ffi_def standalone_def duvm_store_page_def duvm_free_page_def pool_store_def
  pool_free_def dyn_vt_def mb_init_def cb_init_def cb_alloc_page_def cb_store_page_def cb_free_page_def
  default_backend_config_def ph_from_raw_def cb_new_def mb_new_def ph_new_def

lemma sample_program:
  "\<exists>s s1 s2. c_run sample_lib [CInit] sample_process idle_net = Some (s, idle_net) \<and> pr_mem s = (\<lambda>_. 7) \<and>
     duvm_store_page sample_lib 4096 s idle_net = (Ok (push_bit 56 1), s1, idle_net) \<and>
     c_run sample_lib [CStore 8192, CWrite 4096 0] s1 idle_net = Some (s2, idle_net)"
  by (simp add: sample_process_def lib_run_defs Let_def)

lemma sample_reuse:
  "\<exists>s s1 s2 h' s3. c_run sample_lib [CInit] sample_process idle_net = Some (s, idle_net) \<and>
     duvm_store_page sample_lib 4096 s idle_net = (Ok (push_bit 56 1), s1, idle_net) \<and>
     c_run sample_lib [CFree (push_bit 56 1)] s1 idle_net = Some (s2, idle_net) \<and>
     duvm_store_page sample_lib 4096 s2 idle_net = (Ok h', s3, idle_net) \<and> h' \<noteq> - 1"
  by (simp add: sample_process_def lib_run_defs Let_def ph_backend_id_def ph_offset_def)

lemma page_of_sevens: "mem_get a PAGE_SIZE (\<lambda>_. 7) = replicate PAGE_SIZE 7"
  by (simp add: mem_get_def map_replicate_const)

theorem lib_page_survives_witness:
  "\<exists>s s1 s2 s3. c_run sample_lib [CInit] sample_process idle_net = Some (s, idle_net) \<and>
     duvm_store_page sample_lib 4096 s idle_net = (Ok (push_bit 56 1), s1, idle_net) \<and>
     c_run sample_lib [CStore 8192, CWrite 4096 0] s1 idle_net = Some (s2, idle_net) \<and>
     duvm_load_page sample_lib (push_bit 56 1) 16384 s2 idle_net = (Ok 0, s3, idle_net) \<and>
     pr_mem s3 = mem_put 16384 (replicate PAGE_SIZE 7) (pr_mem s2)"
proof -
  obtain s s1 s2 where r: "c_run sample_lib [CInit] sample_process idle_net = Some (s, idle_net)" "pr_mem s = (\<lambda>_. 7)"
    "duvm_store_page sample_lib 4096 s idle_net = (Ok (push_bit 56 1), s1, idle_net)"
    "c_run sample_lib [CStore 8192, CWrite 4096 0] s1 idle_net = Some (s2, idle_net)"
    using sample_program by blast
  show ?thesis
    using lib_page_survives [OF lz4_roundtrip_plain r(1) [unfolded sample_process_def] r(3) _ r(4), of 16384] r
    by (auto simp: page_of_sevens simp del: c_run.simps)
qed

theorem lib_handles_fresh_witness:
  "\<exists>s s1 s2 h' s3. c_run sample_lib [CInit] sample_process idle_net = Some (s, idle_net) \<and>
     duvm_store_page sample_lib 4096 s idle_net = (Ok (push_bit 56 1), s1, idle_net) \<and>
     c_run sample_lib [CFree (push_bit 56 1)] s1 idle_net = Some (s2, idle_net) \<and>
     duvm_store_page sample_lib 4096 s2 idle_net = (Ok h', s3, idle_net) \<and> h' \<noteq> - 1 \<and>
     h' \<noteq> push_bit 56 1 \<and> duvm_init_ffi sample_lib s3 idle_net = (Ok (- 1), s3, idle_net)"
proof -
  obtain s s1 s2 h' s3 where r: "c_run sample_lib [CInit] sample_process idle_net = Some (s, idle_net)"
    "duvm_store_page sample_lib 4096 s idle_net = (Ok (push_bit 56 1), s1, idle_net)"
    "c_run sample_lib [CFree (push_bit 56 1)] s1 idle_net = Some (s2, idle_net)"
    "duvm_store_page sample_lib 4096 s2 idle_net = (Ok h', s3, idle_net)" "h' \<noteq> - 1"
    using sample_reuse by blast
  show ?thesis
    using lib_handles_fresh [OF lz4_roundtrip_plain r(1) [unfolded sample_process_def] r(2) _ r(3,4)] r
    by (auto simp del: c_run.simps)
qed

end
