(* ===== verification/Memserver_Threads.thy ===== *)
theory Memserver_Threads
  imports Memserver Std_Text Rdma_Server
begin

text \<open>
  The memory server as a whole, \<^verbatim>\<open>main\<close> of \<^verbatim>\<open>crates/duvm-memserver/src/main.rs\<close>: its command line, the
  accept loop with its limit on connections, and one thread per connection. The threads interleave at
  every access to what they share: the atomics \<^verbatim>\<open>used\<close>, \<^verbatim>\<open>next_offset\<close> and \<^verbatim>\<open>active_conns\<close>, and the map
  of pages behind its mutex.
\<close>

section \<open>The command line\<close>

record mem_args =
  arg_bind :: string
  arg_max_pages :: u64
  arg_rdma :: bool
  arg_rdma_pages_per_client :: u64
  arg_rdma_port :: "u16 option"
  arg_max_connections :: u64
  arg_idle_timeout :: u64

definition default_args :: mem_args where
  "default_args =
     \<lparr>arg_bind = ''0.0.0.0:9200'', arg_max_pages = 1000000, arg_rdma = False,
      arg_rdma_pages_per_client = 100000, arg_rdma_port = None, arg_max_connections = 256,
      arg_idle_timeout = 300\<rparr>"

definition tcp_port :: "string \<Rightarrow> u16" where
  "tcp_port bind = (case parse_u16 (last (split_on CHR '':'' bind)) of Some p \<Rightarrow> p | None \<Rightarrow> 9200)"

definition rdma_listener :: "mem_args \<Rightarrow> rdma_mem_server option" where
  "rdma_listener args =
     (if arg_rdma args then
        Some (server_new (case arg_rdma_port args of Some p \<Rightarrow> p | None \<Rightarrow> tcp_port (arg_bind args) + 1)
          (arg_max_pages args) (arg_rdma_pages_per_client args))
      else None)"

definition idle_timeout :: "mem_args \<Rightarrow> u64 option" where
  "idle_timeout args = (if arg_idle_timeout args > 0 then Some (arg_idle_timeout args) else None)"

section \<open>State\<close>

text \<open>
  Where a connection's thread is: at the head of its loop, before reading \<^verbatim>\<open>used\<close>, between that and the
  compare-and-exchange, between that and \<^verbatim>\<open>next_offset.fetch_add\<close>, between removing a page and
  \<^verbatim>\<open>used.fetch_sub\<close> with the mutex held, or past \<^verbatim>\<open>handle_client\<close>.
\<close>

datatype task = Serving | AllocLoad | AllocCas u64 | AllocTake | FreeSub | Closing

record client_thread =
  th_task :: task
  th_in :: "u8 list"
  th_out :: "u8 list"

text \<open>
  \<open>ms_admitting\<close>: the accept loop has passed the check of the limit and not yet counted the connection.
  The last two fields are a history, which no step reads: the offsets that allocations took, in
  order, and whether \<^verbatim>\<open>used\<close> was ever decremented at zero.
\<close>

record mem_server =
  ms_store :: page_store
  ms_active :: u64
  ms_max_conns :: u64
  ms_idle :: "u64 option"
  ms_admitting :: bool
  ms_threads :: "(nat, client_thread) hash_map"
  ms_lock :: "nat option"
  ms_issued :: "u64 list"
  ms_underflow :: bool

definition memserver_main :: "mem_args \<Rightarrow> mem_server" where
  "memserver_main args =
     \<lparr>ms_store = ps_new (arg_max_pages args), ms_active = 0, ms_max_conns = arg_max_connections args,
      ms_idle = idle_timeout args, ms_admitting = False, ms_threads = [], ms_lock = None, ms_issued = [],
      ms_underflow = False\<rparr>"

section \<open>Steps\<close>

text \<open>A connection arrives: it is dropped at the limit, and otherwise admitted.\<close>

definition accept_check :: "mem_server \<Rightarrow> mem_server" where
  "accept_check s =
     (if ms_max_conns s > 0 \<and> ms_active s \<ge> ms_max_conns s then s else s\<lparr>ms_admitting := True\<rparr>)"

definition accept_spawn :: "nat \<Rightarrow> mem_server \<Rightarrow> mem_server" where
  "accept_spawn i s =
     s\<lparr>ms_active := ms_active s + 1, ms_admitting := False,
       ms_threads := AList.update i \<lparr>th_task = Serving, th_in = [], th_out = []\<rparr> (ms_threads s)\<rparr>"

abbreviation set_thread :: "nat \<Rightarrow> client_thread \<Rightarrow> mem_server \<Rightarrow> mem_server" where
  "set_thread i th s \<equiv> s\<lparr>ms_threads := AList.update i th (ms_threads s)\<rparr>"

text \<open>A request has been answered: the thread is back at the head of its loop.\<close>

definition respond :: "nat \<Rightarrow> client_thread \<Rightarrow> u8 list \<Rightarrow> mem_server \<Rightarrow> mem_server" where
  "respond i th out s = set_thread i (th\<lparr>th_task := Serving, th_out := th_out th @ out\<rparr>) s"

text \<open>
  \<^verbatim>\<open>PageStore::alloc_offset\<close>, one atomic access at a time.
\<close>

definition alloc_load :: "nat \<Rightarrow> client_thread \<Rightarrow> mem_server \<Rightarrow> mem_server" where
  "alloc_load i th s =
     (let used = ps_used (ms_store s) in
      if used \<ge> ps_max_pages (ms_store s) then respond i th (RESP_ERR # replicate 8 0) s
      else set_thread i (th\<lparr>th_task := AllocCas used\<rparr>) s)"

definition alloc_cas :: "nat \<Rightarrow> client_thread \<Rightarrow> u64 \<Rightarrow> mem_server \<Rightarrow> mem_server" where
  "alloc_cas i th used s =
     (if ps_used (ms_store s) = used
      then set_thread i (th\<lparr>th_task := AllocTake\<rparr>) (s\<lparr>ms_store := (ms_store s)\<lparr>ps_used := used + 1\<rparr>\<rparr>)
      else set_thread i (th\<lparr>th_task := AllocLoad\<rparr>) s)"

definition alloc_take :: "nat \<Rightarrow> client_thread \<Rightarrow> mem_server \<Rightarrow> mem_server" where
  "alloc_take i th s =
     (let offset = ps_next_offset (ms_store s) in
      respond i th (RESP_OK # to_le_bytes offset)
        (s\<lparr>ms_store := (ms_store s)\<lparr>ps_next_offset := offset + 1\<rparr>, ms_issued := ms_issued s @ [offset]\<rparr>))"

text \<open>\<^verbatim>\<open>PageStore::free\<close>: the removal takes the mutex, the end of the call gives it back.\<close>

definition free_remove :: "nat \<Rightarrow> client_thread \<Rightarrow> u64 \<Rightarrow> mem_server \<Rightarrow> mem_server" where
  "free_remove i th offset s =
     (if map_of (ps_pages (ms_store s)) offset \<noteq> None
      then set_thread i (th\<lparr>th_task := FreeSub\<rparr>)
        (s\<lparr>ms_store := (ms_store s)\<lparr>ps_pages := AList.delete offset (ps_pages (ms_store s))\<rparr>, ms_lock := Some i\<rparr>)
      else respond i th [RESP_ERR] s)"

definition free_sub :: "nat \<Rightarrow> client_thread \<Rightarrow> mem_server \<Rightarrow> mem_server" where
  "free_sub i th s =
     respond i th [RESP_OK]
       (s\<lparr>ms_store := (ms_store s)\<lparr>ps_used := ps_used (ms_store s) - 1\<rparr>, ms_lock := None,
          ms_underflow := (ms_underflow s \<or> ps_used (ms_store s) = 0)\<rparr>)"

text \<open>
  One round of \<^verbatim>\<open>handle_client\<close> at its head. \<^verbatim>\<open>store\<close> and \<^verbatim>\<open>load\<close> hold the mutex for their whole body, so
  they are one step; \<open>None\<close> is a thread that waits, for bytes or for the mutex.
\<close>

definition serve_step :: "nat \<Rightarrow> client_thread \<Rightarrow> mem_server \<Rightarrow> mem_server option" where
  "serve_step i th s =
     (case th_in th of
        [] \<Rightarrow> None
      | op # rest \<Rightarrow>
          if op = OP_ALLOC then Some (set_thread i (th\<lparr>th_task := AllocLoad, th_in := rest\<rparr>) s)
          else if op = OP_FREE then
            (if length rest < 8 \<or> ms_lock s \<noteq> None then None
             else Some (free_remove i (th\<lparr>th_in := drop 8 rest\<rparr>) (from_le_bytes (take 8 rest)) s))
          else if op \<in> {OP_STORE, OP_LOAD} \<and> ms_lock s \<noteq> None then None
          else
            (case handle_request (ms_store s) (th_in th) of
               None \<Rightarrow> None
             | Some (ps', out, rest') \<Rightarrow> Some (respond i (th\<lparr>th_in := rest'\<rparr>) out (s\<lparr>ms_store := ps'\<rparr>))))"

definition thread_step :: "nat \<Rightarrow> mem_server \<Rightarrow> mem_server option" where
  "thread_step i s =
     (case map_of (ms_threads s) i of
        None \<Rightarrow> None
      | Some th \<Rightarrow>
          (case th_task th of
             Serving \<Rightarrow> serve_step i th s
           | AllocLoad \<Rightarrow> Some (alloc_load i th s)
           | AllocCas used \<Rightarrow> Some (alloc_cas i th used s)
           | AllocTake \<Rightarrow> Some (alloc_take i th s)
           | FreeSub \<Rightarrow> Some (free_sub i th s)
           | Closing \<Rightarrow> Some (s\<lparr>ms_active := ms_active s - 1, ms_threads := AList.delete i (ms_threads s)\<rparr>)))"

text \<open>
  The server among its clients: it accepts connections, bytes arrive, threads take steps in any order,
  and a connection ends at the head of its loop, because the client left, a read timed out or a write
  failed.
\<close>

inductive server_run_step :: "mem_server \<Rightarrow> mem_server \<Rightarrow> bool" where
  arrives: "\<not> ms_admitting s \<Longrightarrow> server_run_step s (accept_check s)"
| admitted: "ms_admitting s \<Longrightarrow> map_of (ms_threads s) i = None \<Longrightarrow> server_run_step s (accept_spawn i s)"
| receives: "map_of (ms_threads s) i = Some th \<Longrightarrow>
    server_run_step s (set_thread i (th\<lparr>th_in := th_in th @ bytes\<rparr>) s)"
| runs: "thread_step i s = Some s' \<Longrightarrow> server_run_step s s'"
| ends: "map_of (ms_threads s) i = Some th \<Longrightarrow> th_task th = Serving \<Longrightarrow>
    server_run_step s (set_thread i (th\<lparr>th_task := Closing\<rparr>) s)"

definition server_reaches :: "mem_server \<Rightarrow> mem_server \<Rightarrow> bool" where
  "server_reaches = server_run_step\<^sup>*\<^sup>*"

section \<open>Invariant\<close>

text \<open>
  The counts are exact, the limits hold, the offsets taken so far are the numbers below
  \<^verbatim>\<open>next_offset\<close>, and the mutex is held exactly by the thread inside \<^verbatim>\<open>free\<close>.
\<close>

definition conns_ok :: "mem_server \<Rightarrow> bool" where
  "conns_ok s \<longleftrightarrow> hm_ok (ms_threads s) \<and> ms_active s = of_nat (length (ms_threads s)) \<and>
     (ms_max_conns s > 0 \<longrightarrow>
        length (ms_threads s) + (if ms_admitting s then 1 else 0) \<le> unat (ms_max_conns s))"

definition tasks_ok :: "mem_server \<Rightarrow> bool" where
  "tasks_ok s \<longleftrightarrow>
     (\<forall>i. ms_lock s = Some i \<longleftrightarrow> (\<exists>th. map_of (ms_threads s) i = Some th \<and> th_task th = FreeSub)) \<and>
     (\<forall>i th u. map_of (ms_threads s) i = Some th \<longrightarrow> th_task th = AllocCas u \<longrightarrow> u < ps_max_pages (ms_store s))"

definition store_ok :: "mem_server \<Rightarrow> bool" where
  "store_ok s \<longleftrightarrow> ps_ok (ms_store s) \<and> ps_next_offset (ms_store s) = of_nat (length (ms_issued s)) \<and>
     ms_issued s = map of_nat [0..<length (ms_issued s)] \<and>
     (\<not> ms_underflow s \<longrightarrow> ps_used (ms_store s) \<le> ps_max_pages (ms_store s))"

definition ms_ok :: "mem_server \<Rightarrow> bool" where
  "ms_ok s \<longleftrightarrow> conns_ok s \<and> tasks_ok s \<and> store_ok s"

lemma ms_ok_main: "ms_ok (memserver_main args)"
  by (simp add: ms_ok_def conns_ok_def tasks_ok_def store_ok_def memserver_main_def ps_ok_new) (simp add: ps_new_def)

text \<open>Replacing the state of a thread that is there.\<close>

lemma length_update_there: "map_of m k = Some v \<Longrightarrow> length (AList.update k v' m) = length m"
  by (auto simp: hm_length_insert)

lemma conns_ok_thread:
  "conns_ok s \<Longrightarrow> map_of (ms_threads s) i = Some th \<Longrightarrow> conns_ok (set_thread i th' s)"
  by (simp add: conns_ok_def length_update_there)

lemma tasks_ok_thread:
  assumes "tasks_ok s" and "map_of (ms_threads s) i = Some th" and "th_task th' = FreeSub \<longleftrightarrow> th_task th = FreeSub"
    and "\<And>u. th_task th' = AllocCas u \<Longrightarrow> u < ps_max_pages (ms_store s)"
  shows "tasks_ok (set_thread i th' s)"
  using assms by (auto simp: tasks_ok_def split: if_splits)

lemma store_ok_thread [simp]: "store_ok (set_thread i th s) = store_ok s"
  by (simp add: store_ok_def)

lemma ms_ok_thread:
  assumes "ms_ok s" and "map_of (ms_threads s) i = Some th" and "th_task th' = FreeSub \<longleftrightarrow> th_task th = FreeSub"
    and "\<And>u. th_task th' = AllocCas u \<Longrightarrow> u < ps_max_pages (ms_store s)"
  shows "ms_ok (set_thread i th' s)"
  using assms conns_ok_thread tasks_ok_thread [OF _ assms(2-4)] by (simp add: ms_ok_def)

lemma ms_ok_respond:
  "ms_ok s \<Longrightarrow> map_of (ms_threads s) i = Some t \<Longrightarrow> th_task t \<noteq> FreeSub \<Longrightarrow> ms_ok (respond i th out s)"
  unfolding respond_def by (rule ms_ok_thread [of s i t]) simp_all

text \<open>Replacing the store, when the limit stays.\<close>

lemma ms_ok_store:
  assumes "ms_ok s" and "ps_ok ps'" and "ps_max_pages ps' = ps_max_pages (ms_store s)"
    and "ps_next_offset ps' = ps_next_offset (ms_store s)"
    and "ps_used (ms_store s) \<le> ps_max_pages (ms_store s) \<Longrightarrow> ps_used ps' \<le> ps_max_pages (ms_store s)"
  shows "ms_ok (s\<lparr>ms_store := ps'\<rparr>)"
  using assms by (simp add: ms_ok_def conns_ok_def tasks_ok_def store_ok_def)

lemma accept_check_ok:
  assumes "ms_ok s" and "\<not> ms_admitting s"
  shows "ms_ok (accept_check s)"
proof -
  have "length (ms_threads s) < unat (ms_max_conns s)" if "0 < ms_max_conns s" "ms_active s < ms_max_conns s"
  proof -
    have "length (ms_threads s) < 2 ^ 64"
      using assms that(1) unsigned_less [of "ms_max_conns s", where ?'a = nat] by (simp add: ms_ok_def conns_ok_def)
    then have "unat (ms_active s) = length (ms_threads s)"
      using assms(1) unat_of_nat_len [of "length (ms_threads s)", where ?'a = 64] by (simp add: ms_ok_def conns_ok_def)
    then show ?thesis using that(2) by (simp add: word_less_nat_alt)
  qed
  then show ?thesis using assms
    by (auto simp: accept_check_def ms_ok_def conns_ok_def tasks_ok_def store_ok_def not_le)
qed

lemma accept_spawn_ok: "ms_ok s \<Longrightarrow> ms_admitting s \<Longrightarrow> map_of (ms_threads s) i = None \<Longrightarrow> ms_ok (accept_spawn i s)"
  by (auto simp: accept_spawn_def ms_ok_def conns_ok_def tasks_ok_def store_ok_def hm_length_insert split: if_splits)

lemma alloc_load_ok:
  "ms_ok s \<Longrightarrow> map_of (ms_threads s) i = Some th \<Longrightarrow> th_task th = AllocLoad \<Longrightarrow> ms_ok (alloc_load i th s)"
  by (auto simp: alloc_load_def Let_def not_le intro!: ms_ok_respond [of s i th] ms_ok_thread [of s i th])

lemma alloc_cas_ok:
  assumes "ms_ok s" and "map_of (ms_threads s) i = Some th" and "th_task th = AllocCas u"
  shows "ms_ok (alloc_cas i th u s)"
proof (cases "ps_used (ms_store s) = u")
  case True
  have "u < ps_max_pages (ms_store s)" using assms by (auto simp: ms_ok_def tasks_ok_def)
  then have "u + 1 \<le> ps_max_pages (ms_store s)" by (metis inc_le)
  moreover have "ps_ok ((ms_store s)\<lparr>ps_used := u + 1\<rparr>)" using assms(1) by (simp add: ms_ok_def store_ok_def ps_ok_def)
  ultimately have "ms_ok (s\<lparr>ms_store := (ms_store s)\<lparr>ps_used := u + 1\<rparr>\<rparr>)" using assms(1) by (intro ms_ok_store) simp_all
  then show ?thesis using True assms(2,3) ms_ok_thread [of "s\<lparr>ms_store := (ms_store s)\<lparr>ps_used := u + 1\<rparr>\<rparr>" i th "th\<lparr>th_task := AllocTake\<rparr>"]
    by (simp add: alloc_cas_def)
qed (use assms ms_ok_thread [of s i th "th\<lparr>th_task := AllocLoad\<rparr>"] in \<open>simp add: alloc_cas_def\<close>)

lemma alloc_take_ok:
  assumes "ms_ok s" and "map_of (ms_threads s) i = Some th" and "th_task th = AllocTake"
  shows "ms_ok (alloc_take i th s)"
proof -
  let ?o = "ps_next_offset (ms_store s)"
  let ?s = "s\<lparr>ms_store := (ms_store s)\<lparr>ps_next_offset := ?o + 1\<rparr>, ms_issued := ms_issued s @ [?o]\<rparr>"
  have "store_ok ?s" using assms(1) by (auto simp: ms_ok_def store_ok_def ps_ok_def)
  then have "ms_ok ?s" using assms(1) by (simp add: ms_ok_def conns_ok_def tasks_ok_def)
  then show ?thesis using assms(2,3) ms_ok_respond [of ?s i th] by (simp add: alloc_take_def Let_def)
qed

lemma free_remove_ok:
  assumes "ms_ok s" and "map_of (ms_threads s) i = Some t" and "th_task t = Serving" and "ms_lock s = None"
  shows "ms_ok (free_remove i th x s)"
proof (cases "map_of (ps_pages (ms_store s)) x")
  case None
  then show ?thesis using assms ms_ok_respond [of s i t] by (simp add: free_remove_def)
next
  case (Some d)
  have none: "th_task t' \<noteq> FreeSub" if "map_of (ms_threads s) j = Some t'" for j t'
    using assms(1,4) that by (auto simp: ms_ok_def tasks_ok_def)
  have "ps_ok ((ms_store s)\<lparr>ps_pages := AList.delete x (ps_pages (ms_store s))\<rparr>)"
    using assms(1) by (auto simp: ms_ok_def store_ok_def ps_ok_def hm_length_remove split: if_splits)
  then show ?thesis using assms Some none
    by (auto simp: free_remove_def ms_ok_def conns_ok_def tasks_ok_def store_ok_def length_update_there split: if_splits)
qed

lemma free_sub_ok:
  assumes "ms_ok s" and "map_of (ms_threads s) i = Some th" and "th_task th = FreeSub"
  shows "ms_ok (free_sub i th s)"
proof -
  have lock: "ms_lock s = Some i" using assms by (auto simp: ms_ok_def tasks_ok_def)
  then have none: "th_task t \<noteq> FreeSub" if "map_of (ms_threads s) j = Some t" "j \<noteq> i" for j t
    using assms(1) that by (auto simp: ms_ok_def tasks_ok_def)
  have "ps_used (ms_store s) - 1 \<le> ps_max_pages (ms_store s)"
    if "ps_used (ms_store s) \<noteq> 0" "ps_used (ms_store s) \<le> ps_max_pages (ms_store s)"
    using that by (simp add: word_le_nat_alt unat_minus_one)
  then show ?thesis using assms none
    by (auto simp: free_sub_def respond_def ms_ok_def conns_ok_def tasks_ok_def store_ok_def ps_ok_def length_update_there
        split: if_splits)
qed

lemma other_request:
  assumes "handle_request ps (op # rest) = Some (ps', out, rest')" and "op \<noteq> OP_ALLOC" and "op \<noteq> OP_FREE" and "ps_ok ps"
  shows "ps_ok ps' \<and> ps_max_pages ps' = ps_max_pages ps \<and> ps_next_offset ps' = ps_next_offset ps \<and> ps_used ps' = ps_used ps"
  using ps_ok_request [OF assms(1,4)] assms(1-3)
  by (auto simp: handle_request_def ps_store_def Let_def split: if_splits prod.splits option.splits)

lemma serve_step_ok:
  assumes "ms_ok s" and "map_of (ms_threads s) i = Some th" and "th_task th = Serving" and "serve_step i th s = Some s'"
  shows "ms_ok s'"
proof -
  obtain op rest where i: "th_in th = op # rest" using assms(4) by (auto simp: serve_step_def split: list.splits)
  consider "op = OP_ALLOC" | "op = OP_FREE" | "op \<noteq> OP_ALLOC" "op \<noteq> OP_FREE" by blast
  then show ?thesis
  proof cases
    case 1
    then show ?thesis using assms i ms_ok_thread [of s i th "th\<lparr>th_task := AllocLoad, th_in := rest\<rparr>"]
      by (auto simp: serve_step_def)
  next
    case 2
    then show ?thesis using assms i free_remove_ok [of s i th]
      by (auto simp: serve_step_def wire_consts split: if_splits)
  next
    case 3
    obtain ps' out rest' where h: "handle_request (ms_store s) (op # rest) = Some (ps', out, rest')"
      and s': "s' = respond i (th\<lparr>th_in := rest'\<rparr>) out (s\<lparr>ms_store := ps'\<rparr>)"
      using assms(4) i 3 by (auto simp: serve_step_def split: if_splits option.splits)
    have "ms_ok (s\<lparr>ms_store := ps'\<rparr>)"
      using other_request [OF h 3] assms(1) by (intro ms_ok_store) (auto simp: ms_ok_def store_ok_def)
    then show ?thesis unfolding s' by (rule ms_ok_respond [of _ i th]) (use assms(2,3) in simp_all)
  qed
qed

lemma close_ok:
  assumes "ms_ok s" and "map_of (ms_threads s) i = Some th" and "th_task th = Closing"
  shows "ms_ok (s\<lparr>ms_active := ms_active s - 1, ms_threads := AList.delete i (ms_threads s)\<rparr>)"
proof -
  have "length (ms_threads s) = Suc (length (AList.delete i (ms_threads s)))"
    using assms(1,2) by (intro hm_length_remove_Some) (auto simp: ms_ok_def conns_ok_def)
  moreover have "ms_lock s \<noteq> Some i" using assms by (auto simp: ms_ok_def tasks_ok_def)
  ultimately show ?thesis using assms(1)
    by (auto simp: ms_ok_def conns_ok_def tasks_ok_def store_ok_def split: if_splits)
qed

lemma thread_step_ok:
  assumes "ms_ok s" and "thread_step i s = Some s'"
  shows "ms_ok s'"
proof -
  obtain th where th: "map_of (ms_threads s) i = Some th" using assms(2) by (auto simp: thread_step_def split: option.splits)
  note T = assms(2) [unfolded thread_step_def th option.case(2)]
  show ?thesis
  proof (cases "th_task th")
    case Serving
    then show ?thesis using T by (intro serve_step_ok [OF assms(1) th]) simp_all
  next
    case AllocLoad
    then show ?thesis using T alloc_load_ok [OF assms(1) th] by simp
  next
    case (AllocCas u)
    then show ?thesis using T alloc_cas_ok [OF assms(1) th] by simp
  next
    case AllocTake
    then show ?thesis using T alloc_take_ok [OF assms(1) th] by simp
  next
    case FreeSub
    then show ?thesis using T free_sub_ok [OF assms(1) th] by simp
  next
    case Closing
    then show ?thesis using T close_ok [OF assms(1) th] by simp
  qed
qed

lemma request_limit: "handle_request ps input = Some (ps', out, rest) \<Longrightarrow> ps_max_pages ps' = ps_max_pages ps"
  by (erule handle_request_cases) (simp_all add: ps_ops)

lemmas step_defs = alloc_load_def alloc_cas_def alloc_take_def free_remove_def free_sub_def respond_def accept_check_def
  accept_spawn_def

lemma server_run_step_limits:
  assumes "server_run_step s s'"
  shows "ps_max_pages (ms_store s') = ps_max_pages (ms_store s) \<and> ms_max_conns s' = ms_max_conns s"
  using assms
proof cases
  case (runs i)
  then show ?thesis
    by (auto simp: thread_step_def serve_step_def step_defs Let_def dest: request_limit
        split: option.splits task.splits list.splits if_splits)
qed (auto simp: step_defs)

lemma server_run_step_ok:
  assumes "server_run_step s s'" and "ms_ok s"
  shows "ms_ok s'"
  using assms
proof cases
  case (receives i th bytes)
  then show ?thesis using assms(2) ms_ok_thread [of s i th "th\<lparr>th_in := th_in th @ bytes\<rparr>"]
    by (auto simp: ms_ok_def tasks_ok_def)
next
  case (ends i th)
  then show ?thesis using assms(2) ms_ok_thread [of s i th "th\<lparr>th_task := Closing\<rparr>"] by auto
qed (auto intro: thread_step_ok accept_check_ok accept_spawn_ok)

lemma server_reaches_ok:
  assumes "server_reaches (memserver_main args) s"
  shows "ms_ok s \<and> ps_max_pages (ms_store s) = arg_max_pages args \<and> ms_max_conns s = arg_max_connections args"
  using assms unfolding server_reaches_def
proof (induction rule: rtranclp_induct)
  case base
  show ?case using ms_ok_main [of args] by (simp add: memserver_main_def ps_new_def)
next
  case (step s s')
  then show ?case using server_run_step_ok server_run_step_limits by metis
qed

section \<open>Properties\<close>

text \<open>
  C8: however the threads of the memory server interleave, and whatever bytes its clients send, it keeps
  its limits: it holds at most \<^verbatim>\<open>max_pages\<close> pages, all of them whole, and serves at most
  \<^verbatim>\<open>max_connections\<close> connections when that is not 0, with \<^verbatim>\<open>active_conns\<close> the number of them. The count
  of reserved pages stays within the limit too, unless a client has freed a page that was never
  allocated, and at most one thread is inside the mutex.
\<close>

theorem server_keeps_limits:
  assumes "server_reaches (memserver_main args) s"
  shows "length (ps_pages (ms_store s)) \<le> unat (arg_max_pages args) \<and>
    (\<forall>x d. map_of (ps_pages (ms_store s)) x = Some d \<longrightarrow> is_page d) \<and>
    (arg_max_connections args > 0 \<longrightarrow>
       length (ms_threads s) \<le> unat (arg_max_connections args) \<and> unat (ms_active s) = length (ms_threads s)) \<and>
    (\<not> ms_underflow s \<longrightarrow> ps_used (ms_store s) \<le> arg_max_pages args) \<and>
    (\<forall>i j a b. map_of (ms_threads s) i = Some a \<longrightarrow> map_of (ms_threads s) j = Some b \<longrightarrow>
       th_task a = FreeSub \<longrightarrow> th_task b = FreeSub \<longrightarrow> i = j)"
proof -
  note R = server_reaches_ok [OF assms]
  have "unat (ms_active s) = length (ms_threads s)" if "arg_max_connections args > 0"
  proof -
    have "length (ms_threads s) < 2 ^ 64"
      using R that unsigned_less [of "ms_max_conns s", where ?'a = nat] by (auto simp: ms_ok_def conns_ok_def)
    then show ?thesis using R unat_of_nat_len [of "length (ms_threads s)", where ?'a = 64]
      by (simp add: ms_ok_def conns_ok_def)
  qed
  moreover have "i = j" if "map_of (ms_threads s) i = Some a" "map_of (ms_threads s) j = Some b"
    "th_task a = FreeSub" "th_task b = FreeSub" for i j a b
    using R that by (auto simp: ms_ok_def tasks_ok_def) (metis option.inject)
  ultimately show ?thesis using R by (auto simp: ms_ok_def conns_ok_def store_ok_def ps_ok_def split: if_splits)
qed

text \<open>
  C17: no two allocations of the server return the same offset, on whatever connections and however their
  compare-and-exchange loops interleave, until \<open>2\<^sup>6\<^sup>4\<close> of them have been made.
\<close>

theorem server_offsets_unique:
  assumes "server_reaches (memserver_main args) s" and "length (ms_issued s) < 2 ^ 64"
  shows "distinct (ms_issued s) \<and> (\<forall>x \<in> set (ms_issued s). x < ps_next_offset (ms_store s))"
proof -
  have i: "ms_issued s = map of_nat [0..<length (ms_issued s)]"
    and n: "ps_next_offset (ms_store s) = of_nat (length (ms_issued s))"
    using server_reaches_ok [OF assms(1)] by (simp_all add: ms_ok_def store_ok_def)
  have u: "unat (of_nat k :: u64) = k" if "k \<le> length (ms_issued s)" for k
    using assms(2) that by (intro unat_of_nat_len) simp
  have "inj_on (of_nat :: nat \<Rightarrow> u64) {0..<length (ms_issued s)}"
    using u by (metis atLeastLessThan_iff inj_onI less_imp_le)
  then have "distinct (map (of_nat :: nat \<Rightarrow> u64) [0..<length (ms_issued s)])" by (simp add: distinct_map)
  then have "distinct (ms_issued s)" using i by metis
  moreover have "x < ps_next_offset (ms_store s)" if "x \<in> set (ms_issued s)" for x
  proof -
    have "x \<in> of_nat ` {0..<length (ms_issued s)}" using that i by (metis set_map set_upt)
    then show ?thesis using n u by (auto simp: word_less_nat_alt)
  qed
  ultimately show ?thesis by blast
qed

text \<open>A thread that runs alone for a while.\<close>

primrec thread_steps :: "nat \<Rightarrow> nat \<Rightarrow> mem_server \<Rightarrow> mem_server option" where
  "thread_steps 0 i s = Some s"
| "thread_steps (Suc n) i s = (case thread_step i s of None \<Rightarrow> None | Some s' \<Rightarrow> thread_steps n i s')"

lemma alloc_alone:
  assumes "map_of (ms_threads s) i = Some th" and "th_task th = Serving" and "th_in th = OP_ALLOC # rest"
    and "handle_request (ms_store s) (th_in th) = Some (ps', out, rest')"
  shows "\<exists>n s'. thread_steps n i s = Some s' \<and> ms_store s' = ps' \<and> ms_lock s' = ms_lock s \<and>
    ms_threads s' = AList.update i \<lparr>th_task = Serving, th_in = rest', th_out = th_out th @ out\<rparr> (ms_threads s)"
proof (cases "ps_used (ms_store s) \<ge> ps_max_pages (ms_store s)")
  case True
  then have "ps' = ms_store s" "out = RESP_ERR # replicate 8 0" "rest' = rest"
    using assms(3,4) by (simp_all add: handle_alloc)
  then show ?thesis using True assms(1-3)
    by (intro exI [of _ "Suc (Suc 0)"]) (cases th, simp add: thread_step_def serve_step_def alloc_load_def respond_def Let_def)
next
  case False
  then have "ps' = (ms_store s)\<lparr>ps_used := ps_used (ms_store s) + 1, ps_next_offset := ps_next_offset (ms_store s) + 1\<rparr>"
    "out = RESP_OK # to_le_bytes (ps_next_offset (ms_store s))" "rest' = rest"
    using assms(3,4) by (simp_all add: handle_alloc)
  then show ?thesis using False assms(1-3)
    by (intro exI [of _ "Suc (Suc (Suc (Suc 0)))"])
      (cases th, simp add: thread_step_def serve_step_def alloc_load_def alloc_cas_def alloc_take_def respond_def Let_def)
qed

lemma free_alone:
  assumes "map_of (ms_threads s) i = Some th" and "th_task th = Serving" and "th_in th = OP_FREE # rest"
    and "handle_request (ms_store s) (th_in th) = Some (ps', out, rest')" and "ms_lock s = None"
  shows "\<exists>n s'. thread_steps n i s = Some s' \<and> ms_store s' = ps' \<and> ms_lock s' = ms_lock s \<and>
    ms_threads s' = AList.update i \<lparr>th_task = Serving, th_in = rest', th_out = th_out th @ out\<rparr> (ms_threads s)"
proof -
  let ?x = "from_le_bytes (take 8 rest)"
  have len: "\<not> length rest < 8" and r: "rest' = drop 8 rest" "ps' = snd (ps_free (ms_store s) ?x)"
    "out = [if fst (ps_free (ms_store s) ?x) then RESP_OK else RESP_ERR]"
    using assms(3,4) by (auto simp: handle_request_def wire_consts split: if_splits prod.splits)
  have ops: "OP_FREE \<noteq> OP_ALLOC" by (simp add: wire_consts)
  show ?thesis
  proof (cases "map_of (ps_pages (ms_store s)) ?x")
    case None
    then show ?thesis using len r ops assms(1-3,5)
      by (intro exI [of _ "Suc 0"]) (cases th, simp add: thread_step_def serve_step_def free_remove_def respond_def ps_free_def)
  next
    case (Some d)
    then show ?thesis using len r ops assms(1-3,5)
      by (intro exI [of _ "Suc (Suc 0)"])
        (cases th, simp add: thread_step_def serve_step_def free_remove_def free_sub_def respond_def ps_free_def)
  qed
qed


section \<open>Sample runs\<close>

text \<open>An executable schedule: which step of the server comes next.\<close>

datatype schedule = Arrives | Admits nat | Receives nat "u8 list" | Runs nat | Ends nat

fun schedule_step :: "schedule \<Rightarrow> mem_server \<Rightarrow> mem_server option" where
  "schedule_step Arrives s = (if ms_admitting s then None else Some (accept_check s))"
| "schedule_step (Admits i) s =
     (if ms_admitting s \<and> map_of (ms_threads s) i = None then Some (accept_spawn i s) else None)"
| "schedule_step (Receives i bytes) s =
     (case map_of (ms_threads s) i of None \<Rightarrow> None
      | Some th \<Rightarrow> Some (set_thread i (th\<lparr>th_in := th_in th @ bytes\<rparr>) s))"
| "schedule_step (Runs i) s = thread_step i s"
| "schedule_step (Ends i) s =
     (case map_of (ms_threads s) i of None \<Rightarrow> None
      | Some th \<Rightarrow> if th_task th = Serving then Some (set_thread i (th\<lparr>th_task := Closing\<rparr>) s) else None)"

fun schedule_run :: "schedule list \<Rightarrow> mem_server \<Rightarrow> mem_server option" where
  "schedule_run [] s = Some s"
| "schedule_run (x # xs) s = (case schedule_step x s of None \<Rightarrow> None | Some s' \<Rightarrow> schedule_run xs s')"

lemma schedule_step_sound: "schedule_step x s = Some s' \<Longrightarrow> server_run_step s s'"
  by (cases x) (auto intro: server_run_step.intros split: if_splits option.splits)

lemma schedule_run_sound: "schedule_run xs s = Some s' \<Longrightarrow> server_reaches s s'"
  unfolding server_reaches_def
  by (induction xs arbitrary: s)
    (auto split: option.splits dest: schedule_step_sound intro: converse_rtranclp_into_rtranclp)

text \<open>
  Two connections, a third one turned away, and two allocations that race: the second thread loses the
  compare-and-exchange, tries again, and takes its offset first.
\<close>

definition small_args :: mem_args where
  "small_args = default_args\<lparr>arg_max_pages := 2, arg_max_connections := 2\<rparr>"

definition race :: "schedule list" where
  "race = [Arrives, Admits 0, Arrives, Admits 1, Arrives, Receives 0 [OP_ALLOC], Receives 1 [OP_ALLOC],
     Runs 0, Runs 1, Runs 0, Runs 1, Runs 0, Runs 1, Runs 1, Runs 1, Runs 1, Runs 0]"

lemmas race_defs = memserver_main_def small_args_def default_args_def race_def ps_new_def step_defs thread_step_def
  serve_step_def idle_timeout_def

lemma race_runs:
  "\<exists>s. schedule_run race (memserver_main small_args) = Some s \<and> ms_issued s = [0, 1] \<and> length (ms_threads s) = 2 \<and>
     map_option th_out (map_of (ms_threads s) 1) = Some (RESP_OK # to_le_bytes 0)"
  by (simp add: race_defs word_le_nat_alt word_less_nat_alt)

theorem server_keeps_limits_witness:
  "\<exists>s. schedule_run race (memserver_main small_args) = Some s \<and> length (ms_threads s) = 2 \<and> unat (ms_active s) = 2 \<and>
     length (ps_pages (ms_store s)) \<le> 2"
proof -
  obtain s where s: "schedule_run race (memserver_main small_args) = Some s" "length (ms_threads s) = 2"
    using race_runs by blast
  show ?thesis using server_keeps_limits [OF schedule_run_sound [OF s(1)]] s
    by (auto simp: small_args_def default_args_def)
qed

theorem server_offsets_unique_witness:
  "\<exists>s. schedule_run race (memserver_main small_args) = Some s \<and> ms_issued s = [0, 1] \<and> distinct (ms_issued s) \<and>
     (\<forall>x \<in> set (ms_issued s). x < ps_next_offset (ms_store s))"
proof -
  obtain s where s: "schedule_run race (memserver_main small_args) = Some s" "ms_issued s = [0, 1]"
    using race_runs by blast
  show ?thesis using server_offsets_unique [OF schedule_run_sound [OF s(1)]] s by auto
qed


end
