(* ===== verification/Uffd.thy ===== *)
theory Uffd
  imports Protocol Raw_Memory
begin

unbundle bit_operations_syntax

text \<open>
  Page faults in user space: \<^verbatim>\<open>UffdRegion\<close> of \<^verbatim>\<open>crates/duvm-daemon/src/uffd.rs\<close> and the C helper
  \<^verbatim>\<open>uffd_helper.c\<close> beside it. The kernel's userfaultfd interface is not part of the sources: its calls
  are the fields of a record \<open>uffd_sys\<close> over a world \<open>'w\<close>. A kernel that implements them as the manual
  pages describe is given below.
\<close>

section \<open>Constants and layouts\<close>

definition UFFD_API :: u64 where "UFFD_API = 0xAA"
definition UFFDIO_API :: u64 where "UFFDIO_API = 0xC018AA3F"
definition UFFDIO_REGISTER :: u64 where "UFFDIO_REGISTER = 0xC020AA00"
definition UFFDIO_COPY :: u64 where "UFFDIO_COPY = 0xC028AA03"
definition UFFDIO_REGISTER_MODE_MISSING :: u64 where "UFFDIO_REGISTER_MODE_MISSING = push_bit 0 1"

definition uffdio_api_fields :: "c_field list" where
  "uffdio_api_fields = [(8, 8), (8, 8), (8, 8)]"

definition uffdio_range_fields :: "c_field list" where
  "uffdio_range_fields = [(8, 8), (8, 8)]"

definition uffdio_register_fields :: "c_field list" where
  "uffdio_register_fields = [(c_size 8 uffdio_range_fields, 8), (8, 8), (8, 8)]"

definition uffd_pagefault_fields :: "c_field list" where
  "uffd_pagefault_fields = [(8, 8), (8, 8), (4, 4)]"

text \<open>The union in the message is as large as its pad of four words.\<close>

definition uffd_msg_fields :: "c_field list" where
  "uffd_msg_fields = [(1, 1), (1, 1), (2, 2), (4, 4), (32, 8)]"

definition uffd_copy_fields :: "c_field list" where
  "uffd_copy_fields = [(8, 8), (8, 8), (8, 8), (8, 8), (8, 8)]"

text \<open>A fault message, as far as the code reads it.\<close>

record uffd_msg =
  msg_event :: u8
  msg_address :: u64

definition zeroed_msg :: uffd_msg where
  "zeroed_msg = \<lparr>msg_event = 0, msg_address = 0\<rparr>"

section \<open>The kernel's calls\<close>

text \<open>What \<^verbatim>\<open>read\<close> gives: a message, nothing (a return value of 0), \<^verbatim>\<open>EAGAIN\<close>, or another error.\<close>

datatype uffd_read = ReadMsg uffd_msg | ReadEof | WouldBlock | ReadFailed

text \<open>
  \<open>us_touch\<close> is an access of the program to a byte of its memory: it completes, or it faults and the
  thread waits until the page is there.
\<close>

record 'w uffd_sys =
  us_userfaultfd :: "bool \<Rightarrow> 'w \<Rightarrow> int \<times> 'w"
  us_ioctl_api :: "int \<Rightarrow> u64 \<Rightarrow> 'w \<Rightarrow> int \<times> 'w"
  us_mmap :: "usize \<Rightarrow> 'w \<Rightarrow> u64 option \<times> 'w"
  us_ioctl_register :: "int \<Rightarrow> u64 \<Rightarrow> u64 \<Rightarrow> u64 \<Rightarrow> 'w \<Rightarrow> int \<times> 'w"
  us_read :: "int \<Rightarrow> 'w \<Rightarrow> uffd_read \<times> 'w"
  us_ioctl_copy :: "int \<Rightarrow> u64 \<Rightarrow> u8 list \<Rightarrow> 'w \<Rightarrow> int \<times> 'w"
  us_munmap :: "u64 \<Rightarrow> usize \<Rightarrow> 'w \<Rightarrow> 'w"
  us_close :: "int \<Rightarrow> 'w \<Rightarrow> 'w"
  us_touch :: "u64 \<Rightarrow> 'w \<Rightarrow> bool \<times> 'w"

section \<open>UffdRegion\<close>

record uffd_region =
  ur_uffd :: int
  ur_base :: u64
  ur_len :: usize

datatype uffd_error = UffdSyscall | UffdApi | UffdMmap | UffdRegister | UffdRead | UffdCopy

definition align_size :: "usize \<Rightarrow> usize" where
  "align_size n = (n + 4096 - 1) AND NOT (4096 - 1)"

definition uffd_new :: "'w uffd_sys \<Rightarrow> usize \<Rightarrow> 'w \<Rightarrow> (uffd_error + uffd_region) \<times> 'w" where
  "uffd_new U n w =
     (let size = align_size n in
      case us_userfaultfd U True w of (uffd, w1) \<Rightarrow>
      if uffd < 0 then (Inl UffdSyscall, w1)
      else
        (case us_ioctl_api U uffd UFFD_API w1 of (ret, w2) \<Rightarrow>
         if ret < 0 then (Inl UffdApi, us_close U uffd w2)
         else
           (case us_mmap U size w2 of
              (None, w3) \<Rightarrow> (Inl UffdMmap, us_close U uffd w3)
            | (Some base, w3) \<Rightarrow>
                (case us_ioctl_register U uffd base size UFFDIO_REGISTER_MODE_MISSING w3 of (ret, w4) \<Rightarrow>
                 if ret < 0 then (Inl UffdRegister, us_close U uffd (us_munmap U base size w4))
                 else (Inr \<lparr>ur_uffd = uffd, ur_base = base, ur_len = size\<rparr>, w4)))))"

definition uffd_is_empty :: "uffd_region \<Rightarrow> bool" where
  "uffd_is_empty r \<longleftrightarrow> ur_len r = 0"

definition read_event :: "'w uffd_sys \<Rightarrow> uffd_region \<Rightarrow> 'w \<Rightarrow> (uffd_error + u64 option) \<times> 'w" where
  "read_event U r w =
     (case us_read U (ur_uffd r) w of
        (WouldBlock, w') \<Rightarrow> (Inr None, w')
      | (ReadFailed, w') \<Rightarrow> (Inl UffdRead, w')
      | (ReadEof, w') \<Rightarrow>
          (Inr (if msg_event zeroed_msg = 0 then Some (msg_address zeroed_msg) else None), w')
      | (ReadMsg msg, w') \<Rightarrow> (Inr (if msg_event msg = 0 then Some (msg_address msg) else None), w'))"

definition resolve_fault ::
  "'w uffd_sys \<Rightarrow> uffd_region \<Rightarrow> u64 \<Rightarrow> page \<Rightarrow> 'w \<Rightarrow> (uffd_error + unit) \<times> 'w" where
  "resolve_fault U r fault_addr d w =
     (let page_addr = fault_addr AND NOT 0xFFF in
      case us_ioctl_copy U (ur_uffd r) page_addr d w of (ret, w') \<Rightarrow>
      if ret < 0 then (Inl UffdCopy, w') else (Inr (), w'))"

definition uffd_drop :: "'w uffd_sys \<Rightarrow> uffd_region \<Rightarrow> 'w \<Rightarrow> 'w" where
  "uffd_drop U r w = us_close U (ur_uffd r) (us_munmap U (ur_base r) (ur_len r) w)"

section \<open>The C helper\<close>

definition duvm_uffd_create :: "'w uffd_sys \<Rightarrow> 'w \<Rightarrow> int \<times> 'w" where
  "duvm_uffd_create U w = us_userfaultfd U False w"

definition duvm_uffd_api :: "'w uffd_sys \<Rightarrow> int \<Rightarrow> 'w \<Rightarrow> int \<times> 'w" where
  "duvm_uffd_api U uffd w = us_ioctl_api U uffd UFFD_API w"

definition duvm_uffd_register :: "'w uffd_sys \<Rightarrow> int \<Rightarrow> u64 \<Rightarrow> u64 \<Rightarrow> 'w \<Rightarrow> int \<times> 'w" where
  "duvm_uffd_register U uffd start len w = us_ioctl_register U uffd start len UFFDIO_REGISTER_MODE_MISSING w"

definition duvm_uffd_copy :: "'w uffd_sys \<Rightarrow> int \<Rightarrow> u64 \<Rightarrow> u8 list \<Rightarrow> 'w \<Rightarrow> int \<times> 'w" where
  "duvm_uffd_copy U uffd dst src w = us_ioctl_copy U uffd dst src w"

definition duvm_uffd_read_fault :: "'w uffd_sys \<Rightarrow> int \<Rightarrow> 'w \<Rightarrow> u64 \<times> 'w" where
  "duvm_uffd_read_fault U uffd w =
     (case us_read U uffd w of
        (ReadMsg msg, w') \<Rightarrow> if msg_event msg \<noteq> 0 then (0, w') else (msg_address msg, w')
      | (r, w') \<Rightarrow> (0, w'))"

text \<open>The page cache: the globals of the helper. \<open>None\<close> is the null pointer.\<close>

record page_cache =
  g_page_cache :: "page list option"
  g_cache_capacity :: int
  g_cache_size :: int

definition cache_start :: page_cache where
  "cache_start = \<lparr>g_page_cache = None, g_cache_capacity = 0, g_cache_size = 0\<rparr>"

text \<open>\<open>allocates\<close> says whether \<^verbatim>\<open>calloc\<close> finds the memory.\<close>

definition duvm_cache_init :: "bool \<Rightarrow> int \<Rightarrow> page_cache \<Rightarrow> int \<times> page_cache" where
  "duvm_cache_init allocates max_pages c =
     (if \<not> allocates then (- 1, c\<lparr>g_page_cache := None\<rparr>)
      else (0, \<lparr>g_page_cache = Some (replicate (nat max_pages) (replicate PAGE_SIZE 0)),
                g_cache_capacity = max_pages, g_cache_size = 0\<rparr>))"

definition duvm_cache_set_page :: "int \<Rightarrow> page \<Rightarrow> page_cache \<Rightarrow> page_cache" where
  "duvm_cache_set_page idx d c =
     (case g_page_cache c of
        None \<Rightarrow> c
      | Some ps \<Rightarrow>
          if idx \<ge> 0 \<and> idx < g_cache_capacity c
          then c\<lparr>g_page_cache := Some (ps[nat idx := d]),
                 g_cache_size := (if idx \<ge> g_cache_size c then idx + 1 else g_cache_size c)\<rparr>
          else c)"

definition cache_resolver :: "page_cache \<Rightarrow> int \<Rightarrow> page \<Rightarrow> page" where
  "cache_resolver c idx buf =
     (case g_page_cache c of
        Some ps \<Rightarrow> if idx \<ge> 0 \<and> idx < g_cache_size c then ps ! nat idx else replicate PAGE_SIZE 0
      | None \<Rightarrow> replicate PAGE_SIZE 0)"

text \<open>Without a resolver the page gets a pattern; the remainder in C has the sign of the index.\<close>

definition pattern_resolver :: "int \<Rightarrow> page \<Rightarrow> page" where
  "pattern_resolver idx buf = replicate PAGE_SIZE (of_int (sgn idx * (\<bar>idx\<bar> mod 251)))"

text \<open>
  One round of \<^verbatim>\<open>uffd_handler_thread\<close>: \<open>None\<close> when the read fails and the thread ends. The buffer \<open>src\<close>
  is static, and the result of the copy is ignored.
\<close>

definition handle_fault ::
  "'w uffd_sys \<Rightarrow> int \<Rightarrow> u64 \<Rightarrow> (int \<Rightarrow> page \<Rightarrow> page) \<Rightarrow> page \<Rightarrow> 'w \<Rightarrow> (page \<times> 'w) option" where
  "handle_fault U uffd base resolver src w =
     (case us_read U uffd w of
        (ReadMsg msg, w1) \<Rightarrow>
          let pa = msg_address msg AND NOT (4096 - 1);
              idx = sint (ucast ((pa - base) div 4096) :: i32);
              src' = resolver idx src
          in (case us_ioctl_copy U uffd pa src' w1 of (ret, w2) \<Rightarrow> Some (src', w2))
      | (_, w1) \<Rightarrow> None)"

text \<open>
  The loop over the pages in the main thread, with the handler thread that serves up to \<open>budget\<close>
  faults; \<open>None\<close> is a main thread that waits for ever. The result counts the faults.
\<close>

fun touch_pages ::
  "'w uffd_sys \<Rightarrow> int \<Rightarrow> u64 \<Rightarrow> (int \<Rightarrow> page \<Rightarrow> page) \<Rightarrow> nat \<Rightarrow> nat \<Rightarrow> nat \<Rightarrow> page \<Rightarrow> nat \<Rightarrow> 'w
   \<Rightarrow> (nat \<times> nat \<times> 'w) option" where
  "touch_pages U uffd base resolver 0 i budget src faults w = Some (budget, faults, w)"
| "touch_pages U uffd base resolver (Suc n) i budget src faults w =
     (case us_touch U (base + of_nat i * 4096) w of
        (True, w1) \<Rightarrow> touch_pages U uffd base resolver n (Suc i) budget src faults w1
      | (False, w1) \<Rightarrow>
          if budget = 0 then None
          else
            (case handle_fault U uffd base resolver src w1 of
               None \<Rightarrow> None
             | Some (src', w2) \<Rightarrow>
                 (case us_touch U (base + of_nat i * 4096) w2 of
                    (False, w3) \<Rightarrow> None
                  | (True, w3) \<Rightarrow>
                      touch_pages U uffd base resolver n (Suc i) (budget - 1) src' (Suc faults) w3)))"

text \<open>
  \<^verbatim>\<open>duvm_uffd_run\<close>: the return code, the number of faults and the base address. The final \<^verbatim>\<open>pthread_join\<close>
  waits for the handler, which ends when it has served as many faults as there are pages.
\<close>

definition duvm_uffd_run ::
  "'w uffd_sys \<Rightarrow> i32 \<Rightarrow> (int \<Rightarrow> page \<Rightarrow> page) \<Rightarrow> 'w \<Rightarrow> (int \<times> nat \<times> u64 option \<times> 'w) option" where
  "duvm_uffd_run U num_pages resolver w =
     (case us_userfaultfd U False w of (uffd, w1) \<Rightarrow>
      if uffd < 0 then Some (- 1, 0, None, w1)
      else
        (case us_ioctl_api U uffd UFFD_API w1 of (ret, w2) \<Rightarrow>
         if ret < 0 then Some (- 2, 0, None, us_close U uffd w2)
         else
           let region_size = scast num_pages * 4096 in
           (case us_mmap U region_size w2 of
              (None, w3) \<Rightarrow> Some (- 3, 0, None, us_close U uffd w3)
            | (Some base, w3) \<Rightarrow>
                (case us_ioctl_register U uffd base region_size UFFDIO_REGISTER_MODE_MISSING w3 of (ret, w4) \<Rightarrow>
                 if ret < 0 then Some (- 4, 0, None, us_close U uffd (us_munmap U base region_size w4))
                 else
                   let n = nat (sint num_pages) in
                   (case touch_pages U uffd base resolver n 0 n (replicate PAGE_SIZE 0) 0 w4 of
                      None \<Rightarrow> None
                    | Some (budget, faults, w5) \<Rightarrow>
                        if budget > 0 then None
                        else Some (0, faults, Some base, us_close U uffd w5))))))"

definition duvm_uffd_run_cached :: "'w uffd_sys \<Rightarrow> page_cache \<Rightarrow> i32 \<Rightarrow> 'w \<Rightarrow> (int \<times> nat \<times> u64 option \<times> 'w) option" where
  "duvm_uffd_run_cached U c num_pages w = duvm_uffd_run U num_pages (cache_resolver c) w"

text \<open>The demo runs the same steps with the pattern, and unmaps the region before it returns.\<close>

definition duvm_uffd_run_demo :: "'w uffd_sys \<Rightarrow> i32 \<Rightarrow> 'w \<Rightarrow> (int \<times> nat \<times> 'w) option" where
  "duvm_uffd_run_demo U num_pages w =
     (case duvm_uffd_run U num_pages pattern_resolver w of
        None \<Rightarrow> None
      | Some (ret, faults, None, w') \<Rightarrow> Some (ret, faults, w')
      | Some (ret, faults, Some base, w') \<Rightarrow> Some (ret, faults, us_munmap U base (scast num_pages * 4096) w'))"

text \<open>The time a run took, from two readings of the clock in seconds and nanoseconds, in \<^verbatim>\<open>unsigned long\<close>.\<close>

definition elapsed_us :: "u64 \<times> u64 \<Rightarrow> u64 \<times> u64 \<Rightarrow> u64" where
  "elapsed_us t0 t1 = (fst t1 - fst t0) * 1000000 + (snd t1 - snd t0) div 1000"

section \<open>Sizes\<close>

text \<open>The parts of an \<^verbatim>\<open>ioctl\<close> number: the size of the argument, the type and the direction.\<close>

definition ioctl_size :: "u64 \<Rightarrow> u64" where
  "ioctl_size n = drop_bit 16 n AND 0x3FFF"

definition ioctl_type :: "u64 \<Rightarrow> u64" where
  "ioctl_type n = drop_bit 8 n AND 0xFF"

text \<open>
  The request numbers of the three \<^verbatim>\<open>ioctl\<close> calls carry the sizes of the structs that are passed with
  them and the type of userfaultfd, and the address of a fault lies 16 bytes into a message.
\<close>

theorem ioctl_numbers_match:
  "ioctl_size UFFDIO_API = of_nat (c_size 8 uffdio_api_fields) \<and>
   ioctl_size UFFDIO_REGISTER = of_nat (c_size 8 uffdio_register_fields) \<and>
   ioctl_size UFFDIO_COPY = of_nat (c_size 8 uffd_copy_fields) \<and>
   ioctl_type UFFDIO_API = UFFD_API \<and> ioctl_type UFFDIO_REGISTER = UFFD_API \<and> ioctl_type UFFDIO_COPY = UFFD_API \<and>
   c_offsets 0 uffd_msg_fields ! 4 + c_offsets 0 uffd_pagefault_fields ! 1 = 16"
  by (simp add: ioctl_size_def ioctl_type_def UFFDIO_API_def UFFDIO_REGISTER_def UFFDIO_COPY_def UFFD_API_def
      uffdio_api_fields_def uffdio_register_fields_def uffdio_range_fields_def uffd_copy_fields_def uffd_msg_fields_def
      uffd_pagefault_fields_def c_size_def round_up_to_def Let_def)

text \<open>
  The time is right when the nanoseconds did not wrap around in between, and off by more than five
  centuries when they did.
\<close>

lemma elapsed_us_exact:
  assumes "unat (fst t0) \<le> unat (fst t1)" and "unat (snd t0) \<le> unat (snd t1)" and "unat (snd t1) < 10 ^ 9"
    and "(unat (fst t1) - unat (fst t0)) * 10 ^ 6 < 2 ^ 63"
  shows "unat (elapsed_us t0 t1) =
    (unat (fst t1) * 10 ^ 9 + unat (snd t1) - (unat (fst t0) * 10 ^ 9 + unat (snd t0))) div 1000"
proof -
  define s where "s = unat (fst t1) - unat (fst t0)"
  define n where "n = unat (snd t1) - unat (snd t0)"
  have "unat (fst t1 - fst t0) = s" "unat (snd t1 - snd t0) = n"
    using assms by (simp_all add: s_def n_def unat_sub word_le_nat_alt)
  moreover have "s * 1000000 + n div 1000 < 2 ^ 64" using assms(3,4) by (simp add: s_def n_def)
  ultimately have "unat (elapsed_us t0 t1) = s * 1000000 + n div 1000"
    unfolding elapsed_us_def unat_word_ariths unat_div_distrib by simp
  moreover have "unat (fst t1) * 10 ^ 9 + unat (snd t1) - (unat (fst t0) * 10 ^ 9 + unat (snd t0)) = n + 1000 * (s * 1000000)"
    using assms by (simp add: s_def n_def algebra_simps)
  ultimately show ?thesis by simp
qed

lemma elapsed_us_wraps: "elapsed_us (0, 999999000) (1, 0) = 18446744073709552"
  by (simp add: elapsed_us_def)

section \<open>What the code relies on\<close>

text \<open>
  The file descriptors and mappings a process holds, and what the calls do to them: a call that fails
  takes nothing, a call that succeeds takes something new, and \<^verbatim>\<open>close\<close> and \<^verbatim>\<open>munmap\<close> give it back.
\<close>

locale uffd_kernel =
  fixes U :: "'w uffd_sys" and fds :: "'w \<Rightarrow> int set" and maps :: "'w \<Rightarrow> (u64 \<times> usize) set"
  assumes create_law: "us_userfaultfd U nb w = (fd, w') \<Longrightarrow> maps w' = maps w \<and>
      (if fd < 0 then fds w' = fds w else fd \<notin> fds w \<and> fds w' = insert fd (fds w))"
    and api_law: "us_ioctl_api U fd a w = (ret, w') \<Longrightarrow> fds w' = fds w \<and> maps w' = maps w"
    and mmap_law: "us_mmap U n w = (p, w') \<Longrightarrow> fds w' = fds w \<and>
      (case p of None \<Rightarrow> maps w' = maps w
       | Some b \<Rightarrow> (b, n) \<notin> maps w \<and> maps w' = insert (b, n) (maps w))"
    and register_law: "us_ioctl_register U fd b n m w = (ret, w') \<Longrightarrow> fds w' = fds w \<and> maps w' = maps w"
    and read_law: "us_read U fd w = (r, w') \<Longrightarrow> fds w' = fds w \<and> maps w' = maps w"
    and copy_law: "us_ioctl_copy U fd a d w = (ret, w') \<Longrightarrow> fds w' = fds w \<and> maps w' = maps w"
    and touch_law: "us_touch U a w = (t, w') \<Longrightarrow> fds w' = fds w \<and> maps w' = maps w"
    and munmap_law: "fds (us_munmap U b n w) = fds w \<and> maps (us_munmap U b n w) = maps w - {(b, n)}"
    and close_law: "fds (us_close U fd w) = fds w - {fd} \<and> maps (us_close U fd w) = maps w"
begin

lemma new_law:
  assumes "uffd_new U n w = (r, w')"
  shows "case r of Inl e \<Rightarrow> fds w' = fds w \<and> maps w' = maps w
    | Inr g \<Rightarrow> ur_len g = align_size n \<and> ur_uffd g \<notin> fds w \<and> (ur_base g, ur_len g) \<notin> maps w \<and>
        fds w' = insert (ur_uffd g) (fds w) \<and> maps w' = insert (ur_base g, ur_len g) (maps w)"
proof -
  obtain fd w1 where c: "us_userfaultfd U True w = (fd, w1)" by (rule prod.exhaust)
  obtain ret w2 where a: "us_ioctl_api U fd UFFD_API w1 = (ret, w2)" by (rule prod.exhaust)
  obtain p w3 where m: "us_mmap U (align_size n) w2 = (p, w3)" by (rule prod.exhaust)
  note L = create_law [OF c] api_law [OF a] mmap_law [OF m]
  show ?thesis
  proof (cases "fd < 0 \<or> ret < 0 \<or> p = None")
    case True
    then show ?thesis using assms L close_law
      by (cases "fd < 0"; cases "ret < 0") (auto simp: uffd_new_def c a m Let_def)
  next
    case False
    then obtain b where b: "p = Some b" "\<not> fd < 0" "\<not> ret < 0" by blast
    obtain ret2 w4 where g: "us_ioctl_register U fd b (align_size n) UFFDIO_REGISTER_MODE_MISSING w3 = (ret2, w4)"
      by (rule prod.exhaust)
    show ?thesis using assms L register_law [OF g] close_law munmap_law b
      by (cases "ret2 < 0") (auto simp: uffd_new_def c a m g Let_def)
  qed
qed

lemma drop_law: "fds (uffd_drop U r w) = fds w - {ur_uffd r}" "maps (uffd_drop U r w) = maps w - {(ur_base r, ur_len r)}"
  using munmap_law close_law by (simp_all add: uffd_drop_def)

lemma handle_law: "handle_fault U fd b f src w = Some (src', w') \<Longrightarrow> fds w' = fds w \<and> maps w' = maps w"
  by (auto simp: handle_fault_def Let_def split: uffd_read.splits prod.splits dest!: read_law copy_law)

lemma touch_pages_law:
  "touch_pages U fd b f n i k src c w = Some (k', c', w') \<Longrightarrow> fds w' = fds w \<and> maps w' = maps w"
proof (induction n arbitrary: i k src c w)
  case (Suc n)
  obtain t w1 where t: "us_touch U (b + of_nat i * 4096) w = (t, w1)" by (rule prod.exhaust)
  show ?case
  proof (cases t)
    case True
    with Suc.prems t Suc.IH touch_law [OF t] show ?thesis by simp
  next
    case False
    then obtain src' w2 where h: "handle_fault U fd b f src w1 = Some (src', w2)"
      using Suc.prems t by (auto split: if_splits option.splits)
    obtain t' w3 where t': "us_touch U (b + of_nat i * 4096) w2 = (t', w3)" by (rule prod.exhaust)
    have "touch_pages U fd b f n (Suc i) (k - 1) src' (Suc c) w3 = Some (k', c', w')"
      using Suc.prems t False h t' by (auto split: if_splits bool.splits)
    with Suc.IH touch_law [OF t] handle_law [OF h] touch_law [OF t'] show ?thesis by simp
  qed
qed simp

lemma run_law:
  assumes "duvm_uffd_run U n f w = Some (ret, c, p, w')"
  shows "fds w' = fds w \<and> maps w' = (case p of None \<Rightarrow> maps w | Some b \<Rightarrow> insert (b, scast n * 4096) (maps w)) \<and>
    (ret = 0 \<longleftrightarrow> p \<noteq> None) \<and> (\<forall>b. p = Some b \<longrightarrow> (b, scast n * 4096) \<notin> maps w)"
proof -
  obtain fd w1 where cr: "us_userfaultfd U False w = (fd, w1)" by (rule prod.exhaust)
  obtain r w2 where a: "us_ioctl_api U fd UFFD_API w1 = (r, w2)" by (rule prod.exhaust)
  obtain q w3 where m: "us_mmap U (scast n * 4096) w2 = (q, w3)" by (rule prod.exhaust)
  note L = create_law [OF cr] api_law [OF a] mmap_law [OF m]
  show ?thesis
  proof (cases "fd < 0 \<or> r < 0 \<or> q = None")
    case True
    then show ?thesis using assms L close_law
      by (cases "fd < 0"; cases "r < 0") (auto simp: duvm_uffd_run_def cr a m Let_def)
  next
    case False
    then obtain b where b: "q = Some b" "\<not> fd < 0" "\<not> r < 0" by blast
    obtain r2 w4 where g: "us_ioctl_register U fd b (scast n * 4096) UFFDIO_REGISTER_MODE_MISSING w3 = (r2, w4)"
      by (rule prod.exhaust)
    note G = register_law [OF g]
    show ?thesis
    proof (cases "r2 < 0")
      case True
      then show ?thesis using assms L G b close_law munmap_law by (auto simp: duvm_uffd_run_def cr a m g Let_def)
    next
      case False
      then obtain k w5 where t: "touch_pages U fd b f (nat (sint n)) 0 (nat (sint n)) (replicate PAGE_SIZE 0) 0 w4 = Some (k, c, w5)"
        and e: "ret = 0" "p = Some b" "w' = us_close U fd w5"
        using assms b by (auto simp: duvm_uffd_run_def cr a m g Let_def split: option.splits if_splits)
      show ?thesis using L G b close_law touch_pages_law [OF t] by (auto simp: e)
    qed
  qed
qed

end

section \<open>A kernel\<close>

text \<open>
  A kernel that keeps the contract. Which of its calls fail is a function of their number. The page
  faults it reports carry \<^verbatim>\<open>UFFD_EVENT_PAGEFAULT\<close>, which is \<open>0x12\<close> in \<^verbatim>\<open>linux/userfaultfd.h\<close>.
\<close>

record ukernel =
  uk_fds :: "int list"
  uk_maps :: "(u64 \<times> usize) list"
  uk_brk :: u64
  uk_watched :: "(int \<times> u64 \<times> u64) list"
  uk_mem :: memory
  uk_present :: "u64 list"
  uk_events :: "uffd_msg list"
  uk_fails :: "nat \<Rightarrow> bool"
  uk_step :: nat

definition UFFD_EVENT_PAGEFAULT :: u8 where
  "UFFD_EVENT_PAGEFAULT = 0x12"

abbreviation uk_next :: "ukernel \<Rightarrow> ukernel" where
  "uk_next w \<equiv> w\<lparr>uk_step := Suc (uk_step w)\<rparr>"

definition page_base :: "u64 \<Rightarrow> u64" where
  "page_base a = a AND NOT 0xFFF"

definition watched :: "ukernel \<Rightarrow> u64 \<Rightarrow> bool" where
  "watched w a \<longleftrightarrow> (\<exists>(fd, b, n) \<in> set (uk_watched w). unat b \<le> unat a \<and> unat a < unat b + unat n)"

definition uk_userfaultfd :: "bool \<Rightarrow> ukernel \<Rightarrow> int \<times> ukernel" where
  "uk_userfaultfd nb w =
     (if uk_fails w (uk_step w) then (- 1, uk_next w)
      else let fd = fold max (uk_fds w) 2 + 1 in (fd, (uk_next w)\<lparr>uk_fds := fd # uk_fds w\<rparr>))"

definition uk_status :: "ukernel \<Rightarrow> int \<times> ukernel" where
  "uk_status w = (if uk_fails w (uk_step w) then - 1 else 0, uk_next w)"

definition uk_mmap :: "usize \<Rightarrow> ukernel \<Rightarrow> u64 option \<times> ukernel" where
  "uk_mmap n w =
     (let b = uk_brk w in
      if uk_fails w (uk_step w) \<or> n = 0 \<or> unat b + unat n > 2 ^ 47 \<or> b \<in> fst ` set (uk_maps w) then (None, uk_next w)
      else (Some b, (uk_next w)\<lparr>uk_maps := (b, n) # uk_maps w, uk_brk := b + n\<rparr>))"

definition uk_register :: "int \<Rightarrow> u64 \<Rightarrow> u64 \<Rightarrow> u64 \<Rightarrow> ukernel \<Rightarrow> int \<times> ukernel" where
  "uk_register fd b n m w =
     (if uk_fails w (uk_step w) \<or> fd \<notin> set (uk_fds w) then (- 1, uk_next w)
      else (0, (uk_next w)\<lparr>uk_watched := (fd, b, n) # uk_watched w\<rparr>))"

definition uk_read :: "int \<Rightarrow> ukernel \<Rightarrow> uffd_read \<times> ukernel" where
  "uk_read fd w =
     (if uk_fails w (uk_step w) then (ReadFailed, uk_next w)
      else (case uk_events w of
              [] \<Rightarrow> (WouldBlock, uk_next w)
            | m # ms \<Rightarrow> (ReadMsg m, (uk_next w)\<lparr>uk_events := ms\<rparr>)))"

definition uk_copy :: "int \<Rightarrow> u64 \<Rightarrow> u8 list \<Rightarrow> ukernel \<Rightarrow> int \<times> ukernel" where
  "uk_copy fd a d w =
     (if uk_fails w (uk_step w) \<or> fd \<notin> set (uk_fds w) \<or> page_base a \<noteq> a \<or> \<not> watched w a \<or> a \<in> set (uk_present w)
      then (- 1, uk_next w)
      else (0, (uk_next w)\<lparr>uk_mem := mem_put a d (uk_mem w), uk_present := a # uk_present w\<rparr>))"

definition uk_munmap :: "u64 \<Rightarrow> usize \<Rightarrow> ukernel \<Rightarrow> ukernel" where
  "uk_munmap b n w =
     w\<lparr>uk_maps := filter (\<lambda>m. m \<noteq> (b, n)) (uk_maps w), uk_watched := filter (\<lambda>(_, m). m \<noteq> (b, n)) (uk_watched w),
       uk_present := filter (\<lambda>a. \<not> (unat b \<le> unat a \<and> unat a < unat b + unat n)) (uk_present w)\<rparr>"

definition uk_close :: "int \<Rightarrow> ukernel \<Rightarrow> ukernel" where
  "uk_close fd w =
     w\<lparr>uk_fds := filter (\<lambda>f. f \<noteq> fd) (uk_fds w), uk_watched := filter (\<lambda>(f, _). f \<noteq> fd) (uk_watched w)\<rparr>"

definition uk_touch :: "u64 \<Rightarrow> ukernel \<Rightarrow> bool \<times> ukernel" where
  "uk_touch a w =
     (if page_base a \<in> set (uk_present w) then (True, w)
      else if watched w a then
        (False, w\<lparr>uk_events := uk_events w @ [\<lparr>msg_event = UFFD_EVENT_PAGEFAULT, msg_address = a\<rparr>]\<rparr>)
      else (True, w\<lparr>uk_present := page_base a # uk_present w\<rparr>))"

definition uk_sys :: "ukernel uffd_sys" where
  "uk_sys = \<lparr>us_userfaultfd = uk_userfaultfd, us_ioctl_api = (\<lambda>_ _. uk_status), us_mmap = uk_mmap,
     us_ioctl_register = uk_register, us_read = uk_read, us_ioctl_copy = uk_copy, us_munmap = uk_munmap,
     us_close = uk_close, us_touch = uk_touch\<rparr>"

lemma uk_sys_simps [simp]:
  "us_userfaultfd uk_sys = uk_userfaultfd" "us_ioctl_api uk_sys fd a = uk_status" "us_mmap uk_sys = uk_mmap"
  "us_ioctl_register uk_sys = uk_register" "us_read uk_sys = uk_read" "us_ioctl_copy uk_sys = uk_copy"
  "us_munmap uk_sys = uk_munmap" "us_close uk_sys = uk_close" "us_touch uk_sys = uk_touch"
  by (simp_all add: uk_sys_def)

lemmas uk_ops = uk_userfaultfd_def uk_status_def uk_mmap_def uk_register_def uk_read_def uk_copy_def uk_munmap_def
  uk_close_def uk_touch_def

abbreviation uk_fd_set :: "ukernel \<Rightarrow> int set" where
  "uk_fd_set w \<equiv> set (uk_fds w)"

abbreviation uk_map_set :: "ukernel \<Rightarrow> (u64 \<times> usize) set" where
  "uk_map_set w \<equiv> set (uk_maps w)"

lemma fresh_fd: "fold max xs 2 + 1 \<notin> set xs" "\<not> fold max xs (2 :: int) + 1 < 0"
proof -
  have "fold max xs 2 = Max (set (2 # xs))" by (rule Max.set_eq_fold [symmetric])
  then have ge: "x \<le> fold max xs 2" if "x \<in> set (2 # xs)" for x using that by (metis List.finite_set Max_ge)
  show "fold max xs 2 + 1 \<notin> set xs" using ge [of "fold max xs 2 + 1"] by auto
  show "\<not> fold max xs (2 :: int) + 1 < 0" using ge [of 2] by simp
qed

interpretation uk: uffd_kernel uk_sys uk_fd_set uk_map_set
proof (unfold_locales, goal_cases)
  case (1 nb w fd w')
  then show ?case using fresh_fd [of "uk_fds w"] by (auto simp: uk_userfaultfd_def Let_def split: if_splits)
next
  case (3 n w p w')
  then show ?case by (force simp: uk_mmap_def Let_def split: if_splits)
qed (auto simp: uk_ops split: if_splits list.splits)

section \<open>Properties\<close>

text \<open>
  C23: \<^verbatim>\<open>UffdRegion::new\<close> is all or nothing: whichever of its calls fails, the descriptor and the mapping are
  given back, and on success it holds one new descriptor and one new mapping, of the requested size
  rounded up to whole pages, both of which \<^verbatim>\<open>drop\<close> gives back.
\<close>

theorem uffd_new_all_or_nothing:
  assumes "uffd_new uk_sys n w = (r, w')" and "unat n + 4095 < 2 ^ 64"
  shows "case r of Inl e \<Rightarrow> uk_fd_set w' = uk_fd_set w \<and> uk_map_set w' = uk_map_set w
    | Inr g \<Rightarrow> unat (ur_len g) = (unat n + 4095) div 4096 * 4096 \<and>
        uk_fd_set w' = insert (ur_uffd g) (uk_fd_set w) \<and> ur_uffd g \<notin> uk_fd_set w \<and>
        uk_map_set w' = insert (ur_base g, ur_len g) (uk_map_set w) \<and>
        uk_fd_set (uffd_drop uk_sys g w') = uk_fd_set w \<and> uk_map_set (uffd_drop uk_sys g w') = uk_map_set w"
proof -
  have "unat (n + 4095) = unat n + 4095" using assms(2) by (simp add: unat_word_ariths)
  then have "unat (align_size n) = (unat n + 4095) div 4096 * 4096"
    using unat_page_start [of "n + 4095"] by (simp add: align_size_def add_diff_eq [symmetric])
  then show ?thesis using uk.new_law [OF assms(1)] by (cases r) (auto simp: uk.drop_law)
qed

text \<open>
  A fault that is resolved: the page that contains the faulting address holds the bytes given, no
  other byte of memory changes, and the access that faulted goes through. The page lies inside the
  region when the address does.
\<close>

lemma page_base_nat: "unat (page_base a) = unat a div 4096 * 4096"
proof -
  have "NOT (0xFFF :: u64) = - 4096" by simp
  then show ?thesis using unat_page_start [of a] by (simp only: page_base_def)
qed

theorem uffd_fault_resolved:
  assumes "resolve_fault uk_sys g a d w = (Inr (), w')" and "is_page d"
    and "4096 dvd unat (ur_base g)" and "4096 dvd unat (ur_len g)"
    and "unat (ur_base g) \<le> unat a" and "unat a < unat (ur_base g) + unat (ur_len g)"
  shows "mem_get (page_base a) PAGE_SIZE (uk_mem w') = d \<and>
    (\<forall>x. \<not> unat (x - page_base a) < PAGE_SIZE \<longrightarrow> uk_mem w' x = uk_mem w x) \<and>
    unat (ur_base g) \<le> unat (page_base a) \<and> unat (page_base a) + PAGE_SIZE \<le> unat (ur_base g) + unat (ur_len g) \<and>
    unat (page_base a) \<le> unat a \<and> unat a < unat (page_base a) + PAGE_SIZE \<and> fst (uk_touch a w')"
proof -
  have c: "uk_copy (ur_uffd g) (page_base a) d w = (0, w')"
    using assms(1) by (auto simp: resolve_fault_def Let_def page_base_def uk_copy_def split: if_splits prod.splits)
  then have w': "uk_mem w' = mem_put (page_base a) d (uk_mem w)" "page_base a \<in> set (uk_present w')"
    by (auto simp: uk_copy_def split: if_splits)
  obtain k l where k: "unat (ur_base g) = 4096 * k" "unat (ur_len g) = 4096 * l" using assms(3,4) by (auto elim!: dvdE)
  define q where "q = unat a div 4096"
  have q: "unat a = 4096 * q + unat a mod 4096" "unat a mod 4096 < 4096" "unat (page_base a) = 4096 * q"
    unfolding q_def page_base_nat by simp_all
  have "k \<le> q" using div_le_mono [OF assms(5), of 4096] by (simp add: k q_def)
  moreover have "q < k + l" using assms(6) unfolding q_def by (intro less_mult_imp_div_less) (simp add: k)
  ultimately have "unat (ur_base g) \<le> unat (page_base a) \<and> unat (page_base a) + 4096 \<le> unat (ur_base g) + unat (ur_len g) \<and>
      unat (page_base a) \<le> unat a \<and> unat a < unat (page_base a) + 4096"
    using q unfolding k by linarith
  moreover have "mem_get (page_base a) PAGE_SIZE (uk_mem w') = d"
    using w'(1) assms(2) by (simp add: is_page_def PAGE_SIZE_def mem_get_put)
  moreover have "uk_mem w' x = uk_mem w x" if "\<not> unat (x - page_base a) < PAGE_SIZE" for x
    using that w'(1) assms(2) by (simp add: is_page_def mem_put_def)
  ultimately show ?thesis using w'(2) by (simp add: PAGE_SIZE_def uk_touch_def)
qed

text \<open>
  C37: \<^verbatim>\<open>read_event\<close> takes 0 for the code of a page fault. A kernel reports page faults with the code
  \<open>0x12\<close>, so that the fault of an access is read, answered with \<open>None\<close>, and gone: the access
  never completes. The C function \<^verbatim>\<open>duvm_uffd_read_fault\<close> loses it the same way.
\<close>

theorem uffd_fault_lost:
  assumes "watched w a" and "page_base a \<notin> set (uk_present w)" and "uk_events w = []" and "\<not> uk_fails w (uk_step w)"
  shows "\<exists>w1 w2. uk_touch a w = (False, w1) \<and> read_event uk_sys g w1 = (Inr None, w2) \<and> uk_events w2 = [] \<and>
    page_base a \<notin> set (uk_present w2) \<and> duvm_uffd_read_fault uk_sys fd w1 = (0, w2)"
  using assms by (simp add: uk_touch_def read_event_def duvm_uffd_read_fault_def uk_read_def UFFD_EVENT_PAGEFAULT_def)

section \<open>Serving a region from the cache\<close>

text \<open>The pages of a region that starts at a page boundary and does not wrap.\<close>

lemma region_page:
  assumes "4096 dvd unat b" and "unat b + N * 4096 \<le> 2 ^ 47" and "j < N" and "N < 2 ^ 31"
  defines "a \<equiv> b + of_nat j * 4096 :: u64"
  shows "unat a = unat b + j * 4096" and "page_base a = a"
    and "sint (ucast ((a - b) div 4096) :: i32) = int j"
proof -
  have j: "Suc j * 4096 \<le> N * 4096" by (rule mult_le_mono1) (use assms(3) in simp)
  have "unat (of_nat j :: u64) = j" using assms(3,4) by (intro unat_of_nat_len) simp
  moreover have "j * 4096 < 2 ^ 64" using j assms(2) by simp
  ultimately have m: "unat (of_nat j * 4096 :: u64) = j * 4096" using unat_mult_small [of "of_nat j :: u64" 4096] by simp
  then show a: "unat a = unat b + j * 4096"
    unfolding a_def using unat_add_small [of b "of_nat j * 4096"] j assms(2) by simp
  obtain k where k: "unat b = 4096 * k" using assms(1) by (auto elim: dvdE)
  have "unat a div 4096 * 4096 = unat a" unfolding a k by simp
  then show "page_base a = a" by (metis page_base_nat word_unat_eq_iff)
  have "unat ((a - b) div 4096) = j" unfolding a_def by (simp add: unat_div m)
  then have "(a - b) div 4096 = of_nat j" using \<open>unat (of_nat j :: u64) = j\<close> by (simp add: word_unat_eq_iff)
  moreover have "sint (of_nat j :: i32) = int j"
    using assms(3,4) by (simp add: signed_of_nat signed_take_bit_int_eq_self)
  moreover have "(ucast (of_nat j :: u64) :: i32) = of_nat j"
    using \<open>unat (of_nat j :: u64) = j\<close> by (metis of_nat_unat)
  ultimately show "sint (ucast ((a - b) div 4096) :: i32) = int j" by simp
qed

text \<open>The state of the kernel when the first \<open>i\<close> pages have been served with the pages \<open>g\<close>.\<close>

definition pages_served :: "int \<Rightarrow> u64 \<Rightarrow> nat \<Rightarrow> (nat \<Rightarrow> page) \<Rightarrow> nat \<Rightarrow> ukernel \<Rightarrow> bool" where
  "pages_served fd b N g i w \<longleftrightarrow>
     (\<forall>k. \<not> uk_fails w k) \<and> fd \<in> uk_fd_set w \<and> (\<exists>n. unat n = N * 4096 \<and> (fd, b, n) \<in> set (uk_watched w)) \<and>
     uk_events w = [] \<and> (\<forall>j. i \<le> j \<longrightarrow> j < N \<longrightarrow> b + of_nat j * 4096 \<notin> set (uk_present w)) \<and>
     (\<forall>j < i. mem_get (b + of_nat j * 4096) PAGE_SIZE (uk_mem w) = g j)"

lemma serve_page:
  assumes "pages_served fd b N g i w" and "i < N" and "4096 dvd unat b" and "unat b + N * 4096 \<le> 2 ^ 47" and "N < 2 ^ 31"
    and "\<And>j src. f (int j) src = g j" and "\<And>j. is_page (g j)"
  shows "\<exists>w1 w2. uk_touch (b + of_nat i * 4096) w = (False, w1) \<and>
    handle_fault uk_sys fd b f src w1 = Some (g i, w2) \<and> uk_touch (b + of_nat i * 4096) w2 = (True, w2) \<and>
    pages_served fd b N g (Suc i) w2"
proof -
  let ?a = "\<lambda>j. b + of_nat j * 4096 :: u64"
  note A = region_page [OF assms(3,4) _ assms(5)]
  note ai = A [OF assms(2)]
  have S: "\<And>k. \<not> uk_fails w k" "fd \<in> uk_fd_set w" "uk_events w = []" "?a i \<notin> set (uk_present w)"
    using assms(1,2) by (auto simp: pages_served_def)
  obtain n where n: "unat n = N * 4096" "(fd, b, n) \<in> set (uk_watched w)" using assms(1) by (auto simp: pages_served_def)
  have lt: "i * 4096 < N * 4096" using assms(2) by simp
  have wt: "watched w (?a i)" unfolding watched_def using n lt ai(1) by (intro bexI [of _ "(fd, b, n)"]) auto
  define w1 where "w1 = w\<lparr>uk_events := [\<lparr>msg_event = UFFD_EVENT_PAGEFAULT, msg_address = ?a i\<rparr>]\<rparr>"
  define w2 where "w2 = w\<lparr>uk_step := Suc (Suc (uk_step w)), uk_mem := mem_put (?a i) (g i) (uk_mem w), uk_present := ?a i # uk_present w\<rparr>"
  have t1: "uk_touch (?a i) w = (False, w1)" using S(3,4) wt ai(2) by (simp add: uk_touch_def w1_def)
  have r: "uk_read fd w1 = (ReadMsg \<lparr>msg_event = UFFD_EVENT_PAGEFAULT, msg_address = ?a i\<rparr>, w\<lparr>uk_step := Suc (uk_step w)\<rparr>)"
    using S(1,3) by (simp add: uk_read_def w1_def)
  have c: "uk_copy fd (?a i) (g i) (w\<lparr>uk_step := Suc (uk_step w)\<rparr>) = (0, w2)"
    using S(1,2,4) ai(2) wt by (simp add: uk_copy_def w2_def watched_def)
  have "?a i AND NOT (4096 - 1) = ?a i" using ai(2) by (simp add: page_base_def)
  then have h: "handle_fault uk_sys fd b f src w1 = Some (g i, w2)"
    using r c ai(3) assms(6) by (simp add: handle_fault_def Let_def)
  have ne: "?a j \<noteq> ?a i" if "j < N" "j \<noteq> i" for j using A(1) [OF that(1)] ai(1) that(2) by auto
  have "mem_get (?a j) PAGE_SIZE (uk_mem w2) = g j" if "j < Suc i" for j
  proof (cases "j = i")
    case True
    then show ?thesis using assms(7) [of i] by (simp add: w2_def mem_get_put is_page_def PAGE_SIZE_def)
  next
    case False
    then have j: "j < i" "j < N" using that assms(2) by auto
    have "Suc j * 4096 \<le> i * 4096" "Suc i * 4096 \<le> N * 4096" using j(1) assms(2) by (intro mult_le_mono1; simp)+
    then have "ranges_apart (?a i) (length (g i)) (?a j) PAGE_SIZE"
      using A(1) [OF j(2)] ai(1) assms(4) assms(7) [of i] by (simp add: ranges_apart_def is_page_def PAGE_SIZE_def)
    then show ?thesis using j(1) assms(1) by (simp add: w2_def mem_get_put_apart pages_served_def)
  qed
  then have "pages_served fd b N g (Suc i) w2" using assms(1) ne S n by (auto simp: pages_served_def w2_def)
  moreover have "uk_touch (?a i) w2 = (True, w2)" using ai(2) by (simp add: uk_touch_def w2_def)
  ultimately show ?thesis using t1 h by blast
qed

lemma touch_all:
  assumes "pages_served fd b N g i w" and "i + k = N" and "4096 dvd unat b" and "unat b + N * 4096 \<le> 2 ^ 47" and "N < 2 ^ 31"
    and "\<And>j src. f (int j) src = g j" and "\<And>j. is_page (g j)"
  shows "\<exists>w'. touch_pages uk_sys fd b f k i k src c w = Some (0, c + k, w') \<and> pages_served fd b N g N w'"
  using assms(1,2)
proof (induction k arbitrary: i src c w)
  case (Suc k)
  then have "i < N" by simp
  from serve_page [where f = f and src = src, OF Suc.prems(1) this assms(3-7)]
  obtain w1 w2 where s: "uk_touch (b + of_nat i * 4096) w = (False, w1)"
    "handle_fault uk_sys fd b f src w1 = Some (g i, w2)" "uk_touch (b + of_nat i * 4096) w2 = (True, w2)"
    "pages_served fd b N g (Suc i) w2"
    by blast
  from Suc.IH [OF s(4), of "g i" "Suc c"] Suc.prems(2) s show ?case by auto
qed simp

definition cached_page :: "page_cache \<Rightarrow> nat \<Rightarrow> page" where
  "cached_page c i = cache_resolver c (int i) []"


section \<open>Sample runs\<close>

definition uk_start :: "(nat \<Rightarrow> bool) \<Rightarrow> ukernel" where
  "uk_start fails = \<lparr>uk_fds = [], uk_maps = [], uk_brk = 65536, uk_watched = [], uk_mem = (\<lambda>_. 0), uk_present = [],
     uk_events = [], uk_fails = fails, uk_step = 0\<rparr>"

text \<open>A region of two pages, for a program that asked for 5000 bytes.\<close>

definition sample_region :: uffd_region where
  "sample_region = \<lparr>ur_uffd = 3, ur_base = 65536, ur_len = 8192\<rparr>"

definition uk_region :: ukernel where
  "uk_region = (uk_start (\<lambda>_. False))\<lparr>uk_fds := [3], uk_maps := [(65536, 8192)], uk_brk := 73728, uk_step := 4,
     uk_watched := [(3, 65536, 8192)]\<rparr>"

lemma sample_new: "uffd_new uk_sys 5000 (uk_start (\<lambda>_. False)) = (Inr sample_region, uk_region)"
  by (simp add: uffd_new_def align_size_def uk_start_def uk_userfaultfd_def uk_status_def uk_mmap_def uk_register_def
      sample_region_def uk_region_def Let_def)

theorem uffd_new_all_or_nothing_witness:
  "uffd_new uk_sys 5000 (uk_start (\<lambda>_. False)) = (Inr sample_region, uk_region) \<and>
   uk_fd_set (uffd_drop uk_sys sample_region uk_region) = {} \<and> uk_map_set (uffd_drop uk_sys sample_region uk_region) = {}"
  using uffd_new_all_or_nothing [OF sample_new] sample_new by (simp add: uk_start_def)

theorem uffd_fault_resolved_witness:
  "\<exists>w'. resolve_fault uk_sys sample_region 70000 (replicate 4096 7) uk_region = (Inr (), w') \<and>
     mem_get 69632 PAGE_SIZE (uk_mem w') = replicate 4096 7"
proof -
  have b: "page_base 70000 = 69632" by (simp add: page_base_def)
  have w: "watched uk_region 69632" by (simp add: watched_def uk_region_def)
  have r: "\<exists>w'. resolve_fault uk_sys sample_region 70000 (replicate 4096 7) uk_region = (Inr (), w')"
    using w by (simp add: resolve_fault_def uk_copy_def sample_region_def page_base_def uk_region_def uk_start_def)
  then obtain w' where "resolve_fault uk_sys sample_region 70000 (replicate 4096 7) uk_region = (Inr (), w')" by blast
  from uffd_fault_resolved [OF this is_page_replicate] this show ?thesis
    unfolding b by (auto simp: sample_region_def)
qed

theorem uffd_fault_lost_witness:
  "\<exists>w1 w2. uk_touch 70000 uk_region = (False, w1) \<and> read_event uk_sys sample_region w1 = (Inr None, w2) \<and> uk_events w2 = []"
proof -
  have "watched uk_region 70000" by (simp add: watched_def uk_region_def)
  then show ?thesis
    using uffd_fault_lost [of uk_region 70000 sample_region 3] by (auto simp: uk_region_def uk_start_def)
qed

definition sample_cache :: page_cache where
  "sample_cache = duvm_cache_set_page 1 (replicate 4096 7) (snd (duvm_cache_init True 4 cache_start))"

lemma sample_cached: "cached_page sample_cache i = (if i = 1 then replicate 4096 7 else replicate PAGE_SIZE 0)"
  by (auto simp: cached_page_def cache_resolver_def sample_cache_def duvm_cache_set_page_def duvm_cache_init_def
      less_2_cases_iff)


end
