(* ===== verification/Ctl_Node.thy ===== *)
theory Ctl_Node
  imports Std_Text "HOL-Library.Sublist"
begin

text \<open>
  The node commands of \<^verbatim>\<open>crates/duvm-ctl/src/main.rs\<close>: \<^verbatim>\<open>enable\<close>, \<^verbatim>\<open>disable\<close> and \<^verbatim>\<open>drain\<close>. They run the system's
  own tools, which are not part of the sources: the calls are the fields of a record \<open>node_sys\<close> over a
  world \<open>'w\<close>. A node on which the tools do what their manual pages say, unless they fail, is given
  below. What the commands print is left out.
\<close>

section \<open>The system\<close>

text \<open>A command cannot be started, or it runs and its exit status is a success or not.\<close>

datatype run_result = NotStarted | Exited bool

record 'w node_sys =
  ns_is_root :: "'w \<Rightarrow> bool"
  ns_run :: "string \<Rightarrow> string list \<Rightarrow> 'w \<Rightarrow> run_result \<times> 'w"
  ns_read_file :: "string \<Rightarrow> 'w \<Rightarrow> string option"
  ns_exists :: "string \<Rightarrow> 'w \<Rightarrow> bool"

definition MODPROBE :: string where "MODPROBE = ''/sbin/modprobe''"
definition INSMOD :: string where "INSMOD = ''/sbin/insmod''"
definition RMMOD :: string where "RMMOD = ''/sbin/rmmod''"
definition MKSWAP :: string where "MKSWAP = ''/sbin/mkswap''"
definition SWAPON :: string where "SWAPON = ''/sbin/swapon''"
definition SWAPOFF :: string where "SWAPOFF = ''/sbin/swapoff''"
definition SYSTEMCTL :: string where "SYSTEMCTL = ''/usr/bin/systemctl''"

lemmas tool_paths = MODPROBE_def INSMOD_def RMMOD_def MKSWAP_def SWAPON_def SWAPOFF_def SYSTEMCTL_def

datatype ctl_error = NeedsRoot | CommandFailed string "string list" | DeviceMissing | ModuleNotFound

definition run_ok :: "'w node_sys \<Rightarrow> string \<Rightarrow> string list \<Rightarrow> 'w \<Rightarrow> (ctl_error + unit) \<times> 'w" where
  "run_ok S cmd args w =
     (case ns_run S cmd args w of
        (Exited True, w') \<Rightarrow> (Inr (), w')
      | (_, w') \<Rightarrow> (Inl (CommandFailed cmd args), w'))"

text \<open>\<^verbatim>\<open>str::lines\<close>, whose last line may lack its newline.\<close>

definition text_lines :: "string \<Rightarrow> string list" where
  "text_lines s = (let ls = split_on CHR 0x0A s in if last ls = [] then butlast ls else ls)"

definition is_module_loaded :: "'w node_sys \<Rightarrow> 'w \<Rightarrow> bool" where
  "is_module_loaded S w =
     (case ns_read_file S ''/proc/modules'' w of
        Some s \<Rightarrow> list_ex (\<lambda>l. prefix ''duvm_kmod '' l) (text_lines s)
      | None \<Rightarrow> False)"

definition is_swap_active :: "'w node_sys \<Rightarrow> 'w \<Rightarrow> bool" where
  "is_swap_active S w =
     (case ns_read_file S ''/proc/swaps'' w of
        Some s \<Rightarrow> list_ex (\<lambda>l. sublist ''duvm_swap'' l) (text_lines s)
      | None \<Rightarrow> False)"

definition is_service_active :: "'w node_sys \<Rightarrow> string \<Rightarrow> 'w \<Rightarrow> bool \<times> 'w" where
  "is_service_active S name w =
     (case ns_run S SYSTEMCTL [''is-active'', ''--quiet'', name] w of (r, w') \<Rightarrow> (r = Exited True, w'))"

definition check_root :: "'w node_sys \<Rightarrow> 'w \<Rightarrow> ctl_error + unit" where
  "check_root S w = (if \<not> ns_is_root S w then Inl NeedsRoot else Inr ())"

definition find_kmod_path :: "'w node_sys \<Rightarrow> 'w \<Rightarrow> ctl_error + string" where
  "find_kmod_path S w =
     (case List.find (\<lambda>p. ns_exists S p w) [''/lib/modules/duvm-kmod.ko'', ''/usr/local/lib/duvm-kmod.ko''] of
        Some p \<Rightarrow> Inr p
      | None \<Rightarrow>
          (case ns_read_file S ''/proc/sys/kernel/osrelease'' w of
             Some uname \<Rightarrow>
               let path = ''/lib/modules/'' @ trim uname @ ''/extra/duvm-kmod.ko'' in
               if ns_exists S path w then Inr path else Inl ModuleNotFound
           | None \<Rightarrow> Inl ModuleNotFound))"

section \<open>The commands\<close>

definition SWAP_DEVICE :: string where "SWAP_DEVICE = ''/dev/duvm_swap0''"

text \<open>Step 1 of \<^verbatim>\<open>enable\<close>: \<^verbatim>\<open>modprobe\<close>, and \<^verbatim>\<open>insmod\<close> when that fails.\<close>

definition load_module :: "'w node_sys \<Rightarrow> u64 \<Rightarrow> 'w \<Rightarrow> (ctl_error + unit) \<times> 'w" where
  "load_module S size_mb w =
     (let size_arg = ''size_mb='' @ show_nat (unat size_mb) in
      case run_ok S MODPROBE [''duvm-kmod'', size_arg] w of
        (Inr u, w1) \<Rightarrow> (Inr (), w1)
      | (Inl e, w1) \<Rightarrow>
          (case find_kmod_path S w1 of
             Inl e' \<Rightarrow> (Inl e', w1)
           | Inr ko_path \<Rightarrow> run_ok S INSMOD [ko_path, size_arg] w1))"

text \<open>A service is started or stopped if it is not so already; a failure is only a warning.\<close>

definition start_service :: "'w node_sys \<Rightarrow> string \<Rightarrow> 'w \<Rightarrow> 'w" where
  "start_service S name w =
     (case is_service_active S name w of
        (True, w1) \<Rightarrow> w1
      | (False, w1) \<Rightarrow> snd (run_ok S SYSTEMCTL [''start'', name] w1))"

definition stop_service :: "'w node_sys \<Rightarrow> string \<Rightarrow> 'w \<Rightarrow> 'w" where
  "stop_service S name w =
     (case is_service_active S name w of
        (True, w1) \<Rightarrow> snd (run_ok S SYSTEMCTL [''stop'', name] w1)
      | (False, w1) \<Rightarrow> w1)"

text \<open>\<open>priority\<close> is the decimal text of the \<^verbatim>\<open>i32\<close>.\<close>

definition cmd_enable :: "'w node_sys \<Rightarrow> string \<Rightarrow> u64 \<Rightarrow> 'w \<Rightarrow> (ctl_error + unit) \<times> 'w" where
  "cmd_enable S priority size_mb w =
     (case check_root S w of
        Inl e \<Rightarrow> (Inl e, w)
      | Inr u \<Rightarrow>
          (case (if is_module_loaded S w then (Inr (), w) else load_module S size_mb w) of
             (Inl e, w1) \<Rightarrow> (Inl e, w1)
           | (Inr u1, w1) \<Rightarrow>
               if \<not> ns_exists S SWAP_DEVICE w1 then (Inl DeviceMissing, w1)
               else
                 (case (if is_swap_active S w1 then (Inr (), w1) else run_ok S MKSWAP [SWAP_DEVICE] w1) of
                    (Inl e, w2) \<Rightarrow> (Inl e, w2)
                  | (Inr u2, w2) \<Rightarrow>
                      let w3 = start_service S ''duvm-memserver'' w2; w4 = start_service S ''duvm-daemon'' w3 in
                      if is_swap_active S w4 then (Inr (), w4)
                      else run_ok S SWAPON [''-p'', priority, SWAP_DEVICE] w4)))"

definition cmd_disable :: "'w node_sys \<Rightarrow> 'w \<Rightarrow> (ctl_error + unit) \<times> 'w" where
  "cmd_disable S w =
     (case check_root S w of
        Inl e \<Rightarrow> (Inl e, w)
      | Inr u \<Rightarrow>
          (case (if is_swap_active S w then run_ok S SWAPOFF [SWAP_DEVICE] w else (Inr (), w)) of
             (Inl e, w1) \<Rightarrow> (Inl e, w1)
           | (Inr u1, w1) \<Rightarrow>
               let w2 = stop_service S ''duvm-daemon'' w1; w3 = stop_service S ''duvm-memserver'' w2 in
               if is_module_loaded S w3 then run_ok S RMMOD [''duvm_kmod''] w3 else (Inr (), w3)))"

definition cmd_drain :: "'w node_sys \<Rightarrow> 'w \<Rightarrow> (ctl_error + unit) \<times> 'w" where
  "cmd_drain S w =
     (case check_root S w of
        Inl e \<Rightarrow> (Inl e, w)
      | Inr u \<Rightarrow>
          if \<not> is_swap_active S w then (Inr (), w) else run_ok S SWAPOFF [SWAP_DEVICE] w)"

section \<open>A node\<close>

text \<open>
  The state of a node as the tools see it. \<open>nd_remote\<close> counts the pages the kernel has swapped out to
  the device; \<open>nd_fails\<close> says which commands fail, by their number; \<open>nd_proc\<close> says whether the files
  of \<^verbatim>\<open>/proc\<close> can be read. The last two fields are a history: whether the daemon was ever stopped or the
  module unloaded with pages swapped out, and whether the device was ever formatted while active.
\<close>

record node =
  nd_root :: bool
  nd_proc :: bool
  nd_module :: bool
  nd_formatted :: bool
  nd_swap :: bool
  nd_remote :: nat
  nd_daemon :: bool
  nd_memserver :: bool
  nd_fails :: "nat \<Rightarrow> bool"
  nd_step :: nat
  nd_stranded :: bool
  nd_clobbered :: bool

abbreviation nd_next :: "node \<Rightarrow> node" where
  "nd_next n \<equiv> n\<lparr>nd_step := Suc (nd_step n)\<rparr>"

definition node_service :: "string \<Rightarrow> string \<Rightarrow> node \<Rightarrow> bool \<times> node" where
  "node_service verb name n =
     (if name = ''duvm-daemon'' then
        (if verb = ''start'' then (True, n\<lparr>nd_daemon := True\<rparr>)
         else (True, n\<lparr>nd_daemon := False, nd_stranded := (nd_stranded n \<or> nd_swap n \<and> nd_remote n > 0)\<rparr>))
      else if name = ''duvm-memserver'' then (True, n\<lparr>nd_memserver := (verb = ''start'')\<rparr>)
      else (False, n))"

definition node_tool :: "string \<Rightarrow> string list \<Rightarrow> node \<Rightarrow> bool \<times> node" where
  "node_tool cmd args n =
     (if cmd = MODPROBE \<or> cmd = INSMOD then (True, n\<lparr>nd_module := True\<rparr>)
      else if cmd = MKSWAP then
        (nd_module n \<and> \<not> nd_swap n,
         n\<lparr>nd_formatted := (nd_formatted n \<or> nd_module n), nd_clobbered := (nd_clobbered n \<or> nd_swap n)\<rparr>)
      else if cmd = SWAPON then
        (if nd_module n \<and> nd_formatted n \<and> \<not> nd_swap n then (True, n\<lparr>nd_swap := True\<rparr>) else (False, n))
      else if cmd = SWAPOFF then
        (if nd_swap n then (True, n\<lparr>nd_swap := False, nd_remote := 0\<rparr>) else (False, n))
      else if cmd = RMMOD then
        (if nd_swap n then (False, n)
         else (nd_module n, n\<lparr>nd_module := False, nd_formatted := False\<rparr>))
      else if cmd = SYSTEMCTL then
        (case args of
           [verb, name] \<Rightarrow> node_service verb name n
         | [verb, q, name] \<Rightarrow>
             (if name = ''duvm-daemon'' then nd_daemon n else nd_memserver n, n)
         | _ \<Rightarrow> (False, n))
      else (False, n))"

definition node_run :: "string \<Rightarrow> string list \<Rightarrow> node \<Rightarrow> run_result \<times> node" where
  "node_run cmd args n =
     (if nd_fails n (nd_step n) then (NotStarted, nd_next n)
      else (case node_tool cmd args (nd_next n) of (status, n') \<Rightarrow> (Exited status, n')))"

definition swaps_header :: string where "swaps_header = ''Filename Type Size Used Priority''"
definition swaps_entry :: string where "swaps_entry = ''/dev/'' @ ''duvm_swap'' @ ''0 partition 4194300 0 100''"

definition modules_entry :: "bool \<Rightarrow> string" where
  "modules_entry loaded = (if loaded then ''duvm_kmod 45056 1 - Live'' else ''ext4 1003520 1 - Live'')"

definition node_file :: "string \<Rightarrow> node \<Rightarrow> string option" where
  "node_file path n =
     (if \<not> nd_proc n then None
      else if path = ''/proc/modules'' then
        Some (modules_entry (nd_module n) @ [CHR 0x0A])
      else if path = ''/proc/swaps'' then
        Some (swaps_header @ CHR 0x0A # (if nd_swap n then swaps_entry @ [CHR 0x0A] else []))
      else None)"

definition node_verbs :: "node node_sys" where
  "node_verbs = \<lparr>ns_is_root = nd_root, ns_run = node_run, ns_read_file = node_file,
     ns_exists = (\<lambda>path n. path = SWAP_DEVICE \<and> nd_module n)\<rparr>"

lemma node_verbs_simps [simp]:
  "ns_is_root node_verbs = nd_root" "ns_run node_verbs = node_run" "ns_read_file node_verbs = node_file"
  "ns_exists node_verbs path n \<longleftrightarrow> path = SWAP_DEVICE \<and> nd_module n"
  by (simp_all add: node_verbs_def)

text \<open>What the commands read off \<^verbatim>\<open>/proc\<close> is the state of the node.\<close>

lemma swaps_lines:
  "sublist ''duvm_swap'' swaps_entry" "\<not> sublist ''duvm_swap'' swaps_header"
  "CHR 0x0A \<notin> set swaps_header" "CHR 0x0A \<notin> set swaps_entry"
proof -
  show "sublist ''duvm_swap'' swaps_entry" unfolding swaps_entry_def by (rule sublist_appendI)
  have "CHR ''v'' \<notin> set swaps_header" by (simp add: swaps_header_def)
  then show "\<not> sublist ''duvm_swap'' swaps_header"
    using set_mono_sublist [of "''duvm_swap''" swaps_header] by auto
qed (simp_all add: swaps_header_def swaps_entry_def)

lemma swap_active_node: "is_swap_active node_verbs n \<longleftrightarrow> nd_proc n \<and> nd_swap n"
proof -
  have "text_lines (swaps_header @ [CHR 0x0A]) = [swaps_header]"
    "text_lines (swaps_header @ CHR 0x0A # swaps_entry @ [CHR 0x0A]) = [swaps_header, swaps_entry]"
    using swaps_lines(3,4) by (simp_all add: text_lines_def split_on_append Let_def)
  then show ?thesis using swaps_lines(1,2) by (simp add: is_swap_active_def node_file_def)
qed

lemma module_loaded_node: "is_module_loaded node_verbs n \<longleftrightarrow> nd_proc n \<and> nd_module n"
proof -
  have "CHR 0x0A \<notin> set (modules_entry m)" for m by (simp add: modules_entry_def)
  then have "text_lines (modules_entry m @ [CHR 0x0A]) = [modules_entry m]" for m
    by (simp add: text_lines_def split_on_append Let_def)
  moreover have "prefix ''duvm_kmod '' (modules_entry m) \<longleftrightarrow> m" for m by (simp add: modules_entry_def)
  ultimately show ?thesis by (simp add: is_module_loaded_def node_file_def)
qed

section \<open>Properties\<close>

text \<open>What the tools and the service commands do to the node.\<close>

lemma run_ok_node:
  "run_ok node_verbs cmd args n =
     (if nd_fails n (nd_step n) then (Inl (CommandFailed cmd args), nd_next n)
      else (case node_tool cmd args (nd_next n) of
              (True, n') \<Rightarrow> (Inr (), n') | (False, n') \<Rightarrow> (Inl (CommandFailed cmd args), n')))"
  by (simp add: run_ok_def node_run_def split: prod.split bool.split)

definition same_node :: "node \<Rightarrow> node \<Rightarrow> bool" where
  "same_node n n' \<longleftrightarrow> nd_root n' = nd_root n \<and> nd_proc n' = nd_proc n \<and> nd_module n' = nd_module n \<and>
     nd_formatted n' = nd_formatted n \<and> nd_swap n' = nd_swap n \<and> nd_remote n' = nd_remote n \<and>
     nd_fails n' = nd_fails n \<and> nd_clobbered n' = nd_clobbered n"

lemma tools_distinct [simp]:
  "SYSTEMCTL \<noteq> MODPROBE" "SYSTEMCTL \<noteq> INSMOD" "SYSTEMCTL \<noteq> MKSWAP" "SYSTEMCTL \<noteq> SWAPON" "SYSTEMCTL \<noteq> SWAPOFF"
  "SYSTEMCTL \<noteq> RMMOD" "MKSWAP \<noteq> MODPROBE" "MKSWAP \<noteq> INSMOD" "SWAPON \<noteq> MODPROBE" "SWAPON \<noteq> INSMOD" "SWAPON \<noteq> MKSWAP"
  "SWAPOFF \<noteq> MODPROBE" "SWAPOFF \<noteq> INSMOD" "SWAPOFF \<noteq> MKSWAP" "SWAPOFF \<noteq> SWAPON"
  "RMMOD \<noteq> MODPROBE" "RMMOD \<noteq> INSMOD" "RMMOD \<noteq> MKSWAP" "RMMOD \<noteq> SWAPON" "RMMOD \<noteq> SWAPOFF"
  by (simp_all add: tool_paths)

lemma service_active_node:
  assumes "is_service_active node_verbs name n = (b, n')"
  shows "n' = nd_next n" and "b \<longleftrightarrow> \<not> nd_fails n (nd_step n) \<and> (if name = ''duvm-daemon'' then nd_daemon n else nd_memserver n)"
  using assms by (auto simp: is_service_active_def node_run_def node_tool_def split: if_splits)

lemma service_command_node:
  assumes "name \<in> {''duvm-daemon'', ''duvm-memserver''}"
  shows "same_node n (snd (run_ok node_verbs SYSTEMCTL [verb, name] n))"
    and "nd_stranded (snd (run_ok node_verbs SYSTEMCTL [verb, name] n)) \<Longrightarrow>
      nd_stranded n \<or> verb \<noteq> ''start'' \<and> nd_swap n \<and> nd_remote n > 0"
  using assms by (auto simp: run_ok_node node_tool_def node_service_def same_node_def split: if_splits)

lemma stop_node:
  assumes "name \<in> {''duvm-daemon'', ''duvm-memserver''}"
  shows "same_node n (stop_service node_verbs name n)"
    and "nd_stranded (stop_service node_verbs name n) \<Longrightarrow> nd_stranded n \<or> nd_swap n \<and> nd_remote n > 0"
proof -
  obtain b n1 where a: "is_service_active node_verbs name n = (b, n1)" by (rule prod.exhaust)
  note A = service_active_node [OF a]
  note C = service_command_node [OF assms, where n = n1 and verb = "''stop''"]
  show "same_node n (stop_service node_verbs name n)"
    using C(1) A(1) by (cases b) (simp_all add: stop_service_def a same_node_def)
  show "nd_stranded (stop_service node_verbs name n) \<Longrightarrow> nd_stranded n \<or> nd_swap n \<and> nd_remote n > 0"
    using C(2) A(1) by (cases b) (auto simp: stop_service_def a)
qed

lemma start_node:
  assumes "name \<in> {''duvm-daemon'', ''duvm-memserver''}"
  shows "same_node n (start_service node_verbs name n)"
    and "nd_stranded (start_service node_verbs name n) \<Longrightarrow> nd_stranded n"
proof -
  obtain b n1 where a: "is_service_active node_verbs name n = (b, n1)" by (rule prod.exhaust)
  note A = service_active_node [OF a]
  note C = service_command_node [OF assms, where n = n1 and verb = "''start''"]
  show "same_node n (start_service node_verbs name n)"
    using C(1) A(1) by (cases b) (simp_all add: start_service_def a same_node_def)
  show "nd_stranded (start_service node_verbs name n) \<Longrightarrow> nd_stranded n"
    using C(2) A(1) by (cases b) (auto simp: start_service_def a)
qed

text \<open>
  C16: \<^verbatim>\<open>duvm-ctl disable\<close> strands no page: whichever of its commands fail, it neither stops the daemon nor
  unloads the module while pages are swapped out to the device. When it reports success the device
  is off, no page is remote and the module is unloaded. This needs \<^verbatim>\<open>/proc\<close> to be readable.
\<close>

theorem disable_never_strands:
  assumes "cmd_disable node_verbs n = (r, n')" and "nd_proc n" and "\<not> nd_stranded n" and "nd_remote n > 0 \<Longrightarrow> nd_swap n"
  shows "\<not> nd_stranded n' \<and> (r = Inr () \<longrightarrow> \<not> nd_swap n' \<and> nd_remote n' = 0 \<and> \<not> nd_module n') \<and>
    (r \<noteq> Inr () \<longrightarrow> nd_module n' = nd_module n)"
proof -
  let ?d = "stop_service node_verbs ''duvm-daemon''" and ?m = "stop_service node_verbs ''duvm-memserver''"
  obtain r1 n1 where s: "(if is_swap_active node_verbs n then run_ok node_verbs SWAPOFF [SWAP_DEVICE] n else (Inr (), n)) = (r1, n1)"
    by (rule prod.exhaust)
  have s1: "\<not> nd_stranded n1 \<and> nd_proc n1 \<and> nd_module n1 = nd_module n \<and> (r1 = Inr () \<longrightarrow> \<not> nd_swap n1 \<and> nd_remote n1 = 0)"
    using s assms(2-4) by (auto simp: swap_active_node run_ok_node node_tool_def split: if_splits)
  show ?thesis
  proof (cases "nd_root n \<and> r1 = Inr ()")
    case True
    define n3 where "n3 = ?m (?d n1)"
    have n3: "same_node n1 n3" "\<not> nd_stranded n3"
      using stop_node [of "''duvm-daemon''" n1] stop_node [of "''duvm-memserver''" "?d n1"] s1 True
      by (auto simp: n3_def same_node_def)
    have run: "(if nd_module n3 then run_ok node_verbs RMMOD [''duvm_kmod''] n3 else (Inr (), n3)) = (r, n')"
      using assms(1) s True n3(1) s1
      by (simp add: cmd_disable_def check_root_def n3_def module_loaded_node same_node_def Let_def split: if_splits)
    show ?thesis using run n3 s1 True
      by (auto simp: run_ok_node node_tool_def same_node_def split: if_splits bool.splits)
  next
    case False
    then have "r \<noteq> Inr () \<and> n' = n \<or> r \<noteq> Inr () \<and> n' = n1"
      using assms(1) s by (cases r1) (auto simp: cmd_disable_def check_root_def split: if_splits)
    then show ?thesis using s1 assms(3) by auto
  qed
qed

text \<open>
  C39: where \<^verbatim>\<open>/proc/swaps\<close> cannot be read the device counts as inactive: \<^verbatim>\<open>disable\<close> then stops the daemon under
  the pages that are swapped out to it, and reports success.
\<close>

theorem disable_blind_strands:
  assumes "nd_root n" and "\<not> nd_proc n" and "nd_swap n" and "nd_remote n > 0" and "nd_daemon n" and "\<And>k. \<not> nd_fails n k"
  shows "\<exists>n'. cmd_disable node_verbs n = (Inr (), n') \<and> nd_stranded n' \<and> nd_swap n' \<and> nd_remote n' = nd_remote n \<and> \<not> nd_daemon n'"
  using assms
  by (cases "nd_memserver n") (simp_all add: cmd_disable_def check_root_def swap_active_node module_loaded_node
      stop_service_def is_service_active_def node_run_def run_ok_node node_tool_def node_service_def Let_def)

lemma load_module_node:
  assumes "load_module node_verbs size_mb n = (r, n')"
  shows "nd_root n' = nd_root n" and "nd_proc n' = nd_proc n" and "nd_swap n' = nd_swap n" and "nd_remote n' = nd_remote n"
    and "nd_clobbered n' = nd_clobbered n" and "nd_stranded n' = nd_stranded n" and "r = Inr () \<Longrightarrow> nd_module n'"
    and "nd_module n \<Longrightarrow> nd_module n'"
  using assms
  by (auto simp: load_module_def run_ok_node node_tool_def Let_def split: if_splits sum.splits)

text \<open>
  \<^verbatim>\<open>duvm-ctl enable\<close> never formats the device while it is in use, and touches no page that is swapped out,
  whichever of its commands fail. When it reports success the module is loaded and the device active.
\<close>

theorem enable_sound:
  assumes "cmd_enable node_verbs priority size_mb n = (r, n')" and "nd_proc n" and "\<not> nd_clobbered n" and "\<not> nd_stranded n"
  shows "\<not> nd_clobbered n' \<and> \<not> nd_stranded n' \<and> nd_remote n' = nd_remote n \<and> (nd_swap n \<longrightarrow> nd_swap n') \<and>
    (r = Inr () \<longrightarrow> nd_swap n' \<and> nd_module n')"
proof (cases "nd_root n")
  case False
  then show ?thesis using assms by (auto simp: cmd_enable_def check_root_def)
next
  case True
  let ?m = "start_service node_verbs ''duvm-memserver''" and ?d = "start_service node_verbs ''duvm-daemon''"
  obtain r1 n1 where l: "(if is_module_loaded node_verbs n then (Inr (), n) else load_module node_verbs size_mb n) = (r1, n1)"
    by (rule prod.exhaust)
  have n1: "nd_proc n1" "nd_swap n1 = nd_swap n" "nd_remote n1 = nd_remote n" "\<not> nd_clobbered n1" "\<not> nd_stranded n1"
    "r1 = Inr () \<Longrightarrow> nd_module n1"
    using l assms(2-4) load_module_node [of size_mb n r1 n1] by (auto simp: module_loaded_node split: if_splits)
  obtain r2 n2 where k: "(if is_swap_active node_verbs n1 then (Inr (), n1) else run_ok node_verbs MKSWAP [SWAP_DEVICE] n1) = (r2, n2)"
    by (rule prod.exhaust)
  have n2: "nd_proc n2" "nd_swap n2 = nd_swap n" "nd_remote n2 = nd_remote n" "\<not> nd_clobbered n2" "\<not> nd_stranded n2"
    "nd_module n2 = nd_module n1"
    using k n1 by (auto simp: swap_active_node run_ok_node node_tool_def split: if_splits bool.splits)
  define n4 where "n4 = ?d (?m n2)"
  have n4: "same_node n2 n4" "\<not> nd_stranded n4"
    using start_node [of "''duvm-memserver''" n2] start_node [of "''duvm-daemon''" "?m n2"] n2 by (auto simp: n4_def same_node_def)
  have sw: "is_swap_active node_verbs n4 \<longleftrightarrow> nd_swap n4" using n2(1) n4(1) by (simp add: swap_active_node same_node_def)
  have "cmd_enable node_verbs priority size_mb n = (case r1 of Inl e \<Rightarrow> (Inl e, n1) | Inr _ \<Rightarrow> if \<not> nd_module n1 then (Inl DeviceMissing, n1)
      else (case r2 of Inl e \<Rightarrow> (Inl e, n2) | Inr _ \<Rightarrow> if nd_swap n4 then (Inr (), n4)
        else run_ok node_verbs SWAPON [''-p'', priority, SWAP_DEVICE] n4))"
    unfolding cmd_enable_def check_root_def l
    by (cases r1; cases r2; cases "nd_module n1") (simp_all add: True k Let_def n4_def [symmetric] sw)
  note run = this [unfolded assms(1)]
  show ?thesis
  proof (cases "r1 = Inr () \<and> r2 = Inr () \<and> nd_module n1")
    case False
    then show ?thesis using run n1 n2 by (cases r1; cases r2) (auto split: if_splits)
  next
    case True
    then show ?thesis using run n2 n4 by (auto simp: same_node_def run_ok_node node_tool_def split: if_splits)
  qed
qed

text \<open>
  The daemon need not run for \<^verbatim>\<open>enable\<close> to report success: its start may fail, and the device is activated
  all the same.
\<close>

theorem enable_without_daemon:
  assumes "nd_root n" and "nd_proc n" and "nd_module n" and "\<not> nd_swap n" and "\<not> nd_daemon n" and "\<not> nd_memserver n"
    and "\<And>k. nd_fails n (nd_step n + k) \<longleftrightarrow> k = 4"
  shows "\<exists>n'. cmd_enable node_verbs priority size_mb n = (Inr (), n') \<and> nd_swap n' \<and> \<not> nd_daemon n'"
proof -
  have f: "\<not> nd_fails n (nd_step n)" "\<not> nd_fails n (Suc (nd_step n))" "\<not> nd_fails n (Suc (Suc (nd_step n)))"
    "\<not> nd_fails n (Suc (Suc (Suc (nd_step n))))" "nd_fails n (Suc (Suc (Suc (Suc (nd_step n)))))"
    "\<not> nd_fails n (Suc (Suc (Suc (Suc (Suc (nd_step n))))))"
    using assms(7) [of 0] assms(7) [of 1] assms(7) [of 2] assms(7) [of 3] assms(7) [of 4] assms(7) [of 5]
    by (simp_all add: numeral_eq_Suc)
  then show ?thesis using assms(1-6)
    by (simp add: cmd_enable_def check_root_def swap_active_node module_loaded_node start_service_def is_service_active_def
        node_run_def run_ok_node node_tool_def node_service_def Let_def)
qed


section \<open>Sample nodes\<close>

definition idle_node :: "(nat \<Rightarrow> bool) \<Rightarrow> node" where
  "idle_node fails =
     \<lparr>nd_root = True, nd_proc = True, nd_module = False, nd_formatted = False, nd_swap = False, nd_remote = 0,
      nd_daemon = False, nd_memserver = False, nd_fails = fails, nd_step = 0, nd_stranded = False, nd_clobbered = False\<rparr>"

definition busy_node :: "(nat \<Rightarrow> bool) \<Rightarrow> node" where
  "busy_node fails = (idle_node fails)\<lparr>nd_module := True, nd_formatted := True, nd_swap := True, nd_remote := 7,
     nd_daemon := True\<rparr>"

text \<open>A disable on a busy node where \<^verbatim>\<open>swapoff\<close> fails leaves everything as it was.\<close>

theorem disable_never_strands_witness:
  "\<exists>r n'. cmd_disable node_verbs (busy_node (\<lambda>k. k = 0)) = (r, n') \<and> r \<noteq> Inr () \<and> nd_remote n' = 7 \<and> \<not> nd_stranded n' \<and> nd_module n'"
proof -
  have r: "cmd_disable node_verbs (busy_node (\<lambda>k. k = 0)) =
      (Inl (CommandFailed SWAPOFF [SWAP_DEVICE]), (busy_node (\<lambda>k. k = 0))\<lparr>nd_step := 1\<rparr>)"
    by (simp add: cmd_disable_def check_root_def swap_active_node run_ok_node busy_node_def idle_node_def)
  from disable_never_strands [OF r] r show ?thesis by (simp add: busy_node_def idle_node_def)
qed

theorem disable_blind_strands_witness:
  "\<exists>n'. cmd_disable node_verbs ((busy_node (\<lambda>_. False))\<lparr>nd_proc := False\<rparr>) = (Inr (), n') \<and> nd_stranded n' \<and> nd_remote n' = 7"
  using disable_blind_strands [of "(busy_node (\<lambda>_. False))\<lparr>nd_proc := False\<rparr>"]
  by (auto simp: busy_node_def idle_node_def)

theorem enable_sound_witness:
  "\<exists>n'. cmd_enable node_verbs ''100'' 4096 (busy_node (\<lambda>_. False)) = (Inr (), n') \<and> nd_swap n' \<and> nd_remote n' = 7 \<and> \<not> nd_clobbered n'"
proof -
  obtain n' where r: "cmd_enable node_verbs ''100'' 4096 (busy_node (\<lambda>_. False)) = (Inr (), n')"
    by (simp add: cmd_enable_def check_root_def swap_active_node module_loaded_node start_service_def is_service_active_def
        node_run_def run_ok_node node_tool_def node_service_def busy_node_def idle_node_def Let_def)
  from enable_sound [OF r] r show ?thesis by (simp add: busy_node_def idle_node_def)
qed

theorem enable_without_daemon_witness:
  "\<exists>n'. cmd_enable node_verbs ''100'' 4096 ((idle_node (\<lambda>k. k = 4))\<lparr>nd_module := True\<rparr>) = (Inr (), n') \<and> nd_swap n' \<and> \<not> nd_daemon n'"
  using enable_without_daemon [of "(idle_node (\<lambda>k. k = 4))\<lparr>nd_module := True\<rparr>" "''100''" 4096] by (simp add: idle_node_def)


end
