(* ===== verification/Control.thy ===== *)
theory Control
  imports Daemon_Start Kmod_Consumer Ctl_Node
begin

text \<open>
  The control path: the socket loop of the daemon (\<^verbatim>\<open>run\<close> and \<^verbatim>\<open>handle_client\<close> of
  \<^verbatim>\<open>crates/duvm-daemon/src/engine.rs\<close>), its \<^verbatim>\<open>main\<close>, and the client side \<^verbatim>\<open>send_command\<close> of
  \<^verbatim>\<open>crates/duvm-ctl/src/main.rs\<close>. The JSON text of a response is made by the crate \<^verbatim>\<open>serde_json\<close>, an argument
  \<open>json\<close> of the model, and \<open>None\<close> when it fails. What the code relies on is that compact JSON has no
  line breaks and begins and ends with a bracket.
\<close>

section \<open>A connection\<close>

text \<open>\<^verbatim>\<open>read_line\<close>: up to and with the next newline, or to the end; the bytes have to be UTF-8.\<close>

fun read_line :: "string \<Rightarrow> string \<times> string" where
  "read_line [] = ([], [])"
| "read_line (c # cs) =
     (if c = CHR 0x0A then ([c], cs) else (case read_line cs of (l, rest) \<Rightarrow> (c # l, rest)))"

lemma read_line_shorter: "s \<noteq> [] \<Longrightarrow> length (snd (read_line s)) < length s"
proof (induction s)
  case (Cons c cs)
  then show ?case by (cases "cs = []") (auto split: prod.splits)
qed simp

lemma read_line_append: "CHR 0x0A \<notin> set l \<Longrightarrow> read_line (l @ CHR 0x0A # rest) = (l @ [CHR 0x0A], rest)"
  by (induction l) auto

abbreviation cont_byte :: "nat \<Rightarrow> bool" where
  "cont_byte b \<equiv> 0x80 \<le> b \<and> b \<le> 0xBF"

fun utf8_bytes :: "nat list \<Rightarrow> bool" where
  "utf8_bytes [] = True"
| "utf8_bytes (a # xs) =
     (if a < 0x80 then utf8_bytes xs
      else if 0xC2 \<le> a \<and> a \<le> 0xDF then (case xs of b # ys \<Rightarrow> cont_byte b \<and> utf8_bytes ys | _ \<Rightarrow> False)
      else if 0xE0 \<le> a \<and> a \<le> 0xEF then
        (case xs of b # c # ys \<Rightarrow> cont_byte b \<and> cont_byte c \<and> (a = 0xE0 \<longrightarrow> 0xA0 \<le> b) \<and> (a = 0xED \<longrightarrow> b \<le> 0x9F) \<and> utf8_bytes ys
         | _ \<Rightarrow> False)
      else if 0xF0 \<le> a \<and> a \<le> 0xF4 then
        (case xs of b # c # d # ys \<Rightarrow> cont_byte b \<and> cont_byte c \<and> cont_byte d \<and> (a = 0xF0 \<longrightarrow> 0x90 \<le> b) \<and>
           (a = 0xF4 \<longrightarrow> b \<le> 0x8F) \<and> utf8_bytes ys
         | _ \<Rightarrow> False)
      else False)"

definition is_utf8 :: "string \<Rightarrow> bool" where
  "is_utf8 s = utf8_bytes (map of_char s)"

lemma utf8_ascii: "(\<forall>c \<in> set s. of_char c < (0x80 :: nat)) \<Longrightarrow> is_utf8 s"
  unfolding is_utf8_def by (induction s) auto

definition response_text :: "(ctl_response \<Rightarrow> string option) \<Rightarrow> ctl_response \<Rightarrow> string option" where
  "response_text json r = (case r of Pong \<Rightarrow> Some ''pong'' | _ \<Rightarrow> json r)"

text \<open>
  The loop over the lines of a connection, on all that the client sends before it closes its end; the
  bytes written back, and whether the loop ended without an error.
\<close>

function serve_control ::
  "(ctl_response \<Rightarrow> string option) \<Rightarrow> daemon_stats \<Rightarrow> policy_engine \<Rightarrow> backend_info list \<Rightarrow> string \<Rightarrow> string \<times> bool" where
  "serve_control json st p infos input =
     (if input = [] then ([], True)
      else
        (case read_line input of (line, rest) \<Rightarrow>
         if \<not> is_utf8 line then ([], False)
         else
           (case response_text json (handle_command st p infos line) of
              None \<Rightarrow> ([], False)
            | Some response \<Rightarrow>
                (case serve_control json st p infos rest of (out, ok) \<Rightarrow> (response @ CHR 0x0A # out, ok)))))"
  by pat_completeness auto

termination
  by (relation "measure (\<lambda>(json, st, p, infos, input). length input)") (auto, metis read_line_shorter snd_conv)

declare serve_control.simps [simp del]

section \<open>The socket loop\<close>

text \<open>What wakes the loop: a connection with what its client sends, a failed \<^verbatim>\<open>accept\<close>, or Ctrl-C.\<close>

datatype run_event = Connects string | AcceptFails | CtrlC

fun accept_loop ::
  "('b, 'w) backend_vt \<Rightarrow> (ctl_response \<Rightarrow> string option) \<Rightarrow> 'b engine \<Rightarrow> run_event list \<Rightarrow> string list \<times> bool" where
  "accept_loop V json e [] = ([], False)"
| "accept_loop V json e (CtrlC # evs) = ([], True)"
| "accept_loop V json e (AcceptFails # evs) = accept_loop V json e evs"
| "accept_loop V json e (Connects input # evs) =
     (case accept_loop V json e evs of (outs, stopped) \<Rightarrow>
      (fst (serve_control json (eng_stats e) (eng_policy e) (engine_backend_info V e) input) # outs, stopped))"

datatype run_error = BindFailed | ShutdownError error | ShutdownPanic

text \<open>
  \<^verbatim>\<open>run\<close>: \<open>binds\<close> says which paths can be bound. The result is the answers to the clients, and how \<^verbatim>\<open>run\<close>
  returned, or \<open>None\<close> while it goes on.
\<close>

definition engine_run ::
  "('b, 'w) backend_vt \<Rightarrow> (ctl_response \<Rightarrow> string option) \<Rightarrow> (string \<Rightarrow> bool) \<Rightarrow> 'b engine \<Rightarrow> run_event list \<Rightarrow> 'w
   \<Rightarrow> string list \<times> (run_error + unit) option \<times> 'b engine \<times> 'w" where
  "engine_run V json binds e evs w =
     (if \<not> binds (socket_path (dc_daemon (eng_config e))) then ([], Some (Inl BindFailed), e, w)
      else
        (case accept_loop V json e evs of
           (outs, False) \<Rightarrow> (outs, None, e, w)
         | (outs, True) \<Rightarrow>
             (case shutdown_backends V (map fst (eng_backends e)) e w of
                (Ok u, e', w') \<Rightarrow> (outs, Some (Inr ()), e', w')
              | (Err er, e', w') \<Rightarrow> (outs, Some (Inl (ShutdownError er)), e', w')
              | (Panic, e', w') \<Rightarrow> (outs, Some (Inl ShutdownPanic), e', w'))))"

section \<open>The daemon's main\<close>

record daemon_args =
  da_config :: string
  da_uffd_mode :: bool
  da_log_level :: string
  da_socket :: string
  da_kmod_ctl :: string

definition DEFAULT_SOCKET :: string where "DEFAULT_SOCKET = ''/run/duvm/duvm.sock''"

definition default_daemon_args :: daemon_args where
  "default_daemon_args = \<lparr>da_config = ''/etc/duvm/duvm.toml'', da_uffd_mode = False, da_log_level = ''info'',
     da_socket = DEFAULT_SOCKET, da_kmod_ctl = ''/dev/duvm_ctl''\<rparr>"

text \<open>What the daemon ends up doing: consuming the kernel's ring, or serving the control socket.\<close>

datatype 'b daemon_mode = ConsumerMode kmod_consumer "'b engine" | SocketMode "'b engine"

definition main_config ::
  "(string \<Rightarrow> bool) \<Rightarrow> (string \<Rightarrow> string option) \<Rightarrow> (string \<Rightarrow> daemon_config option) \<Rightarrow> daemon_args \<Rightarrow> daemon_config" where
  "main_config ex rd ps args =
     apply_cli_overrides (load_or_default ex rd ps (da_config args))
       (if da_socket args \<noteq> DEFAULT_SOCKET then Some (da_socket args) else None) None"

text \<open>\<open>kmod\<close> is what opening the control device of the kernel module gives, \<open>avail\<close> whether RDMA is there.\<close>

definition daemon_main ::
  "(('s, 'r) dyn_backend, 'w) backend_vt \<Rightarrow> (u8 \<Rightarrow> string \<Rightarrow> 'r) \<Rightarrow> bool \<Rightarrow> (string \<Rightarrow> open_error + kmod_consumer) \<Rightarrow>
   daemon_config \<Rightarrow> daemon_args \<Rightarrow> 'w \<Rightarrow> (('s, 'r) dyn_backend daemon_mode) res \<times> 'w" where
  "daemon_main V rdma_new avail kmod config args w =
     (case engine_new V rdma_new avail config w of
        (Err e, w1) \<Rightarrow> (Err e, w1)
      | (Panic, w1) \<Rightarrow> (Panic, w1)
      | (Ok eng, w1) \<Rightarrow>
          (case (if da_uffd_mode args then None
                 else (case kmod (da_kmod_ctl args) of Inr c \<Rightarrow> Some c | Inl e \<Rightarrow> None)) of
             Some c \<Rightarrow> (Ok (ConsumerMode c eng), w1)
           | None \<Rightarrow>
               (case engine_new V rdma_new avail default_config w1 of
                  (Ok eng', w2) \<Rightarrow> (Ok (SocketMode eng'), w2)
                | (Err e, w2) \<Rightarrow> (Err e, w2)
                | (Panic, w2) \<Rightarrow> (Panic, w2))))"

section \<open>The control tool\<close>

datatype send_error = NoDaemon | ReadError

text \<open>
  The daemon as its clients see it: what it answers on a socket, if it listens there. As in \<^verbatim>\<open>run\<close>,
  \<open>binds\<close> says which paths can be bound.
\<close>

definition daemon_listens ::
  "('b, 'w) backend_vt \<Rightarrow> (ctl_response \<Rightarrow> string option) \<Rightarrow> (string \<Rightarrow> bool) \<Rightarrow> 'b daemon_mode \<Rightarrow> string
   \<Rightarrow> (string \<Rightarrow> string) option" where
  "daemon_listens V json binds mode path =
     (case mode of
        ConsumerMode c e \<Rightarrow> None
      | SocketMode e \<Rightarrow>
          if socket_path (dc_daemon (eng_config e)) = path \<and> binds path
          then Some (\<lambda>input. fst (serve_control json (eng_stats e) (eng_policy e) (engine_backend_info V e) input))
          else None)"

definition send_command :: "(string \<Rightarrow> (string \<Rightarrow> string) option) \<Rightarrow> string \<Rightarrow> string \<Rightarrow> send_error + string" where
  "send_command listens path cmd =
     (case listens path of
        None \<Rightarrow> Inl NoDaemon
      | Some answers \<Rightarrow>
          (let response = fst (read_line (answers (cmd @ [CHR 0x0A]))) in
           if is_utf8 response then Inr (trim response) else Inl ReadError))"

text \<open>
  \<^verbatim>\<open>daemon_command\<close> prints the response; \<open>pretty\<close> parses and reformats JSON, \<open>None\<close> if it does not parse.
\<close>

definition pretty_print :: "(string \<Rightarrow> string option) \<Rightarrow> string \<Rightarrow> string" where
  "pretty_print pretty response =
     (if response \<noteq> [] \<and> hd response \<in> {CHR 0x7B, CHR 0x5B}
      then (case pretty response of Some v \<Rightarrow> v | None \<Rightarrow> response) else response)"

definition daemon_command ::
  "(string \<Rightarrow> (string \<Rightarrow> string) option) \<Rightarrow> (string \<Rightarrow> string option) \<Rightarrow> string \<Rightarrow> string \<Rightarrow> send_error + string" where
  "daemon_command listens pretty path cmd =
     (case send_command listens path cmd of
        Inl e \<Rightarrow> Inl e
      | Inr response \<Rightarrow> Inr (pretty_print pretty response))"

datatype commands = CtlStatus | CtlStats | CtlBackends | CtlPing | CtlEnable i32 u64 | CtlDisable | CtlDrain

text \<open>The default values of the arguments of \<^verbatim>\<open>enable\<close>.\<close>

definition default_enable :: commands where
  "default_enable = CtlEnable 100 4096"

definition show_i32 :: "i32 \<Rightarrow> string" where
  "show_i32 n = (if sint n < 0 then CHR ''-'' # show_nat (nat (- sint n)) else show_nat (nat (sint n)))"

text \<open>What ends \<^verbatim>\<open>main\<close> with an error, and otherwise what a command for the daemon prints.\<close>

datatype ctl_failure = NodeFailed ctl_error | SocketFailed send_error

definition ctl_main ::
  "'w node_sys \<Rightarrow> (string \<Rightarrow> (string \<Rightarrow> string) option) \<Rightarrow> (string \<Rightarrow> string option) \<Rightarrow> string \<Rightarrow> commands \<Rightarrow> 'w
   \<Rightarrow> (ctl_failure + string option) \<times> 'w" where
  "ctl_main S listens pretty socket c w =
     (let ask = (\<lambda>cmd. (case daemon_command listens pretty socket cmd of
                           Inl e \<Rightarrow> Inl (SocketFailed e) | Inr out \<Rightarrow> Inr (Some out), w));
          node = (\<lambda>(r, w'). (case r of Inl e \<Rightarrow> Inl (NodeFailed e) | Inr u \<Rightarrow> Inr None, w'))
      in case c of
           CtlStatus \<Rightarrow> ask ''status''
         | CtlStats \<Rightarrow> ask ''stats''
         | CtlBackends \<Rightarrow> ask ''backends''
         | CtlPing \<Rightarrow> ask ''ping''
         | CtlEnable priority size_mb \<Rightarrow> node (cmd_enable S (show_i32 priority) size_mb w)
         | CtlDisable \<Rightarrow> node (cmd_disable S w)
         | CtlDrain \<Rightarrow> node (cmd_drain S w))"

section \<open>Properties\<close>

text \<open>What compact JSON looks like to the two ends: one line of UTF-8 without white space around it.\<close>

definition json_lines :: "(ctl_response \<Rightarrow> string option) \<Rightarrow> bool" where
  "json_lines json \<longleftrightarrow> (\<forall>r s. json r = Some s \<longrightarrow> CHR 0x0A \<notin> set s \<and> is_utf8 (s @ [CHR 0x0A]) \<and> trim s = s)"

text \<open>The commands for the daemon, with what each sends and what the daemon answers.\<close>

fun command_name :: "commands \<Rightarrow> string option" where
  "command_name CtlStatus = Some ''status''"
| "command_name CtlStats = Some ''stats''"
| "command_name CtlBackends = Some ''backends''"
| "command_name CtlPing = Some ''ping''"
| "command_name c = None"

definition command_response :: "('b, 'w) backend_vt \<Rightarrow> 'b engine \<Rightarrow> string \<Rightarrow> ctl_response" where
  "command_response V e cmd =
     (if cmd = ''status'' then StatusResponse (tracked_pages (eng_policy e)) (snapshot (eng_stats e))
      else if cmd = ''stats'' then StatsResponse (snapshot (eng_stats e))
      else if cmd = ''backends'' then BackendsResponse (map (\<lambda>(_, b). backend_info_from_backend V b) (eng_backends e))
      else Pong)"

lemma trim_newline: "trim (s @ [CHR 0x0A]) = trim s"
proof -
  have nl: "is_space (CHR 0x0A)" by (simp add: is_space_def)
  have "dropWhile is_space (s @ [CHR 0x0A]) =
      (if list_all is_space s then [] else dropWhile is_space s @ [CHR 0x0A])"
    by (induction s) (auto simp: nl)
  moreover have "dropWhile is_space s = []" if "list_all is_space s"
    using that by (induction s) auto
  ultimately show ?thesis by (cases "list_all is_space s") (simp_all add: trim_def nl del: dropWhile_eq_Nil_conv)
qed

lemma command_nameE:
  assumes "command_name c = Some cmd"
  obtains "cmd = ''status''" | "cmd = ''stats''" | "cmd = ''backends''" | "cmd = ''ping''"
  using assms by (cases c) simp_all

lemma command_handled:
  assumes "command_name c = Some cmd"
  shows "handle_command (eng_stats e) (eng_policy e) (engine_backend_info V e) (cmd @ [CHR 0x0A]) = command_response V e cmd"
proof -
  have "trim cmd = cmd" by (rule command_nameE [OF assms]) (simp_all add: trim_def is_space_def)
  then show ?thesis
    unfolding handle_command_def trim_newline
    by (cases rule: command_nameE [OF assms])
      (simp_all add: command_response_def engine_backend_info_def)
qed

lemma command_line:
  assumes "command_name c = Some cmd"
  shows "CHR 0x0A \<notin> set cmd" and "is_utf8 (cmd @ [CHR 0x0A])"
  by (rule command_nameE [OF assms]; simp add: is_utf8_def)+

lemma response_line:
  assumes "json_lines json" and "response_text json r = Some s"
  shows "CHR 0x0A \<notin> set s" and "is_utf8 (s @ [CHR 0x0A])" and "trim s = s"
  using assms by (cases r; auto simp: json_lines_def response_text_def is_utf8_def trim_def is_space_def)+

lemma command_roundtrip:
  assumes "json_lines json" and "command_name c = Some cmd" and "response_text json (command_response V e cmd) = Some s"
    and "binds (socket_path (dc_daemon (eng_config e)))"
  shows "send_command (daemon_listens V json binds (SocketMode e)) (socket_path (dc_daemon (eng_config e))) cmd = Inr s"
proof -
  have "serve_control json st p infos [] = ([], True)" for st p infos by (simp add: serve_control.simps)
  moreover have "read_line (cmd @ [CHR 0x0A]) = (cmd @ [CHR 0x0A], [])"
    using read_line_append [OF command_line(1) [OF assms(2)], of "[]"] by simp
  ultimately have "fst (serve_control json (eng_stats e) (eng_policy e) (engine_backend_info V e) (cmd @ [CHR 0x0A])) =
      s @ [CHR 0x0A]"
    using assms(3) command_line(2) [OF assms(2)]
    by (simp add: serve_control.simps [of _ _ _ _ "cmd @ _"] command_handled [OF assms(2)])
  then show ?thesis
    using response_line [OF assms(1,3)] assms(4) read_line_append [of s "[]"] trim_newline [of s]
    by (simp add: send_command_def daemon_listens_def Let_def)
qed

text \<open>
  C25: a status command of \<^verbatim>\<open>duvm-ctl\<close> prints what the daemon knows: the text it gets over the socket and
  formats is the daemon's response to exactly that command, with the newlines of the protocol taken
  off. It leaves the node as it is.
\<close>

theorem ctl_command_answered:
  assumes "json_lines json" and "command_name c = Some cmd" and "response_text json (command_response V e cmd) = Some s"
    and "binds (socket_path (dc_daemon (eng_config e)))"
  shows "ctl_main S (daemon_listens V json binds (SocketMode e)) pretty (socket_path (dc_daemon (eng_config e))) c w =
    (Inr (Some (pretty_print pretty s)), w)"
  using command_roundtrip [where binds = binds, OF assms] assms(2) by (cases c) (simp_all add: ctl_main_def daemon_command_def Let_def)

text \<open>A stand-in for \<^verbatim>\<open>serde_json\<close> that keeps the form of its output.\<close>

definition sample_json :: "ctl_response \<Rightarrow> string option" where
  "sample_json r = Some (case r of BackendsResponse infos \<Rightarrow> ''[]'' | _ \<Rightarrow> ''{}'')"

lemma sample_json_lines: "json_lines sample_json"
  by (auto simp: json_lines_def sample_json_def is_utf8_def trim_def is_space_def split: ctl_response.splits)

theorem ctl_command_answered_witness:
  "ctl_main node_verbs (daemon_listens mb_vt sample_json (\<lambda>_. True) (SocketMode (with_backends default_config [])))
     (\<lambda>s. None) ''/run/duvm/duvm.sock'' CtlBackends (idle_node (\<lambda>_. False)) = (Inr (Some ''[]''), idle_node (\<lambda>_. False))"
  using ctl_command_answered [OF sample_json_lines, where c = CtlBackends and cmd = "''backends''" and w = "idle_node (\<lambda>_. False)" and e = "with_backends default_config []"
      and V = mb_vt and s = "''[]''" and binds = "\<lambda>_. True" and S = node_verbs and pretty = "\<lambda>s. None"]
  by (simp add: response_text_def command_response_def sample_json_def with_backends_def default_config_defs pretty_print_def)

lemma engine_new_config: "engine_new V rdma_new avail config w = (Ok e, w') \<Longrightarrow> eng_config e = config"
  by (auto simp: engine_new_def with_backends_def split: prod.splits res.splits)

end
