(* ===== verification/Spec2Isabelle.thy ===== *)
theory Spec2Isabelle
  imports Protocol Ring Swap_System Kmod_Module Rdma_Engine Pool Memserver_Threads Uffd Control
begin

text \<open>
  \<^bold>\<open>Distributed UVM.\<close> The program lends the memory of other machines to a Linux node as swap space. A
  kernel module offers the block device \<^verbatim>\<open>duvm_swap0\<close>; a daemon serves its requests from a ring in
  shared memory, through an engine that places pages on backends: a hash map, LZ4-compressed pages,
  a memory server reached by TCP, or one reached by RDMA. A control tool switches a node on and off, a
  client library gives C programs a pool of pages, and a userfaultfd region serves page faults in
  user space. This development translates the implementation of these parts and proves what each of
  them, and their composition, does. All names below are of files and functions under \<^verbatim>\<open>src/\<close>.

  \<^bold>\<open>Conventions.\<close> Machine integers are words of their width and wrap, as in a release build. A fallible
  call returns \<open>Ok\<close>, \<open>Err\<close> with an error, or \<open>Panic\<close>. A Rust \<^verbatim>\<open>HashMap\<close> is an association list with
  distinct keys. An operation with effects takes the world it acts on and returns it. \<^verbatim>\<open>dyn DuvmBackend\<close> is a
  record of methods \<open>backend_vt\<close>. What is not in the sources is an argument: the LZ4 codec, the TOML parser,
  \<^verbatim>\<open>serde_json\<close>, sockets and clock (\<open>tcp_io\<close>), libibverbs and librdmacm (\<open>rdma_verbs\<close>), the
  userfaultfd calls (\<open>uffd_sys\<close>), the tools of the system (\<open>node_sys\<close>). What the code relies on
  is stated of the argument: \<open>lz4_roundtrip\<close>, \<open>json_lines\<close>, the locales \<open>rdma_provider\<close> and \<open>uffd_kernel\<close>.
  An environment that satisfies it is given each time, in which the calls may fail at any point:
  \<open>net\<close> for TCP, \<open>fabric\<close> for RDMA, \<open>ukernel\<close> for userfaultfd, \<open>node\<close> for the tools.

  \<^bold>\<open>The theories, by component.\<close>

  \<^item> \<open>Prelude\<close>, \<open>Std_Text\<close>, \<open>Raw_Memory\<close>, \<open>F64\<close>: integers, results, hash maps, byte orders; string
    functions of the Rust library; byte-addressed memory; the double-precision quotient that orders
    backends by utilisation.

  \<^item> \<open>Page\<close>, \<open>Protocol\<close>, \<open>Ring\<close>, \<open>Stats\<close> (\<^verbatim>\<open>duvm-common\<close>): handles, tiers, flags; the messages of the ring
    and their C layout; the ring, with the locale \<open>bounded_queue\<close> that says what a queue promises,
    and the proof that the ring refines it across the wrap-around of its indices; the counters.

  \<^item> \<open>Backend_Trait\<close> (\<^verbatim>\<open>duvm-backend-trait\<close>): the trait and its contract, the locales \<open>page_backend\<close>
    (a page stays under its handle, a handle is fresh, even if calls fail), \<open>reliable_backend\<close> and
    \<open>counted_backend\<close>. \<open>Memory_Backend\<close>, \<open>Compress_Backend\<close>, \<open>Tcp_Backend\<close> are the backends; each is
    an interpretation of the contract, the TCP one in \<open>Tcp_Contract\<close> over the \<open>Network\<close>, whose
    servers run \<open>Memserver\<close>.

  \<^item> \<open>Memserver\<close>, \<open>Memserver_Threads\<close> (\<^verbatim>\<open>duvm-memserver\<close>): the page store and the request loop of one
    client; then the whole server, with a thread per connection interleaved at every access to an
    atomic or to the mutex. Its limits hold in all interleavings, allocated offsets never
    repeat, and a thread left alone does what the sequential loop does.

  \<^item> \<open>Policy\<close>, \<open>Config\<close>, \<open>Engine\<close> (\<^verbatim>\<open>duvm-daemon\<close>): placement and eviction; configuration; the engine's
    store, load, invalidate. \<open>Engine_Spec\<close> proves in the locale \<open>engine_on\<close> that over any backends that
    keep the contract the engine is a map from offsets to pages that may lose unpinned pages to
    eviction; \<open>Engine_Progress\<close> proves when a store succeeds. \<open>Daemon\<close> is \<^verbatim>\<open>Engine::new\<close> with its mixture of
    backends, \<open>Daemon_Contract\<close> the interpretation for local and TCP backends, \<open>Daemon_Start\<close> the
    invariant of the engine it builds.

  \<^item> \<open>Kmod\<close>, \<open>Kmod_Laws\<close>, \<open>Kmod_Module\<close> (\<^verbatim>\<open>duvm-kmod\<close>): ring, staging slots, request handler, harvester,
    timeout, control device, loading and unloading. \<open>Kmod_Consumer\<close> is the daemon's side
    (\<^verbatim>\<open>kmod_ring.rs\<close>). \<open>Swap_Device\<close> interleaves the two in a step relation \<open>swap_step\<close> and relates it to an
    asynchronous page device \<open>spec_step\<close>; \<open>Swap_System\<close> follows its runs from the start and
    compares the layouts the two sides compute.

  \<^item> \<open>Rdma_Verbs\<close>, \<open>Rdma_Backend\<close>, \<open>Rdma_Server\<close> (\<^verbatim>\<open>duvm-backend-rdma\<close>): structs and constants, client,
    server. \<open>Rdma_Fabric\<close> joins two hosts by a network card that may fail, delay and reorder events;
    \<open>Rdma_System\<close> and \<open>Rdma_Engine\<close> prove what holds there and what does not.

  \<^item> \<open>Pool\<close> (\<^verbatim>\<open>libduvm\<close>): the pool and its C interface on the memory of the calling process.

  \<^item> \<open>Uffd\<close> (\<^verbatim>\<open>uffd.rs\<close>, \<^verbatim>\<open>uffd_helper.c\<close>): the region, the fault handler and the page cache.

  \<^item> \<open>Ctl_Node\<close>, \<open>Control\<close> (\<^verbatim>\<open>duvm-ctl\<close>, \<^verbatim>\<open>main.rs\<close> of the daemon, \<^verbatim>\<open>Engine::run\<close>): \<^verbatim>\<open>enable\<close>, \<^verbatim>\<open>disable\<close>, \<^verbatim>\<open>drain\<close>; the
    control socket from both ends and the start of the daemon.

  \<^bold>\<open>What is shown.\<close> Every run of kernel module and daemon is a run of a page device, no staging slot is
  lost, and the device settles. A daemon of local and TCP backends answers as a map from offsets to pages,
  whatever socket calls fail. The memory server keeps its limits, RDMA slabs are disjoint, the library keeps pages
  until they are freed, the control tool strands no page. Creation of the module, of an RDMA connection and of
  a userfaultfd region gives back what it took when it fails, with the exceptions stated. Some
  theorems show behaviour that is not what the code means to do: an RDMA backend reuses offsets of live pages
  and writes beyond its slab, completions are taken for those of other requests, a timed-out
  request ends with the bytes of another, page faults are read and lost, the configured socket is
  not used, an unreadable \<^verbatim>\<open>/proc/swaps\<close> lets \<^verbatim>\<open>disable\<close> stop the daemon under swapped-out pages.

  \<^bold>\<open>Bounds.\<close> The loops over the ring, \<open>serve_all\<close> and \<open>drain\<close>, take a number of rounds and give \<open>None\<close> when it
  is used up; one round more than there are requests in flight is enough, and this is proved for the runs
  of the swap device. \<open>find_completion\<close> looks at as many entries as the ring holds, which is all of them.
  The polling loop of RDMA and the event loop of its server are partial functions; the first always
  returns when the clock advances, the second runs until it is stopped. The theorems on words carry the
  ranges they need: a ring of fewer than \<open>2\<^sup>3\<^sup>1\<close> entries, fewer than \<open>2\<^sup>6\<^sup>4\<close> allocations.

  \<^bold>\<open>Not modelled.\<close> Weak memory orders: steps are sequentially consistent, and operations under a lock are
  one step. The block layer and the memory management of the kernel, beyond the calls the module makes.
  In \<open>Swap_Device\<close> requests are one page each, do not time out, and at most one fewer than the ring has entries
  are in flight, a limit the module does not enforce; \<open>Kmod_Module\<close> shows what happens otherwise. Restarts of a memory server. Logging, printed text, command-line parsing, the
  \<^verbatim>\<open>Display\<close> of handles and counters. The two wrappers in \<^verbatim>\<open>shim.c\<close>, the empty functions of \<^verbatim>\<open>swap.c\<close>. The
  programs under \<^verbatim>\<open>examples\<close>, the tests and the scripts: they call the modelled operations and print what these
  return.
\<close>

section \<open>The daemon as a whole\<close>

text \<open>
  C2: the daemon never serves wrong data. Start the engine from any configuration without RDMA
  and give it any sequence of stores, loads and invalidations: every load that succeeds returns
  the page of the last store to that offset, provided that store succeeded and no invalidation
  came after it. This holds whichever socket calls fail, at whatever byte, and whatever the
  servers held before.
\<close>

theorem daemon_answers_agree:
  assumes "net_ready w" and "lz4_roundtrip lz" and "tcp_only avail config" and "permutes_entries it"
    and "\<forall>op \<in> set ops. op_ok op"
    and "engine_new (dyn_vt lz (net_io parse) R) rdma_new avail config w = (Ok e, w1)"
    and "eng_run (dyn_vt lz (net_io parse) R) net_now it ops e w1 = (rs, e', w2)"
  shows "answers_agree Map.empty ops rs"
proof -
  from engine_new_ok [OF assms(1-3), of parse R rdma_new] assms(6)
  have "eng_ok dyn_bid (dyn_contents lz) (dyn_inv lz) dyn_apart e w1" "eng_abs (dyn_contents lz) e w1 = Map.empty"
    by auto
  with dyn.eng_run_agrees [OF assms(4) this(1) _ assms(5,7), of Map.empty] show ?thesis by simp
qed

text \<open>A network in which every call fails, and one in which the first thousand succeed.\<close>

definition dead_net :: net where
  "dead_net = \<lparr>net_servers = [], net_conns = [], net_fate = (\<lambda>_. Broken 0), net_step = 0,
     net_tick = (\<lambda>_. 1), net_time = 0\<rparr>"

definition sample_net :: net where
  "sample_net = \<lparr>net_servers = [(''10.0.0.2:9200'', ps_new 8)], net_conns = [],
     net_fate = (\<lambda>k. if k < 1000 then Fine else Broken 0), net_step = 0,
     net_tick = (\<lambda>_. 1), net_time = 0\<rparr>"

text \<open>One TCP peer and no local backends.\<close>

definition sample_config :: daemon_config where
  "sample_config = default_config\<lparr>dc_backends :=
     \<lparr>bs_memory = None, bs_compress = None,
      bs_remote = Some \<lparr>rbc_enabled = True, rbc_transport = ''tcp'', rbc_peers = [''10.0.0.2:9200''],
                        rbc_max_pages_per_peer = 4\<rparr>\<rparr>\<rparr>"

abbreviation sample_vt :: "((nat, memory_backend) dyn_backend, net) backend_vt" where
  "sample_vt \<equiv> dyn_vt plain_codec (net_io (\<lambda>_. True)) mb_vt"

lemma sample_facts:
  "lz4_roundtrip plain_codec" "net_ready dead_net" "net_ready sample_net"
  "tcp_only avail default_config" "tcp_only avail sample_config"
  by (simp_all add: lz4_roundtrip_plain net_ready_def net_ok_def dead_net_def sample_net_def
      ps_new_def ps_good_def tcp_only_def default_config_def default_backends_section_def
      sample_config_def use_rdma_def)

lemma map_le_empty_iff: "m \<subseteq>\<^sub>m Map.empty \<longleftrightarrow> m = Map.empty"
  by (auto simp: map_le_def dom_def fun_eq_iff)

lemma permutes_entries_rev: "permutes_entries rev"
  by (simp add: permutes_entries_def)

theorem daemon_answers_agree_witness:
  "\<exists>e w1. engine_new sample_vt (\<lambda>i a. mb_new i) False sample_config sample_net = (Ok e, w1) \<and>
     answers_agree Map.empty [EStore 5 (replicate 4096 7), ELoad 5]
       (fst (eng_run sample_vt net_now rev [EStore 5 (replicate 4096 7), ELoad 5] e w1))"
proof -
  from engine_new_ok [OF sample_facts(3,1,5), where parse = "\<lambda>_. True" and R = mb_vt and
      rdma_new = "\<lambda>i a. mb_new i" and avail = False] obtain e w1 where
    e: "engine_new sample_vt (\<lambda>i a. mb_new i) False sample_config sample_net = (Ok e, w1)" by blast
  obtain rs e' w2 where run: "eng_run sample_vt net_now rev [EStore 5 (replicate 4096 7), ELoad 5] e w1 = (rs, e', w2)"
    by (cases "eng_run sample_vt net_now rev [EStore 5 (replicate 4096 7), ELoad 5] e w1") auto
  have "answers_agree Map.empty [EStore 5 (replicate 4096 7), ELoad 5] rs"
    by (rule daemon_answers_agree [OF sample_facts(3,1,5) permutes_entries_rev _ e run]) simp
  with e run show ?thesis by auto
qed


text \<open>A consistent engine with one memory backend of two pages.\<close>

definition sample_engine :: "(nat, memory_backend) dyn_backend engine" where
  "sample_engine = with_backends default_config [(0, DynMemory ((mb_new 0)\<lparr>mb_max_pages := 2\<rparr>))]"

lemma sample_engine_ok:
  "eng_ok dyn_bid (dyn_contents lz) (dyn_inv lz) dyn_apart sample_engine w"
  "eng_ok dyn_bid (dyn_contents lz) (local_inv lz) dyn_apart sample_engine w"
  "within_capacity sample_vt sample_engine" "none_exhausted dyn_exhausted sample_engine"
  "some_usable sample_vt sample_engine" "eng_abs (dyn_contents lz) sample_engine w = Map.empty"
  by (auto simp: eng_ok_def sample_engine_def with_backends_def policy_new_def policy_ok_def policy_lookup_def
      hm_ok_def mb_new_def mb_inv_def local_inv_def within_capacity_def none_exhausted_def mb_exhausted_def
      mb_capacity_def some_usable_def usable_def has_room_def eng_abs_def split: if_splits)


text \<open>
  C5: a load changes nothing that can be read, keeps the engine consistent, and when it succeeds
  returns the page the offset holds.
\<close>

theorem load_page_refines:
  assumes "eng_ok dyn_bid (dyn_contents lz) (dyn_inv lz) dyn_apart e w"
    and "load_page (dyn_vt lz (net_io parse) R) net_now e x w = (r, e', w')" and "r \<noteq> Panic"
  shows "eng_ok dyn_bid (dyn_contents lz) (dyn_inv lz) dyn_apart e' w' \<and>
     eng_abs (dyn_contents lz) e' w' = eng_abs (dyn_contents lz) e w \<and>
     (\<forall>d. r = Ok d \<longrightarrow> eng_abs (dyn_contents lz) e w x = Some d)"
  by (rule dyn.load_page_law [OF assms])

theorem load_page_refines_witness:
  "\<exists>r e' w'. load_page sample_vt net_now sample_engine 5 dead_net = (r, e', w') \<and>
     eng_abs (dyn_contents plain_codec) e' w' = Map.empty"
proof -
  have l: "load_page sample_vt net_now sample_engine 5 dead_net =
    (Err (OffsetNotFound 5), upd_stats inc_load_errors sample_engine, dead_net)"
    by (simp add: load_page_def sample_engine_def with_backends_def policy_new_def policy_lookup_def)
  from load_page_refines [OF sample_engine_ok(1) [of plain_codec] l] l sample_engine_ok(6) show ?thesis by auto
qed

text \<open>
  C10: an invalidation removes the offset's page and no other, whether or not the backend could be
  told to free it.
\<close>

theorem invalidate_page_refines:
  assumes "eng_ok dyn_bid (dyn_contents lz) (dyn_inv lz) dyn_apart e w"
    and "invalidate_page (dyn_vt lz (net_io parse) R) e x w = (r, e', w')" and "r \<noteq> Panic"
  shows "eng_ok dyn_bid (dyn_contents lz) (dyn_inv lz) dyn_apart e' w' \<and>
     eng_abs (dyn_contents lz) e' w' = (eng_abs (dyn_contents lz) e w)(x := None)"
  by (rule dyn.invalidate_page_law [OF assms])

theorem invalidate_page_refines_witness:
  "\<exists>e' w'. invalidate_page sample_vt sample_engine 5 dead_net = (Ok (), e', w') \<and>
     eng_abs (dyn_contents plain_codec) e' w' = Map.empty"
proof -
  obtain e' where i: "invalidate_page sample_vt sample_engine 5 dead_net = (Ok (), e', dead_net)"
    by (simp add: invalidate_page_def sample_engine_def with_backends_def policy_new_def policy_remove_def)
  from invalidate_page_refines [OF sample_engine_ok(1) [of plain_codec] i] i sample_engine_ok(6) show ?thesis by auto
qed

text \<open>
  C11: on an engine of local backends that is within its capacity, a store succeeds whenever some
  backend has room, the offset is being overwritten, or some page is not pinned (and no backend has
  handed out all 2^56 offsets). It keeps every backend within its capacity, and it drops at most one
  other page, and that only when every backend is full.
\<close>

theorem store_page_succeeds:
  assumes "permutes_entries it" and "eng_ok dyn_bid (dyn_contents lz) (local_inv lz) dyn_apart e w"
    and "within_capacity (dyn_vt lz (net_io parse) R) e" and "none_exhausted dyn_exhausted e" and "is_page d"
    and "some_usable (dyn_vt lz (net_io parse) R) e \<or> eng_abs (dyn_contents lz) e w x \<noteq> None \<or>
      (\<exists>y. eng_abs (dyn_contents lz) e w y \<noteq> None \<and> \<not> pinned e y)"
  shows "\<exists>h e' w'. store_page (dyn_vt lz (net_io parse) R) net_now it e x d w = (Ok h, e', w') \<and>
     eng_ok dyn_bid (dyn_contents lz) (local_inv lz) dyn_apart e' w' \<and>
     within_capacity (dyn_vt lz (net_io parse) R) e' \<and>
     (eng_abs (dyn_contents lz) e' w' = (eng_abs (dyn_contents lz) e w)(x \<mapsto> d) \<or>
      \<not> some_usable (dyn_vt lz (net_io parse) R) e \<and>
      (\<exists>y. y \<noteq> x \<and> eng_abs (dyn_contents lz) e' w' = (eng_abs (dyn_contents lz) e w)(y := None, x \<mapsto> d)))"
  by (rule local.store_page_progress [OF assms])

theorem store_page_succeeds_witness:
  "\<exists>h e' w'. store_page sample_vt net_now rev sample_engine 5 (replicate 4096 7) dead_net = (Ok h, e', w') \<and>
     within_capacity sample_vt e'"
  using store_page_succeeds [OF permutes_entries_rev sample_engine_ok(2-4),
      where d = "replicate 4096 7" and x = 5 and w = dead_net]
    sample_engine_ok(5) by auto

text \<open>
  What is stored can be loaded: under the same conditions the store succeeds and a load of the
  offset that follows returns the page.
\<close>

theorem store_then_load:
  assumes "permutes_entries it" and "eng_ok dyn_bid (dyn_contents lz) (local_inv lz) dyn_apart e w"
    and "within_capacity (dyn_vt lz (net_io parse) R) e" and "none_exhausted dyn_exhausted e" and "is_page d"
    and "some_usable (dyn_vt lz (net_io parse) R) e"
  shows "\<exists>h e1 w1 e2 w2. store_page (dyn_vt lz (net_io parse) R) net_now it e x d w = (Ok h, e1, w1) \<and>
     load_page (dyn_vt lz (net_io parse) R) net_now e1 x w1 = (Ok d, e2, w2)"
proof -
  from local.store_page_progress [OF assms(1-5)] assms(6) obtain h e1 w1 where
    s: "store_page (dyn_vt lz (net_io parse) R) net_now it e x d w = (Ok h, e1, w1)"
    "eng_ok dyn_bid (dyn_contents lz) (local_inv lz) dyn_apart e1 w1"
    "eng_abs (dyn_contents lz) e1 w1 = (eng_abs (dyn_contents lz) e w)(x \<mapsto> d)" by blast
  have "eng_abs (dyn_contents lz) e1 w1 x = Some d" using s(3) by simp
  from local.load_page_total [OF s(2) this] s(1) show ?thesis by blast
qed

theorem store_then_load_witness:
  "\<exists>h e1 w1 e2 w2. store_page sample_vt net_now rev sample_engine 5 (replicate 4096 7) dead_net = (Ok h, e1, w1) \<and>
     load_page sample_vt net_now e1 5 w1 = (Ok (replicate 4096 7), e2, w2)"
  using store_then_load [OF permutes_entries_rev sample_engine_ok(2-4) _ sample_engine_ok(5),
      where d = "replicate 4096 7" and x = 5 and w = dead_net] by simp



section \<open>The swap device\<close>

text \<open>The swap device right after the module is loaded, the engine built and the control device opened.\<close>

definition started ::
  "(('s, 'r) dyn_backend, 'w) backend_vt \<Rightarrow> (u8 \<Rightarrow> string \<Rightarrow> 'r) \<Rightarrow> bool \<Rightarrow> daemon_config \<Rightarrow> 'w \<Rightarrow> u32 \<Rightarrow>
   kmod_consumer \<Rightarrow> (('s, 'r) dyn_backend, 'w) machine \<Rightarrow> bool" where
  "started V rdma_new avail config w cap kc s \<longleftrightarrow>
     (\<exists>e w1 ok r ps. engine_new V rdma_new avail config w = (Ok e, w1) \<and>
        duvm_ring_init ok cap (ucast cap) = (Inr r, ps) \<and>
        consumer_open True (\<lambda>n. n \<le> dr_ring_size r) (dr_header r) = Inr kc \<and> s = boot cap r e w1)"

lemma started_ok:
  assumes "net_ready w" and "lz4_roundtrip lz" and "tcp_only avail config" and "is_power_of_2 cap" and "unat cap < 2 ^ 31"
    and "started (dyn_vt lz (net_io parse) R) rdma_new avail config w cap kc s"
  shows "machine_ok (eng_ok dyn_bid (dyn_contents lz) (dyn_inv lz) dyn_apart) (eng_abs (dyn_contents lz)) kc s empty_spec"
proof -
  from assms(6) obtain e w1 ok r ps where s: "engine_new (dyn_vt lz (net_io parse) R) rdma_new avail config w = (Ok e, w1)"
    "duvm_ring_init ok cap (ucast cap) = (Inr r, ps)"
    "consumer_open True (\<lambda>n. n \<le> dr_ring_size r) (dr_header r) = Inr kc" "s = boot cap r e w1"
    unfolding started_def by blast
  from engine_new_ok [OF assms(1-3), of parse R rdma_new] s(1)
  have "eng_ok dyn_bid (dyn_contents lz) (dyn_inv lz) dyn_apart e w1" "eng_abs (dyn_contents lz) e w1 = Map.empty" by auto
  from boot_ok [OF s(2) assms(4,5) s(3), of "eng_ok dyn_bid (dyn_contents lz) (dyn_inv lz) dyn_apart" e w1
      "eng_abs (dyn_contents lz)", OF this] show ?thesis unfolding s(4) .
qed


text \<open>A ring of four entries, and a request that writes one page of sevens at page index three.\<close>

definition sample_write :: blk_rq where
  "sample_write = \<lparr>br_tag = 0, br_write = True, br_sector = 24,
     br_segments = [\<lparr>bv_offset = 0, bv_data = replicate 4096 7\<rparr>]\<rparr>"

lemma sample_started: "\<exists>kc s. started sample_vt (\<lambda>i a. mb_new i) True default_config dead_net 4 kc s"
proof -
  obtain r ps where r: "duvm_ring_init (\<lambda>_. True) 4 (ucast (4 :: u32)) = (Inr r, ps)"
    using ring_init_total [of "\<lambda>_. True"] by blast
  from engine_new_ok [OF sample_facts(2,1,4), where parse = "\<lambda>_. True" and R = mb_vt and rdma_new = "\<lambda>i a. mb_new i"]
  obtain e w1 where "engine_new sample_vt (\<lambda>i a. mb_new i) True default_config dead_net = (Ok e, w1)" by blast
  with r consumer_open_ring [OF r four_power] show ?thesis unfolding started_def by blast
qed

lemma sample_queue:
  assumes "started sample_vt (\<lambda>i a. mb_new i) True default_config dead_net 4 kc s"
  shows "\<exists>s'. swap_run sample_vt net_now rev kc s [Queued 0 True 3 (replicate 4096 7)] s'"
proof -
  from assms obtain r ps e w1 ok where b: "s = boot 4 r e w1" "duvm_ring_init ok 4 (ucast (4 :: u32)) = (Inr r, ps)"
    by (auto simp: started_def)
  note F = ring_init_facts [OF b(2) four_power]
  note M = started_ok [OF sample_facts(2,1,4) four_power assms]
  then obtain ts us where R: "dev_rel ts us (sm_dev s) empty_spec" "sm_busy s = set ts \<union> set us" by (rule machine_okE)
  have nil: "ts = []" "us = []" using R(2) by (simp_all add: b(1) boot_def)
  have dev: "sm_busy s = {}" "dd_queue_depth (sm_dev s) = 4" "ring_cap (dd_ring (sm_dev s)) = 4"
    using F(4,5) by (simp_all add: b(1) boot_def initial_device_def duvm_ctl_open_def ring_cap_def Let_def)
  have rq: "swap_rq sample_write" "br_tag sample_write = 0" "br_write sample_write" "br_sector sample_write div 8 = 3"
    "seg_bytes (br_segments sample_write) = replicate 4096 7"
    by (simp_all add: swap_rq_def sample_write_def)
  from queue_accepts [OF R(1), of sample_write] M rq(1,2) nil dev R(2) obtain d where
    "queue_async ((sm_dev s)\<lparr>dd_rqs := (dd_rqs (sm_dev s))(0 \<mapsto> sample_write)\<rparr>) sample_write = Some (BLK_STS_OK, d, [])"
    by (auto simp: machine_ok_def swap_rq_def)
  then have "duvm_queue_rq (\<lambda>_. True) (\<lambda>_. True) [] ((sm_dev s)\<lparr>dd_rqs := (dd_rqs (sm_dev s))(br_tag sample_write \<mapsto> sample_write)\<rparr>)
    sample_write = Some (BLK_STS_OK, d, [])" using dev_relD(2) [OF R(1)] rq(2) by (simp add: duvm_queue_rq_def)
  from queue [OF rq(1) _ _ _ this] dev rq(2)
  have "swap_step sample_vt net_now rev kc s
      (Queued (br_tag sample_write) (br_write sample_write) (br_sector sample_write div 8) (seg_bytes (br_segments sample_write)))
      (s\<lparr>sm_dev := d, sm_busy := insert (br_tag sample_write) (sm_busy s)\<rparr>)" by simp
  then have "swap_step sample_vt net_now rev kc s (Queued 0 True 3 (replicate 4096 7)) (s\<lparr>sm_dev := d, sm_busy := {0}\<rparr>)"
    unfolding rq(2,4,5) dev(1) using rq(3) by simp
  from run_step [OF this run_nil] show ?thesis by blast
qed








section \<open>The control path\<close>

text \<open>
  C40: where the daemon can be reached: on the default socket when it runs without the kernel module, and
  nowhere when it serves the module. The socket given on the command line or in the configuration
  file has no effect, for the engine that listens is built from the default configuration. (The path can be bound, and JSON is one line.)
\<close>

theorem daemon_socket_is_default:
  assumes "daemon_main V rdma_new avail kmod (main_config ex rd ps args) args w = (Ok mode, w')" and "json_lines json"
    and "binds DEFAULT_SOCKET"
  shows "send_command (daemon_listens V json binds mode) path ''ping'' =
    (if (da_uffd_mode args \<or> (\<exists>er. kmod (da_kmod_ctl args) = Inl er)) \<and> path = DEFAULT_SOCKET then Inr ''pong'' else Inl NoDaemon)"
proof -
  consider c e where "mode = ConsumerMode c e" "\<not> da_uffd_mode args" "kmod (da_kmod_ctl args) = Inr c"
    | e w1 where "mode = SocketMode e" "da_uffd_mode args \<or> (\<exists>er. kmod (da_kmod_ctl args) = Inl er)"
        "engine_new V rdma_new avail default_config w1 = (Ok e, w')"
    using assms(1) by (auto simp: daemon_main_def split: prod.splits res.splits option.splits if_splits sum.splits)
  then show ?thesis
  proof cases
    case 1
    then show ?thesis by (simp add: send_command_def daemon_listens_def)
  next
    case 2
    have p: "socket_path (dc_daemon (eng_config e)) = DEFAULT_SOCKET"
      using engine_new_config [OF 2(3)] by (simp add: default_config_defs DEFAULT_SOCKET_def)
    have "response_text json (command_response V e ''ping'') = Some ''pong''"
      by (simp add: response_text_def command_response_def)
    from command_roundtrip [OF assms(2) _ this, of CtlPing binds] p 2(1,2) assms(3) show ?thesis
      by (auto simp: send_command_def daemon_listens_def)
  qed
qed

theorem daemon_socket_is_default_witness:
  "\<exists>mode w'. daemon_main sample_vt (\<lambda>i a. mb_new i) True (\<lambda>_. Inl OpenFailed)
       (main_config (\<lambda>_. False) (\<lambda>_. None) (\<lambda>_. None) (default_daemon_args\<lparr>da_socket := ''/tmp/duvm.sock''\<rparr>))
       (default_daemon_args\<lparr>da_socket := ''/tmp/duvm.sock''\<rparr>) dead_net = (Ok mode, w') \<and>
     send_command (daemon_listens sample_vt sample_json (\<lambda>_. True) mode) ''/tmp/duvm.sock'' ''ping'' = Inl NoDaemon"
  (is "\<exists>mode w'. daemon_main sample_vt ?R True ?K ?c ?a dead_net = _ \<and> _")
proof -
  have local: "\<exists>e. engine_new sample_vt ?R True c dead_net = (Ok e, dead_net)"
    if "dc_backends c = default_backends_section" for c
    by (simp add: that engine_new_def default_config_defs add_memory_def add_compress_def add_remote_def try_add_def
        mb_init_def cb_init_def dyn_vt_def Let_def)
  have "dc_backends ?c = default_backends_section"
    by (simp add: main_config_def load_or_default_def apply_cli_overrides_def default_daemon_args_def
        DEFAULT_SOCKET_def default_config_def)
  with local [of ?c] obtain e where "engine_new sample_vt ?R True ?c dead_net = (Ok e, dead_net)" by blast
  moreover obtain e' where "engine_new sample_vt ?R True default_config dead_net = (Ok e', dead_net)"
    using local [of default_config] by (auto simp: default_config_def)
  ultimately have m: "daemon_main sample_vt ?R True ?K ?c ?a dead_net = (Ok (SocketMode e'), dead_net)"
    by (simp add: daemon_main_def)
  from daemon_socket_is_default [OF m sample_json_lines, where binds = "\<lambda>_. True" and path = "''/tmp/duvm.sock''"] m
  show ?thesis by (simp add: DEFAULT_SOCKET_def)
qed

end
